(* ===== verification/Go_Prelude.thy ===== *)
theory Go_Prelude
  imports Main "HOL-Library.AList" "HOL-Library.Multiset"
begin

text \<open>
  Shared vocabulary of the development: Go maps as association lists, the iteration order of
  a Go \<^verbatim>\<open>range\<close> over a map as an explicit schedule, fixed-width integers, and the generic
  lemmas the components share. The collection \<open>go_map_simps\<close> holds the rewrite rules for
  lookups after stores and deletes.
\<close>

named_theorems go_map_simps \<open>lookups after stores and deletes in Go maps\<close>

subsection \<open>Go maps\<close>

text \<open>
  A Go map is an association list read through \<^const>\<open>map_of\<close>; \<open>m[k] = v\<close> is
  \<^const>\<open>AList.update\<close>, \<open>delete(m, k)\<close> is \<^const>\<open>AList.delete\<close>. Keys are distinct in every
  map built by these operations (\<open>wf_map\<close>).
\<close>

type_synonym ('k, 'v) gomap = "('k \<times> 'v) list"

abbreviation mget :: "('k, 'v) gomap \<Rightarrow> 'k \<Rightarrow> 'v option" where
  "mget m k \<equiv> map_of m k"

abbreviation mput :: "'k \<Rightarrow> 'v \<Rightarrow> ('k, 'v) gomap \<Rightarrow> ('k, 'v) gomap" where
  "mput k v m \<equiv> AList.update k v m"

abbreviation mdel :: "'k \<Rightarrow> ('k, 'v) gomap \<Rightarrow> ('k, 'v) gomap" where
  "mdel k m \<equiv> AList.delete k m"

definition wf_map :: "('k, 'v) gomap \<Rightarrow> bool" where
  "wf_map m \<longleftrightarrow> distinct (map fst m)"

lemma wf_map_Nil [simp]: "wf_map []"
  by (simp add: wf_map_def)

lemma wf_map_mput [simp]: "wf_map m \<Longrightarrow> wf_map (mput k v m)"
  by (simp add: wf_map_def distinct_update)

lemma wf_map_mdel [simp]: "wf_map m \<Longrightarrow> wf_map (mdel k m)"
  by (simp add: wf_map_def distinct_delete)

lemma mget_mput [simp, go_map_simps]: "mget (mput k v m) k' = (if k = k' then Some v else mget m k')"
  by (simp add: update_conv')

lemma mget_mdel [simp, go_map_simps]: "mget (mdel k m) k' = (if k = k' then None else mget m k')"
  by (simp add: delete_conv')

lemma mget_in_set: "mget m k = Some v \<Longrightarrow> (k, v) \<in> set m"
  by (rule map_of_SomeD)

lemma in_set_mget: "wf_map m \<Longrightarrow> (k, v) \<in> set m \<longleftrightarrow> mget m k = Some v"
  by (auto simp: wf_map_def)

lemma mget_None_iff: "mget m k = None \<longleftrightarrow> k \<notin> fst ` set m"
  by (simp add: map_of_eq_None_iff)

lemma mput_not_Nil [simp]: "mput k v m \<noteq> []"
  by (cases m) auto

text \<open>The zero value read of Go: \<open>m[k]\<close> of a missing key.\<close>

definition mget_or :: "'v \<Rightarrow> ('k, 'v) gomap \<Rightarrow> 'k \<Rightarrow> 'v" where
  "mget_or z m k = (case mget m k of None \<Rightarrow> z | Some v \<Rightarrow> v)"

subsection \<open>The order of a range loop\<close>

text \<open>
  Go visits the entries of a map in an unspecified order. A loop whose result depends on the
  order takes a schedule: a list of numbers that picks, one after the other, the entry to
  visit among those that remain. Every schedule gives a permutation and every permutation
  has a schedule.
\<close>

type_synonym schedule = "nat list"

fun shuffle :: "schedule \<Rightarrow> 'a list \<Rightarrow> 'a list" where
  "shuffle [] xs = xs"
| "shuffle (n # ns) [] = []"
| "shuffle (n # ns) (x # xs) =
     (let ys = x # xs; i = n mod length ys
      in ys ! i # shuffle ns (take i ys @ drop (Suc i) ys))"

lemma mset_take_nth_drop:
  "i < length ys \<Longrightarrow> add_mset (ys ! i) (mset (take i ys @ drop (Suc i) ys)) = mset ys"
proof -
  assume i: "i < length ys"
  have "mset ys = mset (take i ys @ ys ! i # drop (Suc i) ys)"
    using i by (simp add: id_take_nth_drop [symmetric])
  then show ?thesis by simp
qed

lemma mset_shuffle [simp]: "mset (shuffle s xs) = mset xs"
proof (induction s xs rule: shuffle.induct)
  case (3 n ns x xs)
  let ?ys = "x # xs" and ?i = "n mod length (x # xs)"
  have i: "?i < length ?ys" by simp
  have "mset (shuffle (n # ns) (x # xs)) =
      add_mset (?ys ! ?i) (mset (take ?i ?ys @ drop (Suc ?i) ?ys))"
    using "3.IH" [of ?ys ?i] by (simp only: shuffle.simps Let_def mset.simps refl)
  then show ?case using mset_take_nth_drop [OF i] by (simp only:)
qed simp_all

lemma set_shuffle [simp]: "set (shuffle s xs) = set xs"
  by (metis mset_shuffle set_mset_mset)

lemma length_shuffle [simp]: "length (shuffle s xs) = length xs"
  by (metis mset_shuffle size_mset)

lemma distinct_shuffle [simp]: "distinct (shuffle s xs) = distinct xs"
  by (metis mset_shuffle mset_eq_imp_distinct_iff)

lemma shuffle_eq_Nil [simp]: "shuffle s xs = [] \<longleftrightarrow> xs = []"
  by (metis length_0_conv length_shuffle)

lemma shuffle_Nil [simp]: "shuffle s [] = []"
  by simp

lemma shuffle_map: "shuffle s (map f xs) = map f (shuffle s xs)"
proof (induction s xs rule: shuffle.induct)
  case (3 n ns x xs)
  let ?ys = "x # xs" and ?i = "n mod length (x # xs)"
  have i: "?i < length ?ys" by simp
  have "map f ?ys ! ?i = f (?ys ! ?i)" using i by (simp only: nth_map)
  moreover have "shuffle ns (take ?i (map f ?ys) @ drop (Suc ?i) (map f ?ys)) =
      map f (shuffle ns (take ?i ?ys @ drop (Suc ?i) ?ys))"
    using "3.IH" [of ?ys ?i] by (simp only: take_map drop_map map_append refl)
  ultimately show ?case by (simp add: Let_def)
qed simp_all

subsection \<open>Machine integers\<close>

text \<open>
  Go's \<^verbatim>\<open>int\<close> is 64 bits wide on the platforms the program is built for; \<^verbatim>\<open>int32\<close> is the
  type of port numbers. Both wrap in two's complement.
\<close>

definition wrap_int :: "nat \<Rightarrow> int \<Rightarrow> int" where
  "wrap_int w i = (i + 2 ^ (w - 1)) mod 2 ^ w - 2 ^ (w - 1)"

definition int32 :: "int \<Rightarrow> int" where
  "int32 i = wrap_int 32 i"

definition int64 :: "int \<Rightarrow> int" where
  "int64 i = wrap_int 64 i"

lemma int32_id: "- (2 ^ 31) \<le> i \<Longrightarrow> i < 2 ^ 31 \<Longrightarrow> int32 i = i"
  by (simp add: int32_def wrap_int_def)

lemma int64_add_left: "int64 (int64 a + b) = int64 (a + b)"
proof -
  have "(int64 a + b + 2 ^ 63) mod 2 ^ 64 = ((a + 2 ^ 63) mod 2 ^ 64 + b) mod 2 ^ 64"
    by (simp add: int64_def wrap_int_def algebra_simps)
  also have "\<dots> = (a + 2 ^ 63 + b) mod 2 ^ 64" by (rule mod_add_left_eq)
  finally show ?thesis by (simp add: int64_def wrap_int_def algebra_simps)
qed

subsection \<open>Sequences of operations\<close>

text \<open>
  A loop whose body may return an error, which ends it, or panic (\<open>None\<close>), which ends the
  program. The state is threaded through.
\<close>

fun each_go :: "('a \<Rightarrow> 's \<Rightarrow> ('e option \<times> 's) option) \<Rightarrow> 'a list \<Rightarrow> 's \<Rightarrow> ('e option \<times> 's) option" where
  "each_go f [] s = Some (None, s)"
| "each_go f (x # xs) s =
     (case f x s of
        None \<Rightarrow> None
      | Some (Some e, s') \<Rightarrow> Some (Some e, s')
      | Some (None, s') \<Rightarrow> each_go f xs s')"

lemma each_go_invariant:
  assumes "each_go f xs s = Some (e, s')" and "P s"
    and "\<And>x s e s'. x \<in> set xs \<Longrightarrow> P s \<Longrightarrow> f x s = Some (e, s') \<Longrightarrow> P s'"
  shows "P s'"
  using assms
proof (induction xs arbitrary: s)
  case (Cons x xs)
  from Cons.prems(1) obtain e1 s1 where f: "f x s = Some (e1, s1)"
    by (auto split: option.splits)
  then have "P s1" using Cons.prems(2,3) by auto
  then show ?case using Cons.IH [of s1] Cons.prems f by (cases e1) auto
qed simp

lemma each_go_append:
  "each_go f (xs @ ys) s =
     (case each_go f xs s of
        None \<Rightarrow> None
      | Some (Some e, s') \<Rightarrow> Some (Some e, s')
      | Some (None, s') \<Rightarrow> each_go f ys s')"
  by (induction xs arbitrary: s) (auto split: prod.splits option.splits)

lemma each_go_map: "each_go f (map g xs) s = each_go (\<lambda>x. f (g x)) xs s"
  by (induction xs arbitrary: s) (auto split: option.splits)

lemma each_go_concat: "each_go f (concat xss) s = each_go (each_go f) xss s"
  by (induction xss arbitrary: s) (auto simp: each_go_append split: option.split)

lemma each_go_cong:
  "(\<And>x s. x \<in> set xs \<Longrightarrow> f x s = g x s) \<Longrightarrow> each_go f xs s = each_go g xs s"
proof (induction xs arbitrary: s)
  case (Cons x xs)
  then have "f x s = g x s" and "each_go f xs = each_go g xs" by auto
  then show ?case by (auto split: option.split)
qed simp

lemma each_go_None_Cons:
  "each_go f (x # xs) s = Some (None, s') \<longleftrightarrow>
     (\<exists>s1. f x s = Some (None, s1) \<and> each_go f xs s1 = Some (None, s'))"
  by (auto split: option.splits)

text \<open>What one step of a loop establishes and the others keep holds at its end.\<close>

lemma each_go_establish:
  assumes "each_go f xs s = Some (None, s')" and "x \<in> set xs"
    and "\<And>s s'. f x s = Some (None, s') \<Longrightarrow> P s'"
    and "\<And>y s s'. y \<in> set xs \<Longrightarrow> P s \<Longrightarrow> f y s = Some (None, s') \<Longrightarrow> P s'"
  shows "P s'"
proof -
  have keep: "each_go f ys t = Some (None, t') \<Longrightarrow> P t \<Longrightarrow> set ys \<subseteq> set xs \<Longrightarrow> P t'" for ys t t'
  proof (induction ys arbitrary: t)
    case (Cons y ys)
    then obtain t1 where "f y t = Some (None, t1)" "each_go f ys t1 = Some (None, t')"
      unfolding each_go_None_Cons by blast
    then show ?case using Cons.IH [of t1] Cons.prems assms(4) [of y t t1] by auto
  qed simp
  obtain as bs where xs: "xs = as @ x # bs" using assms(2) by (auto simp: in_set_conv_decomp)
  have "each_go f (as @ x # bs) s = Some (None, s')" using assms(1) xs by simp
  then obtain s1 where "each_go f (x # bs) s1 = Some (None, s')"
    unfolding each_go_append by (auto split: option.splits)
  then obtain s2 where "f x s1 = Some (None, s2)" "each_go f bs s2 = Some (None, s')"
    unfolding each_go_None_Cons by blast
  then show ?thesis using keep [of bs s2 s'] assms(3) xs by auto
qed

lemma map_update_same: "i < length xs \<Longrightarrow> f x = f (xs ! i) \<Longrightarrow> map f (xs[i := x]) = map f xs"
proof (induction xs arbitrary: i)
  case (Cons y ys)
  then show ?case by (cases i) simp_all
qed simp

lemma find_append_new:
  "find P (rs @ [x]) = (case find P rs of None \<Rightarrow> if P x then Some x else None | Some r \<Rightarrow> Some r)"
  by (induction rs) auto

end
