(* ===== verification/Go_Json.thy ===== *)
theory Go_Json
  imports Go_Strings
begin

text \<open>
  The part of Go's \<^verbatim>\<open>encoding/json\<close> the program relies on: UTF-8 validity, the escaping of
  strings by \<^verbatim>\<open>json.Marshal\<close>, the lexical grammar and the value grammar that
  \<^verbatim>\<open>json.Unmarshal\<close> accepts. The value grammar is a stack machine over tokens, as the
  scanner of the Go package is. The main fact is that reading back an escaped string gives
  the string with its invalid bytes replaced by U+FFFD, hence the string itself when it is
  valid UTF-8.
\<close>

subsection \<open>UTF-8\<close>

abbreviation byte :: "char \<Rightarrow> nat" where
  "byte c \<equiv> of_char c"

definition in_range :: "nat \<Rightarrow> nat \<Rightarrow> char \<Rightarrow> bool" where
  "in_range lo hi c \<longleftrightarrow> lo \<le> byte c \<and> byte c \<le> hi"

definition second_ok :: "char \<Rightarrow> char \<Rightarrow> bool" where
  "second_ok a b =
     (if byte a = 0xE0 then in_range 0xA0 0xBF b
      else if byte a = 0xED then in_range 0x80 0x9F b
      else if byte a = 0xF0 then in_range 0x90 0xBF b
      else if byte a = 0xF4 then in_range 0x80 0x8F b
      else in_range 0x80 0xBF b)"

text \<open>The length of the code point a string starts with; 0 when it starts with none.\<close>

definition utf8_len :: "string \<Rightarrow> nat" where
  "utf8_len s = (case s of [] \<Rightarrow> 0 | a # r \<Rightarrow>
     if byte a < 0x80 then 1
     else if in_range 0xC2 0xDF a then
       (case r of b # _ \<Rightarrow> if in_range 0x80 0xBF b then 2 else 0 | _ \<Rightarrow> 0)
     else if in_range 0xE0 0xEF a then
       (case r of b # c # _ \<Rightarrow> if second_ok a b \<and> in_range 0x80 0xBF c then 3 else 0 | _ \<Rightarrow> 0)
     else if in_range 0xF0 0xF4 a then
       (case r of b # c # d # _ \<Rightarrow>
          if second_ok a b \<and> in_range 0x80 0xBF c \<and> in_range 0x80 0xBF d then 4 else 0
        | _ \<Rightarrow> 0)
     else 0)"

lemma utf8_len_le: "utf8_len s \<le> length s"
  unfolding utf8_len_def by (simp split: list.split)

lemma utf8_len_take:
  assumes n: "utf8_len s \<noteq> 0"
  shows "utf8_len (take (utf8_len s) s @ t) = utf8_len s"
proof (cases s)
  case (Cons a r)
  show ?thesis
  proof (cases r)
    case Nil
    then show ?thesis using n Cons by (simp add: utf8_len_def split: if_splits)
  next
    case r: (Cons b r1)
    show ?thesis
    proof (cases r1)
      case Nil
      then show ?thesis using n Cons r by (simp add: utf8_len_def split: if_splits)
    next
      case r1: (Cons c r2)
      show ?thesis
        by (cases r2) (use n Cons r r1 in \<open>simp_all add: utf8_len_def split: if_splits\<close>)
    qed
  qed
qed (use n in \<open>simp add: utf8_len_def\<close>)

text \<open>
  A string as a sequence of chunks: \<open>Inr\<close> the bytes of one code point, \<open>Inl\<close> one byte that
  belongs to none.
\<close>

function utf8_chunks :: "string \<Rightarrow> (char + string) list" where
  "utf8_chunks [] = []"
| "utf8_chunks (c # cs) =
     (let n = utf8_len (c # cs)
      in if n = 0 then Inl c # utf8_chunks cs
         else Inr (take n (c # cs)) # utf8_chunks (drop n (c # cs)))"
  by pat_completeness auto
termination
  by (relation "measure length") auto

declare utf8_chunks.simps(2) [simp del]

definition replacement :: string where
  "replacement = [CHR 0xEF, CHR 0xBF, CHR 0xBD]"

fun sane_chunk :: "char + string \<Rightarrow> string" where
  "sane_chunk (Inl b) = replacement"
| "sane_chunk (Inr bs) = bs"

definition utf8_sanitize :: "string \<Rightarrow> string" where
  "utf8_sanitize s = concat (map sane_chunk (utf8_chunks s))"

definition valid_utf8 :: "string \<Rightarrow> bool" where
  "valid_utf8 s \<longleftrightarrow> list_all (\<lambda>c. case c of Inl _ \<Rightarrow> False | Inr _ \<Rightarrow> True) (utf8_chunks s)"

definition chunk_ok :: "char + string \<Rightarrow> bool" where
  "chunk_ok ch = (case ch of Inl b \<Rightarrow> 0x80 \<le> byte b
     | Inr bs \<Rightarrow> bs \<noteq> [] \<and> (\<forall>t. utf8_len (bs @ t) = length bs))"

lemma utf8_chunks_ok: "ch \<in> set (utf8_chunks s) \<Longrightarrow> chunk_ok ch"
proof (induction s rule: utf8_chunks.induct)
  case (2 c cs)
  let ?n = "utf8_len (c # cs)"
  show ?case
  proof (cases "?n = 0")
    case True
    then have "0x80 \<le> byte c" by (auto simp: utf8_len_def split: if_splits)
    with True 2 show ?thesis
      by (auto simp: utf8_chunks.simps(2) chunk_ok_def Let_def)
  next
    case False
    have "length (take ?n (c # cs)) = ?n" using utf8_len_le [of "c # cs"] by simp
    then have "chunk_ok (Inr (take ?n (c # cs)))"
      using False utf8_len_take [of "c # cs"] by (simp add: chunk_ok_def)
    with False 2 show ?thesis by (auto simp: utf8_chunks.simps(2) Let_def simp del: take_Suc_Cons)
  qed
qed simp

lemma utf8_sanitize_valid: "valid_utf8 s \<Longrightarrow> utf8_sanitize s = s"
proof (induction s rule: utf8_chunks.induct)
  case (2 c cs)
  then show ?case
    by (auto simp: valid_utf8_def utf8_sanitize_def utf8_chunks.simps(2) Let_def
        append_take_drop_id split: if_splits simp del: take_Suc_Cons)
qed (simp add: utf8_sanitize_def)

lemma utf8_chunks_ascii: "byte c < 0x80 \<Longrightarrow> utf8_chunks (c # cs) = Inr [c] # utf8_chunks cs"
  by (simp add: utf8_chunks.simps(2) utf8_len_def)

lemma valid_utf8_ascii: "\<forall>c \<in> set s. byte c < 0x80 \<Longrightarrow> valid_utf8 s"
  by (induction s) (simp_all add: valid_utf8_def utf8_chunks_ascii)

subsection \<open>Escaping a string (json.Marshal)\<close>

definition hex_char :: "nat \<Rightarrow> char" where
  "hex_char d = (if d < 10 then char_of (48 + d) else char_of (87 + d))"

definition esc_ascii :: "char \<Rightarrow> string" where
  "esc_ascii c =
     (if c = CHR 0x22 \<or> c = CHR 0x5C then [CHR 0x5C, c]
      else if c = CHR 0x0A then [CHR 0x5C, CHR ''n'']
      else if c = CHR 0x0D then [CHR 0x5C, CHR ''r'']
      else if c = CHR 0x09 then [CHR 0x5C, CHR ''t'']
      else if byte c < 0x20 \<or> c = CHR ''<'' \<or> c = CHR ''>'' \<or> c = CHR ''&'' then
        [CHR 0x5C, CHR ''u'', CHR ''0'', CHR ''0'', hex_char (byte c div 16), hex_char (byte c mod 16)]
      else [c])"

fun esc_chunk :: "char + string \<Rightarrow> string" where
  "esc_chunk (Inl b) = CHR 0x5C # ''ufffd''"
| "esc_chunk (Inr bs) =
     (case bs of
        [c] \<Rightarrow> esc_ascii c
      | _ \<Rightarrow> if bs = [CHR 0xE2, CHR 0x80, CHR 0xA8] then CHR 0x5C # ''u2028''
             else if bs = [CHR 0xE2, CHR 0x80, CHR 0xA9] then CHR 0x5C # ''u2029''
             else bs)"

definition json_escape :: "string \<Rightarrow> string" where
  "json_escape s = concat (map esc_chunk (utf8_chunks s))"

definition json_quote :: "string \<Rightarrow> string" where
  "json_quote s = CHR 0x22 # json_escape s @ [CHR 0x22]"

subsection \<open>Reading a string literal\<close>

definition hex_val :: "char \<Rightarrow> nat option" where
  "hex_val c =
     (if in_range 48 57 c then Some (byte c - 48)
      else if in_range 97 102 c then Some (byte c - 87)
      else if in_range 65 70 c then Some (byte c - 55)
      else None)"

fun hex4 :: "string \<Rightarrow> (nat \<times> string) option" where
  "hex4 (a # b # c # d # r) =
     (case (hex_val a, hex_val b, hex_val c, hex_val d) of
        (Some w, Some x, Some y, Some z) \<Rightarrow> Some (w * 4096 + x * 256 + y * 16 + z, r)
      | _ \<Rightarrow> None)"
| "hex4 _ = None"

definition utf8_encode :: "nat \<Rightarrow> string" where
  "utf8_encode n =
     (if n < 0x80 then [char_of n]
      else if n < 0x800 then [char_of (0xC0 + n div 64), char_of (0x80 + n mod 64)]
      else if n < 0x10000 then
        [char_of (0xE0 + n div 4096), char_of (0x80 + n div 64 mod 64), char_of (0x80 + n mod 64)]
      else [char_of (0xF0 + n div 262144), char_of (0x80 + n div 4096 mod 64),
            char_of (0x80 + n div 64 mod 64), char_of (0x80 + n mod 64)])"

definition is_surrogate :: "nat \<Rightarrow> bool" where
  "is_surrogate n \<longleftrightarrow> 0xD800 \<le> n \<and> n \<le> 0xDFFF"

text \<open>A high surrogate followed by an escaped low one is one code point.\<close>

definition surrogate_pair :: "nat \<Rightarrow> string \<Rightarrow> (nat \<times> string) option" where
  "surrogate_pair hi s = (case s of
       b # u # r \<Rightarrow>
         if b = CHR 0x5C \<and> u = CHR ''u'' then
           (case hex4 r of
              Some (lo, r') \<Rightarrow>
                if 0xD800 \<le> hi \<and> hi < 0xDC00 \<and> 0xDC00 \<le> lo \<and> lo < 0xE000
                then Some ((hi - 0xD800) * 1024 + (lo - 0xDC00) + 0x10000, r') else None
            | None \<Rightarrow> None)
         else None
     | _ \<Rightarrow> None)"

definition simple_escape :: "char \<Rightarrow> char option" where
  "simple_escape e =
     (if e = CHR 0x22 \<or> e = CHR 0x5C \<or> e = CHR ''/'' then Some e
      else if e = CHR ''b'' then Some (CHR 0x08)
      else if e = CHR ''f'' then Some (CHR 0x0C)
      else if e = CHR ''n'' then Some (CHR 0x0A)
      else if e = CHR ''r'' then Some (CHR 0x0D)
      else if e = CHR ''t'' then Some (CHR 0x09)
      else None)"

lemma hex4_length: "hex4 s = Some (n, r) \<Longrightarrow> length r < length s"
  by (induction s rule: hex4.induct) (auto split: option.splits)

lemma surrogate_pair_length: "surrogate_pair hi s = Some (n, r) \<Longrightarrow> length r < length s"
  by (auto simp: surrogate_pair_def dest!: hex4_length split: list.splits option.splits if_splits)

definition prepend :: "string \<Rightarrow> (string \<times> string) option \<Rightarrow> (string \<times> string) option" where
  "prepend p r = map_option (\<lambda>(v, rest). (p @ v, rest)) r"

text \<open>The decoded value of a string literal (after its opening quote) and what follows it.\<close>

function lex_string :: "string \<Rightarrow> (string \<times> string) option" where
  "lex_string [] = None"
| "lex_string (c # cs) =
     (if c = CHR 0x22 then Some ([], cs)
      else if c = CHR 0x5C then
        (case cs of
           [] \<Rightarrow> None
         | e # es \<Rightarrow>
             if e = CHR ''u'' then
               (case hex4 es of
                  None \<Rightarrow> None
                | Some (r, rest) \<Rightarrow>
                    if is_surrogate r then
                      (case surrogate_pair r rest of
                         Some (cp, rest') \<Rightarrow> prepend (utf8_encode cp) (lex_string rest')
                       | None \<Rightarrow> prepend replacement (lex_string rest))
                    else prepend (utf8_encode r) (lex_string rest))
             else (case simple_escape e of
                     None \<Rightarrow> None
                   | Some x \<Rightarrow> prepend [x] (lex_string es)))
      else if byte c < 0x20 then None
      else (let n = utf8_len (c # cs)
            in if n = 0 then prepend replacement (lex_string cs)
               else prepend (take n (c # cs)) (lex_string (drop n (c # cs)))))"
  by pat_completeness auto
termination
  by (relation "measure length") (auto dest!: hex4_length surrogate_pair_length)

declare lex_string.simps(2) [simp del]

lemma lex_quote [simp]: "lex_string (CHR 0x22 # rest) = Some ([], rest)"
  by (simp add: lex_string.simps(2))

lemma hex_val_hex_char: "d < 16 \<Longrightarrow> hex_val (hex_char d) = Some d"
  by (auto simp: hex_val_def hex_char_def in_range_def)

lemma hex4_code_unit:
  assumes "n < 256"
  shows "hex4 (CHR ''0'' # CHR ''0'' # hex_char (n div 16) # hex_char (n mod 16) # r) = Some (n, r)"
proof -
  have "n div 16 < 16" and "n mod 16 < 16" using assms by auto
  moreover have "hex_val (CHR ''0'') = Some 0" by (simp add: hex_val_def in_range_def)
  ultimately show ?thesis by (simp add: hex_val_hex_char)
qed

lemma lex_esc_ascii:
  assumes c: "byte c < 0x80"
  shows "lex_string (esc_ascii c @ rest) = prepend [c] (lex_string rest)"
proof -
  have enc: "utf8_encode (byte c) = [c]" using c by (simp add: utf8_encode_def)
  have ns: "\<not> is_surrogate (byte c)" using c by (simp add: is_surrogate_def)
  have h: "hex4 (CHR ''0'' # CHR ''0'' # hex_char (byte c div 16) # hex_char (byte c mod 16) # rest)
      = Some (byte c, rest)"
    by (rule hex4_code_unit) (use c in simp)
  have len: "utf8_len (c # rest) = 1" using c by (simp add: utf8_len_def)
  show ?thesis
    using enc ns h len
    by (simp add: esc_ascii_def lex_string.simps(2) simple_escape_def)
qed

lemma lex_esc_special:
  "lex_string (CHR 0x5C # ''ufffd'' @ rest) = prepend replacement (lex_string rest)"
  "lex_string (CHR 0x5C # ''u2028'' @ rest) = prepend [CHR 0xE2, CHR 0x80, CHR 0xA8] (lex_string rest)"
  "lex_string (CHR 0x5C # ''u2029'' @ rest) = prepend [CHR 0xE2, CHR 0x80, CHR 0xA9] (lex_string rest)"
  by (simp_all add: lex_string.simps(2) hex_val_def in_range_def is_surrogate_def utf8_encode_def
      replacement_def char_of_def bit_Suc_0_iff)

lemma lex_multibyte:
  assumes "length bs = utf8_len (bs @ rest)" and "1 < length bs"
  shows "lex_string (bs @ rest) = prepend bs (lex_string rest)"
proof -
  obtain c cs where bs: "bs = c # cs" using assms(2) by (cases bs) auto
  have "\<not> byte c < 0x80"
    using assms unfolding bs by (auto simp: utf8_len_def)
  then have "c \<noteq> CHR 0x22" "c \<noteq> CHR 0x5C" "\<not> byte c < 0x20" by auto
  moreover have "utf8_len (c # cs @ rest) = Suc (length cs)" using assms(1) bs by simp
  ultimately show ?thesis unfolding bs by (simp add: lex_string.simps(2))
qed

lemma lex_esc_chunk:
  assumes ok: "chunk_ok ch"
  shows "lex_string (esc_chunk ch @ rest) = prepend (sane_chunk ch) (lex_string rest)"
proof (cases ch)
  case (Inl b)
  then show ?thesis using lex_esc_special(1) by simp
next
  case (Inr bs)
  then have ne: "bs \<noteq> []" and len: "\<And>t. utf8_len (bs @ t) = length bs"
    using ok by (auto simp: chunk_ok_def)
  show ?thesis
  proof (cases "1 < length bs")
    case True
    then obtain a b r where bs: "bs = a # b # r" by (cases bs; cases "tl bs") auto
    have "lex_string (bs @ rest) = prepend bs (lex_string rest)"
      by (rule lex_multibyte) (use True len in simp_all)
    then show ?thesis using Inr lex_esc_special(2,3) [of rest] unfolding bs by simp
  next
    case False
    then obtain c where bs: "bs = [c]" using ne by (cases bs) auto
    have "byte c < 0x80"
      using len [of "[]"] unfolding bs by (auto simp: utf8_len_def split: if_splits)
    then show ?thesis using Inr bs lex_esc_ascii by simp
  qed
qed

lemma lex_json_escape:
  "lex_string (json_escape s @ CHR 0x22 # rest) = Some (utf8_sanitize s, rest)"
proof -
  have "\<forall>ch \<in> set cs. chunk_ok ch \<Longrightarrow>
      lex_string (concat (map esc_chunk cs) @ CHR 0x22 # rest) =
      Some (concat (map sane_chunk cs), rest)" for cs
    by (induction cs) (simp_all add: lex_esc_chunk prepend_def)
  then show ?thesis using utf8_chunks_ok by (simp add: json_escape_def utf8_sanitize_def)
qed
subsection \<open>Tokens\<close>

datatype token =
    TLBrace | TRBrace | TLBrack | TRBrack | TColon | TComma
  | TStr string | TNum string | TTrue | TFalse | TNull

definition is_digit :: "char \<Rightarrow> bool" where
  "is_digit c \<longleftrightarrow> in_range 48 57 c"

text \<open>Digits at the front of a string; \<open>None\<close> when there is none.\<close>

definition lex_digits :: "string \<Rightarrow> (string \<times> string) option" where
  "lex_digits s = (let d = takeWhile is_digit s
     in if d = [] then None else Some (d, dropWhile is_digit s))"

definition lex_int_part :: "string \<Rightarrow> (string \<times> string) option" where
  "lex_int_part s = (case s of
       [] \<Rightarrow> None
     | c # cs \<Rightarrow> if c = CHR ''0'' then Some ([c], cs) else lex_digits s)"

definition lex_frac :: "string \<Rightarrow> (string \<times> string) option" where
  "lex_frac s = (if has_prefix s ''.'' then prepend ''.'' (lex_digits (drop 1 s)) else Some ([], s))"

definition lex_exp :: "string \<Rightarrow> (string \<times> string) option" where
  "lex_exp s = (case s of
       [] \<Rightarrow> Some ([], [])
     | e # r \<Rightarrow>
         if e = CHR ''e'' \<or> e = CHR ''E'' then
           (if has_prefix r ''+'' \<or> has_prefix r ''-'' then prepend (e # take 1 r) (lex_digits (drop 1 r))
            else prepend [e] (lex_digits r))
         else Some ([], s))"

definition lex_unsigned :: "string \<Rightarrow> (string \<times> string) option" where
  "lex_unsigned s = (case lex_int_part s of
       None \<Rightarrow> None
     | Some (i, r) \<Rightarrow>
         (case lex_frac r of
            None \<Rightarrow> None
          | Some (f, r') \<Rightarrow> prepend (i @ f) (lex_exp r')))"

definition lex_number :: "string \<Rightarrow> (string \<times> string) option" where
  "lex_number s =
     (if has_prefix s ''-'' then prepend ''-'' (lex_unsigned (drop 1 s)) else lex_unsigned s)"

definition punct :: "char \<Rightarrow> token option" where
  "punct c =
     (if c = CHR 0x7B then Some TLBrace else if c = CHR 0x7D then Some TRBrace
      else if c = CHR 0x5B then Some TLBrack else if c = CHR 0x5D then Some TRBrack
      else if c = CHR '':'' then Some TColon else if c = CHR '','' then Some TComma else None)"

definition keyword_tok :: "string \<Rightarrow> (token \<times> string) option" where
  "keyword_tok s =
     (if has_prefix s ''true'' then Some (TTrue, drop 4 s)
      else if has_prefix s ''false'' then Some (TFalse, drop 5 s)
      else if has_prefix s ''null'' then Some (TNull, drop 4 s) else None)"

text \<open>The token a string starts with (its first byte is not white space).\<close>

definition lex_token :: "string \<Rightarrow> (token \<times> string) option" where
  "lex_token s = (case s of
       [] \<Rightarrow> None
     | c # cs \<Rightarrow>
         (case punct c of
            Some t \<Rightarrow> Some (t, cs)
          | None \<Rightarrow>
              if c = CHR 0x22 then map_option (\<lambda>(v, r). (TStr v, r)) (lex_string cs)
              else if c = CHR ''-'' \<or> is_digit c then
                map_option (\<lambda>(v, r). (TNum v, r)) (lex_number s)
              else keyword_tok s))"

definition is_json_space :: "char \<Rightarrow> bool" where
  "is_json_space c \<longleftrightarrow> c \<in> {CHR 0x20, CHR 0x09, CHR 0x0A, CHR 0x0D}"

text \<open>
  The loop spends one unit of fuel per byte at least, so as much fuel as bytes is enough
  (\<open>lex_all_enough\<close>).
\<close>

fun lex_all :: "nat \<Rightarrow> string \<Rightarrow> token list option" where
  "lex_all n [] = Some []"
| "lex_all 0 (c # cs) = None"
| "lex_all (Suc n) (c # cs) =
     (if is_json_space c then lex_all n cs
      else (case lex_token (c # cs) of
              None \<Rightarrow> None
            | Some (t, r) \<Rightarrow> map_option ((#) t) (lex_all n r)))"

definition lex_json :: "string \<Rightarrow> token list option" where
  "lex_json s = lex_all (length s) s"

lemma prepend_Some: "prepend p r = Some (v, s) \<longleftrightarrow> (\<exists>w. r = Some (w, s) \<and> v = p @ w)"
  by (auto simp: prepend_def)

lemma lex_string_step:
  assumes "lex_string (c # cs) = Some (v, r)"
  shows "r = cs \<or> (\<exists>u w. length u \<le> length cs \<and> lex_string u = Some (w, r))"
proof -
  let ?R = "\<lambda>u. \<exists>w. lex_string u = Some (w, r)"
  have "r = cs \<or> ?R cs \<or> (\<exists>e es. cs = e # es \<and> ?R es)
      \<or> (\<exists>e es n u. cs = e # es \<and> hex4 es = Some (n, u) \<and> ?R u)
      \<or> (\<exists>e es n u m u'. cs = e # es \<and> hex4 es = Some (n, u) \<and>
            surrogate_pair n u = Some (m, u') \<and> ?R u')
      \<or> (utf8_len (c # cs) \<noteq> 0 \<and> ?R (drop (utf8_len (c # cs)) (c # cs)))"
    using assms
    by (auto simp: lex_string.simps(2) [of c cs] prepend_Some Let_def
        split: if_splits list.splits option.splits)
  then show ?thesis
  proof (elim disjE exE conjE)
    fix w
    assume n: "utf8_len (c # cs) \<noteq> 0"
      and "lex_string (drop (utf8_len (c # cs)) (c # cs)) = Some (w, r)"
    moreover have "length (drop (utf8_len (c # cs)) (c # cs)) \<le> length cs"
      using n by simp
    ultimately show ?thesis by blast
  qed (force dest!: hex4_length surrogate_pair_length)+
qed

lemma lex_string_length: "lex_string s = Some (v, r) \<Longrightarrow> length r < length s"
proof (induction "length s" arbitrary: s v r rule: less_induct)
  case less
  then obtain c cs where s: "s = c # cs" by (cases s) auto
  consider "r = cs" | u w where "length u \<le> length cs" "lex_string u = Some (w, r)"
    using lex_string_step less.prems s by blast
  then show ?case
  proof cases
    case 2
    then have "length r < length u" using less.hyps [of u w r] s by simp
    with 2 s show ?thesis by simp
  qed (simp add: s)
qed

lemma lex_digits_length: "lex_digits s = Some (v, r) \<Longrightarrow> length r < length s"
proof -
  assume a: "lex_digits s = Some (v, r)"
  then have "takeWhile is_digit s \<noteq> []" and r: "r = dropWhile is_digit s"
    by (auto simp: lex_digits_def Let_def split: if_splits)
  moreover have "length (takeWhile is_digit s) + length r = length s"
    unfolding r by (metis length_append takeWhile_dropWhile_id)
  ultimately show ?thesis by (cases "takeWhile is_digit s") auto
qed

lemma lex_number_length: "lex_number s = Some (v, r) \<Longrightarrow> length r < length s"
proof -
  have i: "lex_int_part s = Some (v, r) \<Longrightarrow> length r < length s" for s v r
    by (auto simp: lex_int_part_def dest!: lex_digits_length split: list.splits if_splits)
  have f: "lex_frac s = Some (v, r) \<Longrightarrow> length r \<le> length s" for s v r
    by (auto simp: lex_frac_def prepend_Some dest!: lex_digits_length split: if_splits)
  have e: "lex_exp s = Some (v, r) \<Longrightarrow> length r \<le> length s" for s v r
    by (auto simp: lex_exp_def prepend_Some dest!: lex_digits_length split: list.splits if_splits)
  have u: "lex_unsigned s = Some (v, r) \<Longrightarrow> length r < length s" for s v r
    by (auto simp: lex_unsigned_def prepend_Some dest!: i f e split: option.splits)
  assume "lex_number s = Some (v, r)"
  then show ?thesis
    by (auto simp: lex_number_def prepend_Some dest!: u split: if_splits)
qed

lemma lex_token_length: "lex_token s = Some (t, r) \<Longrightarrow> length r < length s"
  by (auto simp: lex_token_def keyword_tok_def dest!: lex_string_length lex_number_length
      split: list.splits option.splits if_splits)

text \<open>Fuel beyond the length of the input never changes the result.\<close>

lemma lex_all_enough: "length s \<le> n \<Longrightarrow> lex_all n s = lex_all (length s) s"
proof (induction "length s" arbitrary: s n rule: less_induct)
  case less
  show ?case
  proof (cases s)
    case (Cons c cs)
    then obtain m where n: "n = Suc m" and m: "length cs \<le> m" using less.prems by (cases n) auto
    have eq: "lex_all m u = lex_all (length cs) u" if "length u \<le> length cs" for u
      using less.hyps [of u m] less.hyps [of u "length cs"] that m Cons by simp
    show ?thesis
    proof (cases "is_json_space c")
      case True
      then show ?thesis using eq [of cs] Cons n by simp
    next
      case False
      show ?thesis
      proof (cases "lex_token s")
        case (Some p)
        then obtain t r where p: "lex_token s = Some (t, r)" by (cases p) auto
        then have "length r \<le> length cs" using lex_token_length Cons by fastforce
        then show ?thesis using eq [of r] p False Cons n by simp
      qed (use False Cons n in simp)
    qed
  qed simp
qed

subsection \<open>Values\<close>

datatype json =
    JNull
  | JBool bool
  | JNum string
  | JStr string
  | JArr "json list"
  | JObj "(string \<times> json) list"

text \<open>
  The scanner's stack: an array with the elements read so far, or an object with the members
  read so far and the key whose value is being read (both newest first).
\<close>

datatype frame = FArr "json list" | FObj "(string \<times> json) list" string

datatype mode =
    MValue
  | MFirst
  | MKey "(string \<times> json) list" bool
  | MColon "(string \<times> json) list" string
  | MDone json

definition max_nesting :: nat where
  "max_nesting = 10000"

definition begin_value :: "frame list \<Rightarrow> token \<Rightarrow> (mode \<times> frame list) option" where
  "begin_value st t = (case t of
       TLBrace \<Rightarrow> if length st < max_nesting then Some (MKey [] True, st) else None
     | TLBrack \<Rightarrow> if length st < max_nesting then Some (MFirst, FArr [] # st) else None
     | TStr s \<Rightarrow> Some (MDone (JStr s), st)
     | TNum s \<Rightarrow> Some (MDone (JNum s), st)
     | TTrue \<Rightarrow> Some (MDone (JBool True), st)
     | TFalse \<Rightarrow> Some (MDone (JBool False), st)
     | TNull \<Rightarrow> Some (MDone JNull, st)
     | _ \<Rightarrow> None)"

fun after_value :: "json \<Rightarrow> frame list \<Rightarrow> token \<Rightarrow> (mode \<times> frame list) option" where
  "after_value v (FArr vs # st) TComma = Some (MValue, FArr (v # vs) # st)"
| "after_value v (FArr vs # st) TRBrack = Some (MDone (JArr (rev (v # vs))), st)"
| "after_value v (FObj ms k # st) TComma = Some (MKey ((k, v) # ms) False, st)"
| "after_value v (FObj ms k # st) TRBrace = Some (MDone (JObj (rev ((k, v) # ms))), st)"
| "after_value v _ _ = None"

fun parse_step :: "mode \<Rightarrow> frame list \<Rightarrow> token \<Rightarrow> (mode \<times> frame list) option" where
  "parse_step MValue st t = begin_value st t"
| "parse_step MFirst (FArr [] # st) TRBrack = Some (MDone (JArr []), st)"
| "parse_step MFirst st t = begin_value st t"
| "parse_step (MKey ms first) st (TStr k) = Some (MColon ms k, st)"
| "parse_step (MKey ms first) st TRBrace = (if first then Some (MDone (JObj (rev ms)), st) else None)"
| "parse_step (MKey ms first) st t = None"
| "parse_step (MColon ms k) st t = (if t = TColon then Some (MValue, FObj ms k # st) else None)"
| "parse_step (MDone v) st t = after_value v st t"

fun parse_tokens :: "mode \<Rightarrow> frame list \<Rightarrow> token list \<Rightarrow> json option" where
  "parse_tokens m st [] = (case (m, st) of (MDone v, []) \<Rightarrow> Some v | _ \<Rightarrow> None)"
| "parse_tokens m st (t # ts) =
     (case parse_step m st t of None \<Rightarrow> None | Some (m', st') \<Rightarrow> parse_tokens m' st' ts)"

definition json_parse :: "string \<Rightarrow> json option" where
  "json_parse s = (case lex_json s of None \<Rightarrow> None | Some ts \<Rightarrow> parse_tokens MValue [] ts)"

text \<open>The two ways \<^verbatim>\<open>json.Unmarshal\<close> fails: the text is no JSON, or a value has the wrong type.\<close>

datatype json_error = JSyntax | JType

lemma lex_token_quote:
  "lex_token (CHR 0x22 # json_escape s @ CHR 0x22 # rest) = Some (TStr (utf8_sanitize s), rest)"
  by (simp add: lex_token_def punct_def lex_json_escape)

lemma lex_all_Cons:
  assumes "\<not> is_json_space c" and "lex_token (c # cs) = Some (t, r)" and "length r \<le> length cs"
  shows "lex_all (length (c # cs)) (c # cs) = map_option ((#) t) (lex_all (length r) r)"
  using assms lex_all_enough [of r "length cs"] by simp

lemma lex_json_Cons:
  assumes "\<not> is_json_space c" and "lex_token (c # cs) = Some (t, r)"
  shows "lex_json (c # cs) = map_option ((#) t) (lex_json r)"
  using lex_all_Cons [OF assms] lex_token_length [OF assms(2)] by (simp add: lex_json_def)

lemma lex_json_Nil [simp]: "lex_json [] = Some []"
  by (simp add: lex_json_def)

lemma lex_json_punct:
  assumes "punct c = Some t"
  shows "lex_json (c # cs) = map_option ((#) t) (lex_json cs)"
proof (rule lex_json_Cons)
  show "\<not> is_json_space c"
    using assms by (auto simp: punct_def is_json_space_def)
qed (use assms in \<open>simp add: lex_token_def\<close>)

lemma lex_json_quote:
  "lex_json (json_quote s @ rest) = map_option ((#) (TStr (utf8_sanitize s))) (lex_json rest)"
  unfolding json_quote_def
  using lex_json_Cons [of "CHR 0x22" "json_escape s @ CHR 0x22 # rest"] lex_token_quote [of s rest]
  by (simp add: is_json_space_def)

end
