(* ===== verification/Ctl_Error.thy ===== *)
theory Ctl_Error
  imports Go_Json
begin

text \<open>
  The errors of the controller. Every \<^verbatim>\<open>fmt.Errorf\<close> of the modelled code is a constructor with
  the values it formats; \<open>error_text\<close> is the text \<^verbatim>\<open>Error()\<close> returns. \<open>Foreign\<close> is an error made
  outside the repository (Kubernetes client, BFE's own checks, the file system), with its text.
  A Go result of type \<^verbatim>\<open>error\<close> is an \<open>error option\<close> (\<open>None\<close> is \<^verbatim>\<open>nil\<close>).
\<close>

datatype error =
    Foreign string
  | Illegal_Balance json_error
  | Negative_Weight
  | Zero_Weight_Sum
  | Illegal_Cookie string
  | Illegal_Header string
  | Illegal_Host string
  | Path_Not_Set
  | Illegal_Path string
  | Rule_Conflict string string string string
  | Route_Table_Illegal error
  | Port_Not_In_Service string
  | Service_Not_Found string string
  | No_Endpoint string string
  | Service_Port_Not_Found string int string
  | Dump_Failed string error
  | Reload_Refused string
  | Illegal_Default_Backend string
  | Setup_Failed string

text \<open>
  The text of a JSON error is Go's own; it is the parameter \<open>jt\<close>.
\<close>

fun error_text :: "(json_error \<Rightarrow> string) \<Rightarrow> error \<Rightarrow> string" where
  "error_text jt (Foreign s) = s"
| "error_text jt (Illegal_Balance e) =
     ''annotation bfe.ingress.kubernetes.io/balance.weight is illegal, error: '' @ jt e"
| "error_text jt Negative_Weight = ''weight of load balance service should >= 0''"
| "error_text jt Zero_Weight_Sum = ''sum of all load balance service weight should > 0''"
| "error_text jt (Illegal_Cookie s) = ''cookie annotation['' @ s @ ''] is illegal''"
| "error_text jt (Illegal_Header s) = ''header annotation['' @ s @ ''] is illegal''"
| "error_text jt (Illegal_Host s) = ''wildcard host['' @ s @ ''] is illegal, should start with *. ''"
| "error_text jt Path_Not_Set = ''path is not set''"
| "error_text jt (Illegal_Path s) = ''path['' @ s @ ''] is illegal''"
| "error_text jt (Rule_Conflict i j h p) =
     ''ingress ['' @ i @ ''] conflict with existing '' @ j @ '', rule [host: '' @ h @ '', path: '' @ p @ '']''"
| "error_text jt (Route_Table_Illegal e) =
     ''fail to check generated routeTableFile, err: '' @ error_text jt e"
| "error_text jt (Port_Not_In_Service c) = ''cluster ['' @ c @ ''] error, port can not found in service''"
| "error_text jt (Service_Not_Found ns n) = ''fail to get service: '' @ ns @ ''/'' @ n"
| "error_text jt (No_Endpoint ns n) = ''not endpoint found for service, '' @ ns @ ''/'' @ n"
| "error_text jt (Service_Port_Not_Found n i p) =
     ''service['' @ n @ ''] port ['' @ show_int i @ '' '' @ p @ ''] not found''"
| "error_text jt (Dump_Failed what e) = what @ error_text jt e"
| "error_text jt (Reload_Refused why) = ''fail to reload: '' @ why"
| "error_text jt (Illegal_Default_Backend s) =
     ''invalid command line argument default-backend: '' @ s"
| "error_text jt (Setup_Failed s) = s"

end
