(* ===== verification/Annotations.thy ===== *)
theory Annotations
  imports Ctl_Error
begin

text \<open>
  The package \<^verbatim>\<open>internal/bfeConfig/annotations\<close>: annotation names, the priority and equality of
  two rules' conditions, the condition primitives of cookie and header annotations, the
  weights of \<^verbatim>\<open>balance.weight\<close> and the status annotation written back to an ingress.
\<close>

subsection \<open>Annotation maps\<close>

text \<open>A \<^verbatim>\<open>map[string]string\<close> that may be nil (\<open>None\<close>); reading a missing key gives the empty string.\<close>

type_synonym annots = "(string, string) gomap option"

definition ann_find :: "annots \<Rightarrow> string \<Rightarrow> string option" where
  "ann_find a k = (case a of None \<Rightarrow> None | Some m \<Rightarrow> mget m k)"

definition ann_get :: "annots \<Rightarrow> string \<Rightarrow> string" where
  "ann_get a k = (case ann_find a k of None \<Rightarrow> [] | Some v \<Rightarrow> v)"

lemma ann_find_nil [simp]: "ann_find None k = None"
  by (simp add: ann_find_def)

lemma ann_get_nil [simp]: "ann_get None k = []"
  by (simp add: ann_get_def)

definition BfeAnnotationPrefix :: string where
  "BfeAnnotationPrefix = ''bfe.ingress.kubernetes.io/''"

definition IngressClassKey :: string where
  "IngressClassKey = ''kubernetes.io/ingress.class''"

definition IsDefaultIngressClass :: string where
  "IsDefaultIngressClass = ''ingressclass.kubernetes.io/is-default-class''"

definition CookieAnnotation :: string where
  "CookieAnnotation = BfeAnnotationPrefix @ ''router.cookie''"

definition HeaderAnnotation :: string where
  "HeaderAnnotation = BfeAnnotationPrefix @ ''router.header''"

definition WeightAnnotation :: string where
  "WeightAnnotation = BfeAnnotationPrefix @ ''balance.weight''"

definition StatusAnnotationKey :: string where
  "StatusAnnotationKey = BfeAnnotationPrefix @ ''bfe-ingress-status''"

lemmas annotation_names = CookieAnnotation_def HeaderAnnotation_def WeightAnnotation_def
  StatusAnnotationKey_def BfeAnnotationPrefix_def IngressClassKey_def IsDefaultIngressClass_def

lemma annotation_names_distinct [simp]:
  "CookieAnnotation \<noteq> HeaderAnnotation" "HeaderAnnotation \<noteq> CookieAnnotation"
  by (simp_all add: annotation_names)

subsection \<open>Priority and equality of conditions\<close>

definition PriorityBasic :: int where
  "PriorityBasic = 10"

definition PriorityHeader :: int where
  "PriorityHeader = 20"

definition PriorityCookie :: int where
  "PriorityCookie = 30"

definition PriorityCookieHeader :: int where
  "PriorityCookieHeader = 40"

lemmas priority_levels = PriorityBasic_def PriorityHeader_def PriorityCookie_def
  PriorityCookieHeader_def

definition Priority :: "annots \<Rightarrow> int" where
  "Priority a =
     (let ok1 = ann_find a CookieAnnotation \<noteq> None; ok2 = ann_find a HeaderAnnotation \<noteq> None
      in if ok1 \<and> ok2 then PriorityCookieHeader
         else if ok1 then PriorityCookie
         else if ok2 then PriorityHeader
         else PriorityBasic)"

definition annots_equal :: "annots \<Rightarrow> annots \<Rightarrow> bool" where
  "annots_equal a b =
     (if a = None \<and> b = None then True
      else ann_get a CookieAnnotation = ann_get b CookieAnnotation \<and>
           ann_get a HeaderAnnotation = ann_get b HeaderAnnotation)"

text \<open>The condition of a rule: what its two router annotations say.\<close>

definition cond_of :: "annots \<Rightarrow> string \<times> string" where
  "cond_of a = (ann_get a CookieAnnotation, ann_get a HeaderAnnotation)"

lemma annots_equal_iff: "annots_equal a b \<longleftrightarrow> cond_of a = cond_of b"
  by (auto simp: annots_equal_def cond_of_def)

subsection \<open>Condition primitives\<close>

text \<open>\<^verbatim>\<open>cookiePrimitive\<close> and \<^verbatim>\<open>headerPrimitive\<close>: the name and value around the first colon.\<close>

definition quoted :: "string \<Rightarrow> string" where
  "quoted s = [CHR 0x22] @ s @ [CHR 0x22]"

definition cookiePrimitive :: "string \<Rightarrow> error + string" where
  "cookiePrimitive cookie =
     (if length cookie = 0 then Inr []
      else case index_of (CHR '':'') cookie of
             None \<Rightarrow> Inl (Illegal_Cookie cookie)
           | Some i \<Rightarrow>
               if i = length cookie - 1 then Inl (Illegal_Cookie cookie)
               else Inr (''req_cookie_value_in('' @ quoted (trim_space (take i cookie)) @ '', '' @
                         quoted (trim_space (drop (i + 1) cookie)) @ '', false)''))"

definition headerPrimitive :: "string \<Rightarrow> error + string" where
  "headerPrimitive header =
     (if length header = 0 then Inr []
      else case index_of (CHR '':'') header of
             None \<Rightarrow> Inl (Illegal_Header header)
           | Some i \<Rightarrow>
               if i = length header - 1 then Inl (Illegal_Header header)
               else Inr (''req_header_value_in('' @ quoted (trim_space (take i header)) @ '', '' @
                         quoted (trim_space (drop (i + 1) header)) @ '', false)''))"

definition GetRouteExpression :: "annots \<Rightarrow> error + string" where
  "GetRouteExpression a =
     (case cookiePrimitive (ann_get a CookieAnnotation) of
        Inl e \<Rightarrow> Inl e
      | Inr p1 \<Rightarrow>
          (case headerPrimitive (ann_get a HeaderAnnotation) of
             Inl e \<Rightarrow> Inl e
           | Inr p2 \<Rightarrow>
               if length p1 > 0 \<and> length p2 > 0 then Inr (p1 @ ''&&'' @ p2)
               else if length p1 > 0 then Inr p1
               else if length p2 > 0 then Inr p2
               else Inr []))"

text \<open>An annotation value is well formed: empty, or with a colon that is not its last byte.\<close>

definition pair_ok :: "string \<Rightarrow> bool" where
  "pair_ok s \<longleftrightarrow> s = [] \<or> (\<exists>a b. s = a @ CHR '':'' # b \<and> CHR '':'' \<notin> set a \<and> b \<noteq> [])"

lemma index_pair:
  "s \<noteq> [] \<Longrightarrow> (case index_of (CHR '':'') s of None \<Rightarrow> True | Some i \<Rightarrow> i = length s - 1) \<longleftrightarrow> \<not> pair_ok s"
proof (cases "index_of (CHR '':'') s")
  case None
  then have "CHR '':'' \<notin> set s" by (simp add: index_of_None)
  then show "s \<noteq> [] \<Longrightarrow> ?thesis" using None by (auto simp: pair_ok_def)
next
  case (Some i)
  then have i: "i < length s" "s ! i = CHR '':''" "CHR '':'' \<notin> set (take i s)"
    by (auto simp: index_of_Some)
  then have s: "s = take i s @ CHR '':'' # drop (Suc i) s"
    by (metis id_take_nth_drop)
  have "pair_ok s \<longleftrightarrow> drop (Suc i) s \<noteq> []"
  proof
    assume "pair_ok s"
    then obtain a b where ab: "s = a @ CHR '':'' # b" "CHR '':'' \<notin> set a" "b \<noteq> []"
      using i(1) by (auto simp: pair_ok_def)
    then have "i = length a" using Some index_of_append by fastforce
    with ab show "drop (Suc i) s \<noteq> []" by simp
  next
    assume "drop (Suc i) s \<noteq> []"
    with s i(3) show "pair_ok s" unfolding pair_ok_def by blast
  qed
  with Some i(1) show "s \<noteq> [] \<Longrightarrow> ?thesis" by auto
qed

lemma cookiePrimitive_error: "(\<exists>e. cookiePrimitive s = Inl e) \<longleftrightarrow> \<not> pair_ok s"
  using index_pair [of s]
  by (cases "s = []") (auto simp: cookiePrimitive_def pair_ok_def split: option.splits if_splits)

lemma headerPrimitive_error: "(\<exists>e. headerPrimitive s = Inl e) \<longleftrightarrow> \<not> pair_ok s"
  using index_pair [of s]
  by (cases "s = []") (auto simp: headerPrimitive_def pair_ok_def split: option.splits if_splits)

lemma primitive_empty:
  "cookiePrimitive s = Inr [] \<longleftrightarrow> s = []" "headerPrimitive s = Inr [] \<longleftrightarrow> s = []"
  by (auto simp: cookiePrimitive_def headerPrimitive_def split: option.splits)

subsection \<open>Weights (balance.weight)\<close>

text \<open>
  \<open>order\<close> holds the schedules of a nested loop over maps: the outer loop's, and the inner
  loop's for each outer key.
\<close>

record order =
  ord_top :: schedule
  ord_key :: "string \<Rightarrow> schedule"

definition any_order :: order where
  "any_order = \<lparr>ord_top = [], ord_key = (\<lambda>_. [])\<rparr>"

type_synonym ServicesWeight = "(string, int) gomap"
type_synonym Balance = "(string, ServicesWeight) gomap"

text \<open>\<^verbatim>\<open>json.Unmarshal\<close> into the type \<open>Balance\<close>: \<^verbatim>\<open>null\<close> is the zero value, later keys win.\<close>

definition unmarshal_weight :: "json \<Rightarrow> int option" where
  "unmarshal_weight j = (case j of JNull \<Rightarrow> Some 0 | JNum l \<Rightarrow> atoi l | _ \<Rightarrow> None)"

fun unmarshal_entries ::
  "(json \<Rightarrow> 'v option) \<Rightarrow> (string \<times> json) list \<Rightarrow> (string, 'v) gomap \<Rightarrow> (string, 'v) gomap option" where
  "unmarshal_entries f [] m = Some m"
| "unmarshal_entries f ((k, j) # ms) m =
     (case f j of None \<Rightarrow> None | Some v \<Rightarrow> unmarshal_entries f ms (mput k v m))"

definition unmarshal_services :: "json \<Rightarrow> ServicesWeight option" where
  "unmarshal_services j =
     (case j of JNull \<Rightarrow> Some [] | JObj ms \<Rightarrow> unmarshal_entries unmarshal_weight ms [] | _ \<Rightarrow> None)"

definition unmarshal_balance :: "string \<Rightarrow> json_error + Balance option" where
  "unmarshal_balance s =
     (case json_parse s of
        None \<Rightarrow> Inl JSyntax
      | Some JNull \<Rightarrow> Inr None
      | Some (JObj ms) \<Rightarrow>
          (case unmarshal_entries unmarshal_services ms [] of
             None \<Rightarrow> Inl JType | Some lb \<Rightarrow> Inr (Some lb))
      | Some _ \<Rightarrow> Inl JType)"

fun sum_weights :: "int \<Rightarrow> (string \<times> int) list \<Rightarrow> error + int" where
  "sum_weights acc [] = Inr acc"
| "sum_weights acc ((name, weight) # ws) =
     (if weight < 0 then Inl Negative_Weight else sum_weights (int64 (acc + weight)) ws)"

fun check_services :: "order \<Rightarrow> (string \<times> ServicesWeight) list \<Rightarrow> error option" where
  "check_services w [] = None"
| "check_services w ((service, weights) # rest) =
     (case sum_weights 0 (shuffle (ord_key w service) weights) of
        Inl e \<Rightarrow> Some e
      | Inr s \<Rightarrow> if s = 0 then Some Zero_Weight_Sum else check_services w rest)"

definition GetBalance :: "order \<Rightarrow> annots \<Rightarrow> error + Balance option" where
  "GetBalance w a =
     (case ann_find a WeightAnnotation of
        None \<Rightarrow> Inr None
      | Some value \<Rightarrow>
          (case unmarshal_balance value of
             Inl e \<Rightarrow> Inl (Illegal_Balance e)
           | Inr None \<Rightarrow> Inr None
           | Inr (Some lb) \<Rightarrow>
               (case check_services w (shuffle (ord_top w) lb) of
                  Some e \<Rightarrow> Inl e
                | None \<Rightarrow> Inr (Some lb))))"

text \<open>Reading a possibly nil balance: \<^verbatim>\<open>weights, ok := balance[name]\<close>.\<close>

definition bal_find :: "Balance option \<Rightarrow> string \<Rightarrow> ServicesWeight option" where
  "bal_find b name = (case b of None \<Rightarrow> None | Some m \<Rightarrow> mget m name)"

lemma sum_weights_eq:
  "sum_weights s ws =
     (if \<exists>x \<in> set ws. snd x < 0 then Inl Negative_Weight
      else Inr (if ws = [] then s else int64 (s + sum_list (map snd ws))))"
proof (induction s ws rule: sum_weights.induct)
  case (2 s n x ws)
  then show ?case by (auto simp: int64_add_left add.assoc)
qed simp

text \<open>The verdict on one service: no negative weight, and a sum that is not 0 in 64 bits.\<close>

definition service_ok :: "ServicesWeight \<Rightarrow> bool" where
  "service_ok ws \<longleftrightarrow> (\<forall>x \<in> set ws. 0 \<le> snd x) \<and> int64 (sum_list (map snd ws)) \<noteq> 0"

lemma sum_list_shuffle: "sum_list (map f (shuffle s xs)) = sum_list (map f (xs :: 'a list) :: int list)"
  by (metis mset_map mset_shuffle sum_mset_sum_list)

lemma sum_weights_service_ok:
  "(\<exists>s. sum_weights 0 (shuffle o1 ws) = Inr s \<and> s \<noteq> 0) \<longleftrightarrow> service_ok ws"
proof (cases "ws = []")
  case False
  have "(\<exists>x \<in> set ws. snd x < 0) \<longleftrightarrow> \<not> (\<forall>x \<in> set ws. 0 \<le> snd x)" by (simp add: not_le)
  with False show ?thesis
    by (simp add: sum_weights_eq service_ok_def sum_list_shuffle)
qed (simp add: service_ok_def int64_def wrap_int_def)

lemma check_services_None:
  "check_services w xs = None \<longleftrightarrow> (\<forall>x \<in> set xs. service_ok (snd x))"
proof (induction w xs rule: check_services.induct)
  case (2 w service weights rest)
  show ?case
  proof (cases "sum_weights 0 (shuffle (ord_key w service) weights)")
    case (Inl e)
    then have "\<not> service_ok weights"
      using sum_weights_service_ok [of "ord_key w service" weights] by simp
    with Inl show ?thesis by simp
  next
    case (Inr s)
    then have "service_ok weights \<longleftrightarrow> s \<noteq> 0"
      using sum_weights_service_ok [of "ord_key w service" weights] by simp
    with Inr 2 show ?thesis by simp
  qed
qed simp

lemma GetBalance_Some_iff:
  "GetBalance w a = Inr (Some lb) \<longleftrightarrow>
     (\<exists>v. ann_find a WeightAnnotation = Some v \<and> unmarshal_balance v = Inr (Some lb) \<and>
        (\<forall>x \<in> set lb. service_ok (snd x)))"
proof -
  have c: "(\<forall>x \<in> set lb. service_ok (snd x)) \<longleftrightarrow> check_services w (shuffle (ord_top w) lb) = None"
    by (simp add: check_services_None)
  show ?thesis
    unfolding c by (auto simp: GetBalance_def split: option.splits sum.splits)
qed

subsection \<open>Status annotation\<close>

record statusMsg =
  st_status :: string
  st_message :: string

text \<open>\<^verbatim>\<open>json.Marshal\<close> of \<open>statusMsg\<close>: the message is omitted when it is empty.\<close>

definition marshal_status :: "statusMsg \<Rightarrow> string" where
  "marshal_status s =
     [CHR 0x7B] @ json_quote ''status'' @ '':'' @ json_quote (st_status s) @
     (if st_message s = [] then [] else '','' @ json_quote ''message'' @ '':'' @ json_quote (st_message s)) @
     [CHR 0x7D]"

text \<open>
  Matching a key of the text against a field name: exact, or else equal up to case, where the
  long s U+017F counts as an s (no field name has a k).
\<close>

fun fold_match :: "string \<Rightarrow> string \<Rightarrow> bool" where
  "fold_match [] key = (key = [])"
| "fold_match (c # cs) [] = False"
| "fold_match (c # cs) (t # ts) =
     (if byte t < 0x80 then ascii_lower t = ascii_lower c \<and> fold_match cs ts
      else c = CHR ''s'' \<and> has_prefix (t # ts) [CHR 0xC5, CHR 0xBF] \<and> fold_match cs (drop 1 ts))"

definition field_of :: "string \<Rightarrow> string option" where
  "field_of key =
     (if key = ''status'' then Some ''status''
      else if key = ''message'' then Some ''message''
      else if fold_match ''status'' key then Some ''status''
      else if fold_match ''message'' key then Some ''message''
      else None)"

definition set_field :: "string \<Rightarrow> string \<Rightarrow> statusMsg \<Rightarrow> statusMsg" where
  "set_field f v s = (if f = ''status'' then s\<lparr>st_status := v\<rparr> else s\<lparr>st_message := v\<rparr>)"

fun unmarshal_members :: "(string \<times> json) list \<Rightarrow> statusMsg \<Rightarrow> statusMsg option" where
  "unmarshal_members [] s = Some s"
| "unmarshal_members ((k, j) # ms) s =
     (case field_of k of
        None \<Rightarrow> unmarshal_members ms s
      | Some f \<Rightarrow>
          (case j of
             JStr v \<Rightarrow> unmarshal_members ms (set_field f v s)
           | JNull \<Rightarrow> unmarshal_members ms s
           | _ \<Rightarrow> None))"

definition unmarshal_status :: "string \<Rightarrow> json_error + statusMsg" where
  "unmarshal_status t =
     (let zero = \<lparr>st_status = [], st_message = []\<rparr>
      in case json_parse t of
           None \<Rightarrow> Inl JSyntax
         | Some JNull \<Rightarrow> Inr zero
         | Some (JObj ms) \<Rightarrow>
             (case unmarshal_members ms zero of None \<Rightarrow> Inl JType | Some s \<Rightarrow> Inr s)
         | Some _ \<Rightarrow> Inl JType)"

text \<open>The error is given by the text of its \<^verbatim>\<open>Error()\<close>; \<open>None\<close> is nil.\<close>

definition GenErrorMsg :: "string option \<Rightarrow> string" where
  "GenErrorMsg err =
     marshal_status
       (case err of
          None \<Rightarrow> \<lparr>st_status = ''success'', st_message = []\<rparr>
        | Some m \<Rightarrow> \<lparr>st_status = ''error'', st_message = m\<rparr>)"

definition CompareStatus :: "string option \<Rightarrow> string \<Rightarrow> int" where
  "CompareStatus e status =
     (if length status = 0 then 1
      else case unmarshal_status status of
             Inl _ \<Rightarrow> 1
           | Inr s \<Rightarrow>
               if e = None \<and> st_status s = ''success'' then 0
               else (case e of
                       Some m \<Rightarrow> if st_status s = ''error'' \<and> st_message s = m then 0 else 1
                     | None \<Rightarrow> 1))"

lemma sanitize_ascii: "\<forall>c \<in> set s. byte c < 0x80 \<Longrightarrow> utf8_sanitize s = s"
  by (simp add: utf8_sanitize_valid valid_utf8_ascii)

lemma punct_simps:
  "punct (CHR 0x7B) = Some TLBrace" "punct (CHR 0x7D) = Some TRBrace"
  "punct (CHR '':'') = Some TColon" "punct (CHR '','') = Some TComma"
  by (simp_all add: punct_def)

lemma unmarshal_marshal_status:
  "unmarshal_status (marshal_status s) =
     Inr \<lparr>st_status = utf8_sanitize (st_status s), st_message = utf8_sanitize (st_message s)\<rparr>"
proof -
  note lex = lex_json_quote lex_json_punct [OF punct_simps(1)] lex_json_punct [OF punct_simps(2)]
    lex_json_punct [OF punct_simps(3)] lex_json_punct [OF punct_simps(4)]
  have names: "utf8_sanitize ''status'' = ''status''" "utf8_sanitize ''message'' = ''message''"
    by (simp_all add: sanitize_ascii)
  have end_brace: "lex_json [CHR 0x7D] = Some [TRBrace]" using lex(3) [of "[]"] by simp
  have nil: "utf8_sanitize [] = []" by (simp add: utf8_sanitize_def)
  show ?thesis
    by (simp add: unmarshal_status_def marshal_status_def json_parse_def lex names end_brace nil
        begin_value_def max_nesting_def field_of_def set_field_def)
qed

end
