(* ===== verification/Kube_Types.thy ===== *)
theory Kube_Types
  imports Annotations
begin

text \<open>
  The Kubernetes API objects the controller reads, with the fields it uses. A Go pointer that
  may be nil is an option. The types come from \<^verbatim>\<open>k8s.io/api\<close>; here they are plain data.
\<close>

subsection \<open>Ports and backends\<close>

record service_backend_port =
  bp_name :: string
  bp_number :: int

record ingress_service_backend =
  sb_name :: string
  sb_port :: service_backend_port

text \<open>\<^verbatim>\<open>IngressBackend\<close>: the service is nil when the backend is a resource.\<close>

record ingress_backend =
  ib_service :: "ingress_service_backend option"

datatype ios_type = IosInt | IosString

record int_or_string =
  ios_type :: ios_type
  ios_int :: int
  ios_str :: string

definition zero_ios :: int_or_string where
  "zero_ios = \<lparr>ios_type = IosInt, ios_int = 0, ios_str = []\<rparr>"

definition zero_port :: service_backend_port where
  "zero_port = \<lparr>bp_name = [], bp_number = 0\<rparr>"

subsection \<open>Ingress (networking/v1)\<close>

record http_ingress_path =
  hp_path :: string
  hp_type :: "string option"
  hp_backend :: ingress_backend

definition PathTypePrefix :: string where
  "PathTypePrefix = ''Prefix''"

definition PathTypeImplementationSpecific :: string where
  "PathTypeImplementationSpecific = ''ImplementationSpecific''"

record ingress_rule =
  ir_host :: string
  ir_http :: "http_ingress_path list option"

record ingress_tls =
  tls_hosts :: "string list"
  tls_secret :: string

record ingress =
  ing_kind :: string
  ing_version :: string
  ing_namespace :: string
  ing_name :: string
  ing_resource_version :: string
  ing_annots :: annots
  ing_created :: int
  ing_class :: "string option"
  ing_default :: "ingress_backend option"
  ing_tls :: "ingress_tls list"
  ing_rules :: "ingress_rule list"

subsection \<open>Services, endpoints, secrets, ingress classes\<close>

record service_port =
  sp_name :: string
  sp_port :: int
  sp_target :: int_or_string

record service =
  svc_namespace :: string
  svc_name :: string
  svc_ports :: "service_port list"

record endpoint_port =
  ep_name :: string
  ep_port :: int

record endpoint_subset =
  es_addresses :: "string list"
  es_ports :: "endpoint_port list"

record endpoints =
  ep_subsets :: "endpoint_subset list"

record secret =
  sec_namespace :: string
  sec_name :: string
  sec_data :: "(string, string) gomap"

record ingress_class =
  ic_name :: string
  ic_controller :: string
  ic_annots :: annots

end
