(* ===== verification/Util_Name.thy ===== *)
theory Util_Name
  imports Kube_Types
begin

text \<open>
  \<^verbatim>\<open>internal/bfeConfig/util/name.go\<close>: the names the controller derives, and reads back, for
  Kubernetes objects and BFE clusters. A result in \<^typ>\<open>'a option\<close> is \<open>None\<close> when the Go code
  panics.
\<close>

definition NamespacedName :: "string \<Rightarrow> string \<Rightarrow> string" where
  "NamespacedName namespace name = namespace @ ''/'' @ name"

definition SplitNamespacedName :: "string \<Rightarrow> string \<times> string" where
  "SplitNamespacedName namespacedName =
     (case split_on (CHR ''/'') namespacedName of
        [namespace, name] \<Rightarrow> (namespace, name)
      | _ \<Rightarrow> ([], []))"

text \<open>The backend is a pointer; its fields are read without a nil check.\<close>

definition ClusterName :: "string \<Rightarrow> ingress_service_backend option \<Rightarrow> string option" where
  "ClusterName ingressName backend =
     (case backend of
        None \<Rightarrow> None
      | Some b \<Rightarrow>
          (let port = (if bp_number (sb_port b) > 0 then show_int (bp_number (sb_port b))
                       else bp_name (sb_port b))
           in Some (ingressName @ ''_'' @ sb_name b @ ''_'' @ port)))"

text \<open>The argument is the option \<^verbatim>\<open>DefaultBackend\<close>.\<close>

definition DefaultClusterName :: "string \<Rightarrow> string" where
  "DefaultClusterName defaultBackend = ''__defaultCluster__'' @ ''_'' @ defaultBackend @ ''_'' @ ''0''"

definition ParsePort :: "string \<Rightarrow> service_backend_port" where
  "ParsePort clusterName =
     (case last_index_of (CHR ''_'') clusterName of
        None \<Rightarrow> zero_port
      | Some index \<Rightarrow>
          (let portStr = drop (index + 1) clusterName
           in case atoi portStr of
                Some i \<Rightarrow> zero_port\<lparr>bp_number := int32 i\<rparr>
              | None \<Rightarrow> zero_port\<lparr>bp_name := portStr\<rparr>))"

lemma NamespacedName_inj:
  assumes "CHR ''/'' \<notin> set ns" and "CHR ''/'' \<notin> set ns'"
    and "NamespacedName ns n = NamespacedName ns' n'"
  shows "ns = ns' \<and> n = n'"
proof -
  have "index_of (CHR ''/'') (ns @ CHR ''/'' # n) = index_of (CHR ''/'') (ns' @ CHR ''/'' # n')"
    using assms(3) by (simp add: NamespacedName_def)
  then have "length ns = length ns'" using assms(1,2) by (simp add: index_of_append)
  with assms(3) show ?thesis by (simp add: NamespacedName_def)
qed

lemma NamespacedName_same_ns [simp]: "NamespacedName ns n = NamespacedName ns n' \<longleftrightarrow> n = n'"
  by (simp add: NamespacedName_def)

lemma ParsePort_suffix:
  assumes "CHR ''_'' \<notin> set p"
  shows "ParsePort (a @ ''_'' @ p) =
    (case atoi p of Some i \<Rightarrow> zero_port\<lparr>bp_number := int32 i\<rparr> | None \<Rightarrow> zero_port\<lparr>bp_name := p\<rparr>)"
  using last_index_of_append [OF assms, of a] by (simp add: ParsePort_def Let_def)

subsection \<open>Properties\<close>

text \<open>
  Splitting a namespaced name gives back the namespace and the name, when neither holds a
  slash (as Kubernetes requires).
\<close>

lemma split_namespaced_name:
  assumes "CHR ''/'' \<notin> set ns" and "CHR ''/'' \<notin> set n"
  shows "SplitNamespacedName (NamespacedName ns n) = (ns, n)"
  using split_on_two [OF assms] by (simp add: SplitNamespacedName_def NamespacedName_def)

text \<open>
  C34: the port read back from a cluster name is the port of the backend the name was made for:
  its number when it has one, else its name, provided a name is not itself a number and holds
  no underscore.
\<close>

theorem parse_port_of_cluster_name:
  assumes "ClusterName i (Some b) = Some c"
    and "bp_number (sb_port b) < 2 ^ 31"
    and "0 < bp_number (sb_port b) \<or>
         CHR ''_'' \<notin> set (bp_name (sb_port b)) \<and> atoi (bp_name (sb_port b)) = None"
  shows "ParsePort c =
    (if 0 < bp_number (sb_port b) then \<lparr>bp_name = [], bp_number = bp_number (sb_port b)\<rparr>
     else \<lparr>bp_name = bp_name (sb_port b), bp_number = 0\<rparr>)"
proof (cases "0 < bp_number (sb_port b)")
  case True
  let ?n = "bp_number (sb_port b)"
  have c: "c = (i @ ''_'' @ sb_name b) @ ''_'' @ show_nat (nat ?n)"
    using assms(1) True by (simp add: ClusterName_def show_int_def)
  have "atoi (show_nat (nat ?n)) = Some ?n"
    using assms(2) True atoi_show_nat [of "nat ?n"] by simp
  then have "ParsePort c = zero_port\<lparr>bp_number := int32 ?n\<rparr>"
    unfolding c ParsePort_suffix [OF show_nat_no_underscore] by simp
  then show ?thesis using True assms(2) int32_id [of ?n] by (simp add: zero_port_def)
next
  case False
  have c: "c = (i @ ''_'' @ sb_name b) @ ''_'' @ bp_name (sb_port b)"
    using assms(1) False by (simp add: ClusterName_def)
  show ?thesis
    using False assms(3) unfolding c by (subst ParsePort_suffix) (auto simp: zero_port_def)
qed

theorem parse_port_of_cluster_name_witness:
  "ParsePort ''d/i_s_80'' = \<lparr>bp_name = [], bp_number = 80\<rparr>"
proof -
  have "ClusterName ''d/i'' (Some \<lparr>sb_name = ''s'', sb_port = \<lparr>bp_name = ''http'', bp_number = 80\<rparr>\<rparr>) = Some ''d/i_s_80''"
    by code_simp
  from parse_port_of_cluster_name [OF this] show ?thesis by simp
qed

end
