(* ===== verification/Multimap.thy ===== *)
theory Multimap
  imports Go_Prelude
begin

text \<open>
  The package \<^verbatim>\<open>github.com/jwangsadinata/go-multimap/setmultimap\<close> is not part of the
  repository: the code uses its multimaps through the operations below, which are a parameter
  of the model. The locale \<open>multimap\<close> states what the package documents (a multimap whose
  values form a set: a pair is in it at most once) in terms of the set of pairs \<open>R m\<close> a
  multimap \<open>m\<close> holds. \<open>list_multimap\<close> is a multimap that satisfies it.
\<close>

record ('m, 'v) multimap_ops =
  mm_new :: 'm
  mm_put :: "'m \<Rightarrow> string \<Rightarrow> 'v \<Rightarrow> 'm"
  mm_remove :: "'m \<Rightarrow> string \<Rightarrow> 'v \<Rightarrow> 'm"
  mm_remove_all :: "'m \<Rightarrow> string \<Rightarrow> 'm"
  mm_get :: "'m \<Rightarrow> string \<Rightarrow> 'v list \<times> bool"
  mm_contains_key :: "'m \<Rightarrow> string \<Rightarrow> bool"
  mm_contains_value :: "'m \<Rightarrow> 'v \<Rightarrow> bool"
  mm_values :: "'m \<Rightarrow> 'v list"
  mm_empty :: "'m \<Rightarrow> bool"

locale multimap =
  fixes M :: "('m, 'v) multimap_ops"
    and R :: "'m \<Rightarrow> (string \<times> 'v) set"
  assumes new_pairs: "R (mm_new M) = {}"
    and put_pairs: "R (mm_put M m k v) = insert (k, v) (R m)"
    and remove_pairs: "R (mm_remove M m k v) = R m - {(k, v)}"
    and remove_all_pairs: "R (mm_remove_all M m k) = {p \<in> R m. fst p \<noteq> k}"
    and get_values: "set (fst (mm_get M m k)) = {v. (k, v) \<in> R m}"
    and get_found: "snd (mm_get M m k) \<longleftrightarrow> (\<exists>v. (k, v) \<in> R m)"
    and contains_key: "mm_contains_key M m k \<longleftrightarrow> (\<exists>v. (k, v) \<in> R m)"
    and contains_value: "mm_contains_value M m v \<longleftrightarrow> (\<exists>k. (k, v) \<in> R m)"
    and values_set: "set (mm_values M m) = snd ` R m"
    and empty_iff: "mm_empty M m \<longleftrightarrow> R m = {}"
begin

lemmas multimap_pairs = new_pairs put_pairs remove_pairs remove_all_pairs

lemmas multimap_queries = get_values get_found contains_key contains_value values_set empty_iff

lemma key_after_remove_all: "\<not> mm_contains_key M (mm_remove_all M m k) k"
  by (simp add: contains_key remove_all_pairs)

end

subsection \<open>A list of pairs\<close>

definition list_multimap :: "((string \<times> 'v) list, 'v) multimap_ops" where
  "list_multimap = \<lparr>
     mm_new = [],
     mm_put = (\<lambda>m k v. if (k, v) \<in> set m then m else m @ [(k, v)]),
     mm_remove = (\<lambda>m k v. filter (\<lambda>p. p \<noteq> (k, v)) m),
     mm_remove_all = (\<lambda>m k. filter (\<lambda>p. fst p \<noteq> k) m),
     mm_get = (\<lambda>m k. let vs = map snd (filter (\<lambda>p. fst p = k) m) in (vs, vs \<noteq> [])),
     mm_contains_key = (\<lambda>m k. list_ex (\<lambda>p. fst p = k) m),
     mm_contains_value = (\<lambda>m v. list_ex (\<lambda>p. snd p = v) m),
     mm_values = map snd,
     mm_empty = (\<lambda>m. m = [])\<rparr>"

interpretation lmm: multimap list_multimap set
proof unfold_locales
  fix m :: "(string \<times> 'v) list" and k :: string
  have vs: "set (fst (mm_get list_multimap m k)) = snd ` {p \<in> set m. fst p = k}"
    by (simp add: list_multimap_def Let_def)
  then show "set (fst (mm_get list_multimap m k)) = {v. (k, v) \<in> set m}"
    by force
  show "snd (mm_get list_multimap m k) \<longleftrightarrow> (\<exists>v. (k, v) \<in> set m)"
    by (force simp: list_multimap_def Let_def filter_empty_conv)
qed (force simp: list_multimap_def list_ex_iff)+

end
