(* ===== verification/Route_Rule_Cache.thy ===== *)
theory Route_Rule_Cache
  imports Util_Name Multimap
begin

text \<open>
  \<^verbatim>\<open>internal/bfeConfig/configs/routeRuleCache.go\<close>: the cache of HTTP rules, keyed by host and
  path, with the multimap from ingress names to rules.

  Rules are heap objects that are never changed after \<^verbatim>\<open>NewHttpRule\<close>; \<open>r_addr\<close> is the address,
  so two records are equal when the pointers are. Times are instants (nanoseconds).
\<close>

subsection \<open>State and operations\<close>

record http_rule =
  r_addr :: nat
  r_ingress :: string
  r_host :: string
  r_path :: string
  r_annots :: annots
  r_cluster :: string
  r_time :: int

type_synonym rule_map = "(string, (string, http_rule list) gomap) gomap"

record 'm route_cache =
  ingress2Rule :: 'm
  ruleMap :: rule_map

definition NewRouteRuleCache :: "('m, http_rule) multimap_ops \<Rightarrow> 'm route_cache" where
  "NewRouteRuleCache M = \<lparr>ingress2Rule = mm_new M, ruleMap = []\<rparr>"

definition NewHttpRule ::
  "nat \<Rightarrow> string \<Rightarrow> string \<Rightarrow> string \<Rightarrow> annots \<Rightarrow> string \<Rightarrow> int \<Rightarrow> http_rule" where
  "NewHttpRule addr ingress host path annots cluster time =
     \<lparr>r_addr = addr, r_ingress = ingress, r_host = host, r_path = path, r_annots = annots,
      r_cluster = cluster, r_time = time\<rparr>"

text \<open>\<^verbatim>\<open>rules, ok := c.ruleMap[host][path]\<close>: reading a nil inner map finds nothing.\<close>

definition rules_find :: "rule_map \<Rightarrow> string \<Rightarrow> string \<Rightarrow> http_rule list option" where
  "rules_find m host path = (case mget m host of None \<Rightarrow> None | Some paths \<Rightarrow> mget paths path)"

definition rules_at :: "rule_map \<Rightarrow> string \<Rightarrow> string \<Rightarrow> http_rule list" where
  "rules_at m host path = (case rules_find m host path of None \<Rightarrow> [] | Some rs \<Rightarrow> rs)"

text \<open>\<^verbatim>\<open>c.ruleMap[host][path] = rules\<close>, for a host that has an inner map.\<close>

definition rules_store :: "string \<Rightarrow> string \<Rightarrow> http_rule list \<Rightarrow> rule_map \<Rightarrow> rule_map" where
  "rules_store host path rules m =
     mput host (mput path rules (mget_or [] m host)) m"

text \<open>The loop of \<^verbatim>\<open>put\<close>: the first rule with the same conditions, and its index.\<close>

fun find_same :: "annots \<Rightarrow> nat \<Rightarrow> http_rule list \<Rightarrow> (nat \<times> http_rule) option" where
  "find_same a i [] = None"
| "find_same a i (r # rs) =
     (if annots_equal a (r_annots r) then Some (i, r) else find_same a (Suc i) rs)"

definition put_rule ::
  "('m, http_rule) multimap_ops \<Rightarrow> http_rule \<Rightarrow> 'm route_cache \<Rightarrow> error option \<times> 'm route_cache" where
  "put_rule M rule c =
     (let host = r_host rule; path = r_path rule;
          m = (if mget (ruleMap c) host = None then mput host [] (ruleMap c) else ruleMap c);
          rules = rules_at m host path
      in case find_same (r_annots rule) 0 rules of
           Some (i, r) \<Rightarrow>
             if r_time rule < r_time r then
               (None, c\<lparr>ingress2Rule :=
                          mm_put M (mm_remove M (ingress2Rule c) (r_ingress rule) (rules ! i))
                            (r_ingress rule) rule,
                        ruleMap := rules_store host path (rules[i := rule]) m\<rparr>)
             else if r_time rule = r_time r then (None, c\<lparr>ruleMap := m\<rparr>)
             else (Some (Rule_Conflict (r_ingress rule) (r_ingress r) host path), c\<lparr>ruleMap := m\<rparr>)
         | None \<Rightarrow>
             (None, c\<lparr>ingress2Rule := mm_put M (ingress2Rule c) (r_ingress rule) rule,
                      ruleMap := rules_store host path (rules @ [rule]) m\<rparr>))"

definition delRule :: "http_rule list \<Rightarrow> string \<Rightarrow> http_rule list" where
  "delRule ruleList ingress = filter (\<lambda>r. r_ingress r \<noteq> ingress) ruleList"

text \<open>One iteration of the loop of \<^verbatim>\<open>delete\<close>.\<close>

definition delete_step :: "string \<Rightarrow> http_rule \<Rightarrow> rule_map \<Rightarrow> rule_map" where
  "delete_step ingressName rule m =
     (case rules_find m (r_host rule) (r_path rule) of
        None \<Rightarrow> m
      | Some rules \<Rightarrow>
          (let rest = delRule rules ingressName;
               m1 = rules_store (r_host rule) (r_path rule) rest m;
               m2 = (if length rest = 0
                     then mput (r_host rule) (mdel (r_path rule) (mget_or [] m1 (r_host rule))) m1
                     else m1)
           in if length (mget_or [] m2 (r_host rule)) = 0 then mdel (r_host rule) m2 else m2))"

definition delete_rules ::
  "('m, http_rule) multimap_ops \<Rightarrow> schedule \<Rightarrow> string \<Rightarrow> 'm route_cache \<Rightarrow> 'm route_cache" where
  "delete_rules M s ingressName c =
     c\<lparr>ruleMap := fold (delete_step ingressName)
                    (shuffle s (fst (mm_get M (ingress2Rule c) ingressName))) (ruleMap c),
       ingress2Rule := mm_remove_all M (ingress2Rule c) ingressName\<rparr>"

definition ContainsIngress :: "('m, http_rule) multimap_ops \<Rightarrow> string \<Rightarrow> 'm route_cache \<Rightarrow> bool" where
  "ContainsIngress M ingress c = mm_contains_key M (ingress2Rule c) ingress"

subsection \<open>Reading the rules in order\<close>

definition wildcardPath :: "string \<Rightarrow> bool" where
  "wildcardPath path \<longleftrightarrow> length path > 0 \<and> has_suffix path ''*''"

definition wildcardHost :: "string \<Rightarrow> bool" where
  "wildcardHost host \<longleftrightarrow> length host > 0 \<and> has_prefix host ''*.''"

definition comparePriority :: "string \<Rightarrow> string \<Rightarrow> (string \<Rightarrow> bool) \<Rightarrow> int" where
  "comparePriority str1 str2 wildcard =
     (if \<not> wildcard str1 \<and> wildcard str2 then 1
      else if wildcard str1 \<and> \<not> wildcard str2 then -1
      else if length str1 > length str2 then 1
      else if length str1 = length str2 then 0
      else -1)"

text \<open>The comparison of \<^verbatim>\<open>sort.SliceStable\<close> in \<^verbatim>\<open>get\<close>: does the first rule go before the second?\<close>

definition rule_before :: "http_rule \<Rightarrow> http_rule \<Rightarrow> bool" where
  "rule_before r1 r2 =
     (let h = comparePriority (r_host r1) (r_host r2) wildcardHost;
          p = comparePriority (r_path r1) (r_path r2) wildcardPath
      in if h \<noteq> 0 then h > 0
         else if p \<noteq> 0 then p > 0
         else if Priority (r_annots r1) \<noteq> Priority (r_annots r2)
              then Priority (r_annots r1) > Priority (r_annots r2)
              else r_time r1 < r_time r2)"

text \<open>\<^verbatim>\<open>sort.SliceStable\<close>: a stable sort by a strict weak order.\<close>

fun insert_before :: "('a \<Rightarrow> 'a \<Rightarrow> bool) \<Rightarrow> 'a \<Rightarrow> 'a list \<Rightarrow> 'a list" where
  "insert_before lt x [] = [x]"
| "insert_before lt x (y # ys) =
     (if lt y x then y # insert_before lt x ys else x # y # ys)"

definition stable_sort :: "('a \<Rightarrow> 'a \<Rightarrow> bool) \<Rightarrow> 'a list \<Rightarrow> 'a list" where
  "stable_sort lt xs = foldr (insert_before lt) xs []"

definition AdvancedMode :: string where
  "AdvancedMode = ''ADVANCED_MODE''"

text \<open>What one entry of the rule map adds to the basic and the advanced list.\<close>

definition is_basic_group :: "http_rule list \<Rightarrow> bool" where
  "is_basic_group rules \<longleftrightarrow>
     length rules = 1 \<and> Priority (r_annots (hd rules)) = PriorityBasic"

definition basic_of :: "http_rule list \<Rightarrow> http_rule list" where
  "basic_of rules =
     (if rules = [] then []
      else if is_basic_group rules then [hd rules]
      else [(hd rules)\<lparr>r_cluster := AdvancedMode\<rparr>])"

definition advanced_of :: "http_rule list \<Rightarrow> http_rule list" where
  "advanced_of rules = (if rules = [] \<or> is_basic_group rules then [] else rules)"

text \<open>The entries of the rule map in the order the two nested range loops visit them.\<close>

definition visit :: "order \<Rightarrow> rule_map \<Rightarrow> http_rule list list" where
  "visit w m =
     concat (map (\<lambda>(host, paths). map snd (shuffle (ord_key w host) paths)) (shuffle (ord_top w) m))"

definition get_rules :: "order \<Rightarrow> 'm route_cache \<Rightarrow> http_rule list \<times> http_rule list" where
  "get_rules w c =
     (let groups = visit w (ruleMap c)
      in (concat (map basic_of groups),
          stable_sort rule_before (concat (map advanced_of groups))))"

subsection \<open>The methods the configuration calls\<close>

abbreviation GetHttpRules :: "order \<Rightarrow> 'm route_cache \<Rightarrow> http_rule list \<times> http_rule list" where
  "GetHttpRules w c \<equiv> get_rules w c"

abbreviation PutHttpRule ::
  "('m, http_rule) multimap_ops \<Rightarrow> http_rule \<Rightarrow> 'm route_cache \<Rightarrow> error option \<times> 'm route_cache" where
  "PutHttpRule M rule c \<equiv> put_rule M rule c"

abbreviation DeleteHttpRulesByIngress ::
  "('m, http_rule) multimap_ops \<Rightarrow> schedule \<Rightarrow> string \<Rightarrow> 'm route_cache \<Rightarrow> 'm route_cache" where
  "DeleteHttpRulesByIngress M s ingress c \<equiv> delete_rules M s ingress c"

end
