(* ===== verification/Route_Rule_Cache_Spec.thy ===== *)
theory Route_Rule_Cache_Spec
  imports Route_Rule_Cache "HOL-Library.Product_Lexorder"
begin

text \<open>
  What the route rule cache promises: its invariant, its refinement of the table
  "host, path and condition to the first created rule", what deleting an ingress leaves, and
  the order in which rules are handed to the route table, over any multimap (the locale
  \<open>rule_multimap\<close>).
\<close>

subsection \<open>Lookups after stores\<close>

lemma rules_find_store [simp, go_map_simps]:
  "rules_find (rules_store h p rs m) h' p' = (if h' = h \<and> p' = p then Some rs else rules_find m h' p')"
  by (auto simp: rules_find_def rules_store_def mget_or_def split: option.splits)

lemma rules_at_store [simp, go_map_simps]:
  "rules_at (rules_store h p rs m) h' p' = (if h' = h \<and> p' = p then rs else rules_at m h' p')"
  by (simp add: rules_at_def)

lemma rules_at_no_host: "mget m h = None \<Longrightarrow> rules_at m h p = []"
  by (simp add: rules_at_def rules_find_def)

lemma rules_find_new_host [simp]:
  "mget m h = None \<Longrightarrow> rules_find (mput h [] m) h' p' = rules_find m h' p'"
  by (auto simp: rules_find_def)

lemma rules_at_new_host [simp]:
  "mget m h = None \<Longrightarrow> rules_at (mput h [] m) h' p' = rules_at m h' p'"
  by (simp add: rules_at_def)

lemma mdel_mput_Nil: "mdel p (mput p v m) = [] \<Longrightarrow> p' \<noteq> p \<Longrightarrow> mget m p' = None"
  by (metis map_of.simps(1) mget_mdel mget_mput)

lemma rules_find_delete_step:
  "rules_find (delete_step i rule m) h p =
     (if h = r_host rule \<and> p = r_path rule then
        (case rules_find m h p of
           None \<Rightarrow> None
         | Some rs \<Rightarrow> if delRule rs i = [] then None else Some (delRule rs i))
      else rules_find m h p)"
proof (cases "rules_find m (r_host rule) (r_path rule)")
  case (Some rs)
  then obtain ps where ps: "mget m (r_host rule) = Some ps" "mget ps (r_path rule) = Some rs"
    by (auto simp: rules_find_def split: option.splits)
  have "mget_or [] m (r_host rule) = ps" using ps(1) by (simp add: mget_or_def)
  then show ?thesis using Some ps
    by (auto simp: delete_step_def rules_find_def rules_store_def mget_or_def Let_def
        dest: mdel_mput_Nil)
qed (auto simp: delete_step_def)

lemma rules_at_delete_step:
  "rules_at (delete_step i rule m) h p =
     (if h = r_host rule \<and> p = r_path rule then delRule (rules_at m h p) i else rules_at m h p)"
  by (auto simp: rules_at_def rules_find_delete_step delRule_def split: option.splits)

lemma delRule_idem [simp]: "delRule (delRule rs i) i = delRule rs i"
  by (simp add: delRule_def)

lemma rules_at_delete_fold:
  "rules_at (fold (delete_step i) rs m) h p =
     (if \<exists>r \<in> set rs. r_host r = h \<and> r_path r = p then delRule (rules_at m h p) i
      else rules_at m h p)"
  by (induction rs arbitrary: m) (auto simp: rules_at_delete_step)

subsection \<open>The invariant\<close>

definition group_ok :: "string \<Rightarrow> string \<Rightarrow> http_rule list \<Rightarrow> bool" where
  "group_ok h p rs \<longleftrightarrow> rs \<noteq> [] \<and> (\<forall>r \<in> set rs. r_host r = h \<and> r_path r = p) \<and>
     distinct (map (\<lambda>r. cond_of (r_annots r)) rs)"

definition wf_rule_map :: "rule_map \<Rightarrow> bool" where
  "wf_rule_map m \<longleftrightarrow> wf_map m \<and>
     (\<forall>h ps. mget m h = Some ps \<longrightarrow> wf_map ps \<and> ps \<noteq> []) \<and>
     (\<forall>h p rs. rules_find m h p = Some rs \<longrightarrow> group_ok h p rs)"

text \<open>
  Every rule of the map is filed under its ingress in the multimap, and the multimap files
  rules under their own ingress only.
\<close>

definition wf_cache :: "('m \<Rightarrow> (string \<times> http_rule) set) \<Rightarrow> 'm route_cache \<Rightarrow> bool" where
  "wf_cache R c \<longleftrightarrow> wf_rule_map (ruleMap c) \<and>
     (\<forall>h p. \<forall>r \<in> set (rules_at (ruleMap c) h p). (r_ingress r, r) \<in> R (ingress2Rule c)) \<and>
     (\<forall>i r. (i, r) \<in> R (ingress2Rule c) \<longrightarrow> r_ingress r = i)"

lemma wf_rule_map_Nil [simp]: "wf_rule_map []"
  by (simp add: wf_rule_map_def rules_find_def)

lemma group_okD:
  assumes "wf_rule_map m" and "r \<in> set (rules_at m h p)"
  shows "r_host r = h \<and> r_path r = p"
proof (cases "rules_find m h p")
  case (Some rs)
  then have "group_ok h p rs" using assms(1) by (simp add: wf_rule_map_def)
  with Some assms(2) show ?thesis by (simp add: rules_at_def group_ok_def)
qed (use assms(2) in \<open>simp add: rules_at_def\<close>)

lemma group_distinct:
  "wf_rule_map m \<Longrightarrow> distinct (map (\<lambda>r. cond_of (r_annots r)) (rules_at m h p))"
  by (auto simp: wf_rule_map_def rules_at_def group_ok_def split: option.splits)

lemma wf_rule_map_store:
  assumes "wf_rule_map m" and "group_ok h p rs"
  shows "wf_rule_map (rules_store h p rs m)"
proof -
  have "wf_map (mget_or [] m h)"
    using assms(1) by (auto simp: wf_rule_map_def mget_or_def split: option.splits)
  then have "mget (rules_store h p rs m) h' = Some ps \<Longrightarrow> wf_map ps \<and> ps \<noteq> []" for h' ps
    using assms(1) by (auto simp: rules_store_def wf_rule_map_def split: if_splits)
  moreover have "wf_map (rules_store h p rs m)"
    using assms(1) by (simp add: rules_store_def wf_rule_map_def)
  ultimately show ?thesis
    using assms by (simp add: wf_rule_map_def)
qed

lemma rules_store_new_host:
  "mget m h = None \<Longrightarrow> rules_store h p rs (mput h [] m) = rules_store h p rs m"
  by (induction m) (auto simp: rules_store_def mget_or_def split: if_splits)

lemma wf_rule_map_delete_step:
  assumes "wf_rule_map m"
  shows "wf_rule_map (delete_step i rule m)"
proof (cases "rules_find m (r_host rule) (r_path rule)")
  case None
  then show ?thesis using assms by (simp add: delete_step_def)
next
  case (Some rs)
  let ?h = "r_host rule" and ?p = "r_path rule"
  obtain ps where ps: "mget m ?h = Some ps" "mget ps ?p = Some rs"
    using Some by (auto simp: rules_find_def split: option.splits)
  have wf: "wf_map m" "wf_map ps" using assms ps by (auto simp: wf_rule_map_def)
  have "wf_map (delete_step i rule m)"
    using wf Some by (simp add: delete_step_def rules_store_def Let_def)
  moreover have "mget (delete_step i rule m) h' = Some qs \<Longrightarrow> wf_map qs \<and> qs \<noteq> []" for h' qs
    using assms ps wf Some
    by (auto simp: delete_step_def rules_store_def mget_or_def Let_def wf_rule_map_def
        split: if_splits)
  moreover have "rules_find (delete_step i rule m) h' p' = Some qs \<Longrightarrow> group_ok h' p' qs" for h' p' qs
    using assms
    by (auto simp: rules_find_delete_step wf_rule_map_def group_ok_def delRule_def distinct_map_filter
        split: if_splits option.splits)
  ultimately show ?thesis unfolding wf_rule_map_def by blast
qed

lemma wf_rule_map_delete_fold: "wf_rule_map m \<Longrightarrow> wf_rule_map (fold (delete_step i) rs m)"
  by (induction rs arbitrary: m) (simp_all add: wf_rule_map_delete_step)

subsection \<open>The table the cache stands for\<close>

type_synonym rule_key = "string \<times> string \<times> string \<times> string"

definition rule_key :: "http_rule \<Rightarrow> rule_key" where
  "rule_key r = (r_host r, r_path r, cond_of (r_annots r))"

definition route_view :: "rule_map \<Rightarrow> rule_key \<Rightarrow> http_rule option" where
  "route_view m k = (case k of (h, p, cond) \<Rightarrow> find (\<lambda>r. cond_of (r_annots r) = cond) (rules_at m h p))"

text \<open>First created wins: the specification of inserting a rule.\<close>

definition spec_put :: "http_rule \<Rightarrow> (rule_key \<Rightarrow> http_rule option) \<Rightarrow> (rule_key \<Rightarrow> http_rule option)" where
  "spec_put rule v =
     (case v (rule_key rule) of
        None \<Rightarrow> v(rule_key rule := Some rule)
      | Some r \<Rightarrow> if r_time rule < r_time r then v(rule_key rule := Some rule) else v)"

definition spec_conflict :: "http_rule \<Rightarrow> (rule_key \<Rightarrow> http_rule option) \<Rightarrow> error option" where
  "spec_conflict rule v =
     (case v (rule_key rule) of
        None \<Rightarrow> None
      | Some r \<Rightarrow>
          if r_time r < r_time rule
          then Some (Rule_Conflict (r_ingress rule) (r_ingress r) (r_host rule) (r_path rule))
          else None)"

lemma find_same_find: "map_option snd (find_same a i rs) = find (\<lambda>r. cond_of (r_annots r) = cond_of a) rs"
  by (induction a i rs rule: find_same.induct) (auto simp: annots_equal_iff)

lemma find_same_Some:
  "find_same a i rs = Some (j, r) \<Longrightarrow>
     i \<le> j \<and> j - i < length rs \<and> rs ! (j - i) = r \<and> cond_of (r_annots r) = cond_of a \<and>
     (\<forall>k < j - i. cond_of (r_annots (rs ! k)) \<noteq> cond_of a)"
proof (induction a i rs rule: find_same.induct)
  case (2 a i r' rs)
  show ?case
  proof (cases "annots_equal a (r_annots r')")
    case True
    then show ?thesis using "2.prems" by (auto simp: annots_equal_iff)
  next
    case False
    then have IH: "Suc i \<le> j" "j - Suc i < length rs" "rs ! (j - Suc i) = r"
      "cond_of (r_annots r) = cond_of a"
      "\<forall>k < j - Suc i. cond_of (r_annots (rs ! k)) \<noteq> cond_of a"
      using "2.IH" "2.prems" by auto
    then have j: "j - i = Suc (j - Suc i)" by simp
    have "\<forall>k < j - i. cond_of (r_annots ((r' # rs) ! k)) \<noteq> cond_of a"
      using IH(5) False unfolding j by (auto simp: annots_equal_iff nth_Cons split: nat.split)
    then show ?thesis using IH unfolding j by simp
  qed
qed simp

lemma find_update_first:
  assumes "j < length rs" and "\<forall>k < j. f (rs ! k) \<noteq> f (rs ! j)" and "f x = f (rs ! j)"
  shows "find (\<lambda>r. f r = c) (rs[j := x]) =
    (if c = f x then Some x else find (\<lambda>r. f r = c) rs)"
  using assms
proof (induction rs arbitrary: j)
  case (Cons r rs)
  show ?case
  proof (cases j)
    case 0
    then show ?thesis using Cons.prems by auto
  next
    case (Suc i)
    have "\<forall>k < i. f (rs ! k) \<noteq> f (rs ! i)" and "f r \<noteq> f x"
      using Cons.prems Suc by (auto simp: less_Suc_eq_0_disj)
    then show ?thesis using Cons.IH [of i] Cons.prems Suc by auto
  qed
qed simp

subsection \<open>Inserting a rule\<close>

text \<open>The rule map \<^verbatim>\<open>put\<close> works on: the host has an inner map.\<close>

lemma put_rule_cases:
  obtains (new) "find_same (r_annots rule) 0 (rules_at (ruleMap c) (r_host rule) (r_path rule)) = None"
      "fst (put_rule M rule c) = None"
      "ruleMap (snd (put_rule M rule c)) =
         rules_store (r_host rule) (r_path rule)
           (rules_at (ruleMap c) (r_host rule) (r_path rule) @ [rule]) (ruleMap c)"
      "ingress2Rule (snd (put_rule M rule c)) = mm_put M (ingress2Rule c) (r_ingress rule) rule"
  | (elder) i r where
      "find_same (r_annots rule) 0 (rules_at (ruleMap c) (r_host rule) (r_path rule)) = Some (i, r)"
      "r_time rule < r_time r"
      "fst (put_rule M rule c) = None"
      "ruleMap (snd (put_rule M rule c)) =
         rules_store (r_host rule) (r_path rule)
           ((rules_at (ruleMap c) (r_host rule) (r_path rule))[i := rule]) (ruleMap c)"
      "ingress2Rule (snd (put_rule M rule c)) =
         mm_put M (mm_remove M (ingress2Rule c) (r_ingress rule) r) (r_ingress rule) rule"
  | (younger) i r where
      "find_same (r_annots rule) 0 (rules_at (ruleMap c) (r_host rule) (r_path rule)) = Some (i, r)"
      "r_time r \<le> r_time rule"
      "fst (put_rule M rule c) =
         (if r_time rule = r_time r then None
          else Some (Rule_Conflict (r_ingress rule) (r_ingress r) (r_host rule) (r_path rule)))"
      "ruleMap (snd (put_rule M rule c)) = ruleMap c"
      "ingress2Rule (snd (put_rule M rule c)) = ingress2Rule c"
proof (cases "find_same (r_annots rule) 0 (rules_at (ruleMap c) (r_host rule) (r_path rule))")
  case None
  then show ?thesis
    by (intro new) (simp_all add: put_rule_def Let_def rules_store_new_host)
next
  case (Some p)
  then obtain i r where p:
    "find_same (r_annots rule) 0 (rules_at (ruleMap c) (r_host rule) (r_path rule)) = Some (i, r)"
    by (cases p) auto
  then have r: "rules_at (ruleMap c) (r_host rule) (r_path rule) ! i = r"
    and "rules_at (ruleMap c) (r_host rule) (r_path rule) \<noteq> []"
    using find_same_Some [OF p] by auto
  then have host: "mget (ruleMap c) (r_host rule) \<noteq> None"
    using rules_at_no_host by metis
  show ?thesis
  proof (cases "r_time rule < r_time r")
    case True
    with p r host show ?thesis
      by (intro elder [of i r]) (auto simp add: put_rule_def Let_def)
  next
    case False
    with p host show ?thesis
      by (intro younger [of i r]) (auto simp: put_rule_def Let_def)
  qed
qed

lemma route_view_key:
  "route_view m (rule_key rule) =
     map_option snd (find_same (r_annots rule) 0 (rules_at m (r_host rule) (r_path rule)))"
  by (simp add: route_view_def rule_key_def find_same_find)

lemma spec_put_apply:
  "spec_put rule v k =
     (if k = rule_key rule then
        (case v k of None \<Rightarrow> Some rule | Some r \<Rightarrow> if r_time rule < r_time r then Some rule else Some r)
      else v k)"
  by (auto simp: spec_put_def split: option.splits)

lemma rule_key_eq:
  "(h, p, cd) = rule_key rule \<longleftrightarrow> h = r_host rule \<and> p = r_path rule \<and> cd = cond_of (r_annots rule)"
  by (simp add: rule_key_def)

lemma route_view_triple:
  "route_view m (h, p, cd) = find (\<lambda>r. cond_of (r_annots r) = cd) (rules_at m h p)"
  by (simp add: route_view_def)

lemma put_rule_view: "route_view (ruleMap (snd (put_rule M rule c))) k = spec_put rule (route_view (ruleMap c)) k"
proof (cases k)
  case (fields h p ck hd)
  let ?cd = "(ck, hd)"
  let ?rs = "rules_at (ruleMap c) (r_host rule) (r_path rule)"
  show ?thesis
  proof (cases rule: put_rule_cases [of rule c M])
    case new
    have none: "find (\<lambda>r. cond_of (r_annots r) = cond_of (r_annots rule)) ?rs = None"
      using new(1) find_same_find [of "r_annots rule" 0 ?rs] by simp
    have app: "find (\<lambda>r. cond_of (r_annots r) = cd) (?rs @ [rule]) =
        (if cd = cond_of (r_annots rule) then Some rule
         else find (\<lambda>r. cond_of (r_annots r) = cd) ?rs)" for cd
      using none by (simp add: find_append_new split: option.split)
    show ?thesis
      unfolding fields spec_put_apply rule_key_eq route_view_triple new(3) rules_at_store
      using none by (simp add: app)
  next
    case (elder i r)
    have old: "find (\<lambda>r. cond_of (r_annots r) = cond_of (r_annots rule)) ?rs = Some r"
      using elder(1) find_same_find [of "r_annots rule" 0 ?rs] by simp
    have i: "i < length ?rs" "?rs ! i = r" "cond_of (r_annots r) = cond_of (r_annots rule)"
      "\<forall>k < i. cond_of (r_annots (?rs ! k)) \<noteq> cond_of (r_annots rule)"
      using find_same_Some [OF elder(1)] by auto
    have upd: "find (\<lambda>r. cond_of (r_annots r) = cd) (?rs[i := rule]) =
        (if cd = cond_of (r_annots rule) then Some rule
         else find (\<lambda>r. cond_of (r_annots r) = cd) ?rs)" for cd
      by (rule find_update_first) (use i in \<open>simp_all only: not_False_eq_True simp_thms\<close>)
    show ?thesis
      unfolding fields spec_put_apply rule_key_eq route_view_triple elder(4) rules_at_store
      using old elder(2) by (simp add: upd)
  next
    case (younger i r)
    then show ?thesis by (auto simp: spec_put_apply route_view_key split: option.splits)
  qed
qed

lemma put_rule_conflict: "fst (put_rule M rule c) = spec_conflict rule (route_view (ruleMap c))"
  by (cases rule: put_rule_cases [of rule c M]) (auto simp: spec_conflict_def route_view_key)

text \<open>The multimap from ingress names to rules.\<close>

locale rule_multimap = multimap M R
  for M :: "('m, http_rule) multimap_ops" and R :: "'m \<Rightarrow> (string \<times> http_rule) set"
begin

lemma new_cache_wf: "wf_cache R (NewRouteRuleCache M)"
  by (simp add: wf_cache_def NewRouteRuleCache_def new_pairs rules_at_def rules_find_def)

text \<open>A group of rules stays one when a new condition is added, or a rule replaced by its like.\<close>

lemma group_ok_append:
  assumes "distinct (map (\<lambda>r. cond_of (r_annots r)) rs)"
    and "\<And>r. r \<in> set rs \<Longrightarrow> r_host r = r_host rule \<and> r_path r = r_path rule"
    and "find_same (r_annots rule) 0 rs = None"
  shows "group_ok (r_host rule) (r_path rule) (rs @ [rule])"
proof -
  have "find (\<lambda>r. cond_of (r_annots r) = cond_of (r_annots rule)) rs = None"
    using assms(3) find_same_find [of "r_annots rule" 0 rs] by simp
  then have "cond_of (r_annots rule) \<notin> set (map (\<lambda>r. cond_of (r_annots r)) rs)" by (auto simp: find_None_iff)
  then show ?thesis using assms(1,2) unfolding group_ok_def by auto
qed

lemma group_ok_replace:
  assumes "distinct (map (\<lambda>r. cond_of (r_annots r)) rs)"
    and "\<And>r. r \<in> set rs \<Longrightarrow> r_host r = r_host rule \<and> r_path r = r_path rule"
    and "find_same (r_annots rule) 0 rs = Some (i, r)" and "r \<noteq> rule"
  shows "group_ok (r_host rule) (r_path rule) (rs[i := rule])" and "r \<notin> set (rs[i := rule])"
proof -
  let ?cond = "\<lambda>r. cond_of (r_annots r)"
  have i: "i < length rs" "rs ! i = r" "?cond r = ?cond rule" using find_same_Some [OF assms(3)] by auto
  have conds: "map ?cond (rs[i := rule]) = map ?cond rs" by (rule map_update_same) (simp_all only: i)
  have "r' \<in> set (rs[i := rule]) \<Longrightarrow> r_host r' = r_host rule \<and> r_path r' = r_path rule" for r'
    using set_update_subset_insert [of rs i rule] assms(2) [of r'] by (cases "r' = rule") auto
  moreover have "rs[i := rule] \<noteq> []" using i(1) by auto
  ultimately show "group_ok (r_host rule) (r_path rule) (rs[i := rule])"
    using assms(1) unfolding group_ok_def conds by blast
  show "r \<notin> set (rs[i := rule])"
  proof
    assume "r \<in> set (rs[i := rule])"
    then obtain j where j: "j < length rs" "rs[i := rule] ! j = r" by (auto simp: in_set_conv_nth)
    have "j \<noteq> i" using j assms(4) i(1) by auto
    moreover have "map ?cond rs ! j = map ?cond rs ! i" using j i \<open>j \<noteq> i\<close> by simp
    ultimately show False
      using nth_eq_iff_index_eq [OF assms(1), of j i] j(1) i(1) by (simp only: length_map)
  qed
qed

lemma put_rule_wf:
  assumes wf: "wf_cache R c"
  shows "wf_cache R (snd (put_rule M rule c))"
proof -
  let ?rs = "rules_at (ruleMap c) (r_host rule) (r_path rule)"
  have m: "wf_rule_map (ruleMap c)" using wf by (simp add: wf_cache_def)
  have at: "\<And>r. r \<in> set ?rs \<Longrightarrow> r_host r = r_host rule \<and> r_path r = r_path rule"
    by (rule group_okD [OF m])
  note dist = group_distinct [OF m, of "r_host rule" "r_path rule"]
  show ?thesis
  proof (cases rule: put_rule_cases [of rule c M])
    case new
    show ?thesis
      using wf m group_ok_append [OF dist at new(1)]
      by (auto simp: wf_cache_def new(3,4) put_pairs wf_rule_map_store)
  next
    case (elder i r)
    have i: "i < length ?rs" "?rs ! i = r" using find_same_Some [OF elder(1)] by auto
    have "r \<noteq> rule" using elder(2) by auto
    note new = group_ok_replace [OF dist at elder(1) this]
    have "r_host r = r_host rule \<and> r_path r = r_path rule" using at i by (metis nth_mem)
    then have "r \<in> set (rules_at (ruleMap c) h p) \<Longrightarrow> h = r_host rule \<and> p = r_path rule" for h p
      using group_okD [OF m] by metis
    then show ?thesis
      using wf new(2) set_update_subset_insert [of ?rs i rule]
      by (auto simp: wf_cache_def elder(4,5) put_pairs remove_pairs wf_rule_map_store [OF m new(1)])
  next
    case (younger i r)
    then show ?thesis using wf by (simp add: wf_cache_def)
  qed
qed

lemma delete_rules_at:
  assumes wf: "wf_cache R c"
  shows "rules_at (ruleMap (delete_rules M s i c)) h p = delRule (rules_at (ruleMap c) h p) i"
proof -
  let ?del = "shuffle s (fst (mm_get M (ingress2Rule c) i))"
  have "delRule (rules_at (ruleMap c) h p) i = rules_at (ruleMap c) h p"
    if none: "\<not> (\<exists>r \<in> set ?del. r_host r = h \<and> r_path r = p)"
  proof -
    have "r_ingress r \<noteq> i" if r: "r \<in> set (rules_at (ruleMap c) h p)" for r
    proof
      assume "r_ingress r = i"
      then have "r \<in> set ?del" using wf r by (auto simp: wf_cache_def get_values)
      moreover have "r_host r = h \<and> r_path r = p"
        using wf by (intro group_okD [OF _ r]) (simp add: wf_cache_def)
      ultimately show False using none by blast
    qed
    then show ?thesis by (simp add: delRule_def filter_id_conv)
  qed
  then show ?thesis by (simp add: delete_rules_def rules_at_delete_fold)
qed

lemma delete_rules_wf:
  assumes wf: "wf_cache R c"
  shows "wf_cache R (delete_rules M s i c)"
proof -
  have "wf_rule_map (ruleMap (delete_rules M s i c))"
    using wf by (simp add: wf_cache_def delete_rules_def wf_rule_map_delete_fold)
  moreover have "R (ingress2Rule (delete_rules M s i c)) = {p \<in> R (ingress2Rule c). fst p \<noteq> i}"
    by (simp add: delete_rules_def remove_all_pairs)
  ultimately show ?thesis
    using wf by (auto simp: wf_cache_def delete_rules_at [OF wf] delRule_def)
qed

lemma find_filter_distinct:
  assumes "distinct (map f rs)"
  shows "find (\<lambda>r. f r = c) (filter P rs) =
    (case find (\<lambda>r. f r = c) rs of None \<Rightarrow> None | Some r \<Rightarrow> if P r then Some r else None)"
  using assms
proof (induction rs)
  case (Cons r rs)
  have "find (\<lambda>x. f x = f r) (filter P rs) = None"
    using Cons.prems by (auto simp: find_None_iff image_iff)
  then show ?case using Cons by auto
qed simp

lemma delete_rules_view:
  assumes wf: "wf_cache R c"
  shows "route_view (ruleMap (delete_rules M s i c)) k =
    (case route_view (ruleMap c) k of
       None \<Rightarrow> None | Some r \<Rightarrow> if r_ingress r = i then None else Some r)"
proof (cases k)
  case (fields h p cd)
  have "distinct (map (\<lambda>r. cond_of (r_annots r)) (rules_at (ruleMap c) h p))"
    by (rule group_distinct) (use wf in \<open>simp add: wf_cache_def\<close>)
  from find_filter_distinct [OF this, of _ "\<lambda>r. r_ingress r \<noteq> i"] show ?thesis
    by (auto simp: fields route_view_def delete_rules_at [OF wf] delRule_def split: option.splits)
qed

lemma contains_if_rule:
  assumes "wf_cache R c" and "r \<in> set (rules_at (ruleMap c) h p)"
  shows "ContainsIngress M (r_ingress r) c"
  using assms by (auto simp: ContainsIngress_def contains_key wf_cache_def)

end

interpretation lrm: rule_multimap list_multimap set ..

end
