(* ===== verification/Route_Rule_Order.thy ===== *)
theory Route_Rule_Order
  imports Route_Rule_Cache_Spec
begin

text \<open>
  The order of the rules \<^verbatim>\<open>get\<close> returns: the comparison used by \<^verbatim>\<open>sort.SliceStable\<close> is the
  order of a rank, the result is sorted by it, and what the random iteration order of Go's
  maps can change is bounded: rules that can match the same request keep their order.
\<close>

subsection \<open>The comparison is the order of a rank\<close>

type_synonym rank = "int \<times> int \<times> int \<times> int \<times> int \<times> int"

definition rule_rank :: "http_rule \<Rightarrow> rank" where
  "rule_rank r =
     (of_bool (wildcardHost (r_host r)), - int (length (r_host r)),
      of_bool (wildcardPath (r_path r)), - int (length (r_path r)),
      - Priority (r_annots r), r_time r)"

lemma comparePriority_rank:
  "comparePriority s t w > 0 \<longleftrightarrow>
     (of_bool (w s) :: int, - int (length s)) < (of_bool (w t), - int (length t))"
  "comparePriority s t w = 0 \<longleftrightarrow> w s = w t \<and> length s = length t"
  by (auto simp: comparePriority_def less_prod_def)

lemma rule_before_rank: "rule_before r1 r2 \<longleftrightarrow> rule_rank r1 < rule_rank r2"
  using comparePriority_rank [of "r_host r1" "r_host r2" wildcardHost]
    comparePriority_rank [of "r_path r1" "r_path r2" wildcardPath]
  by (auto simp: rule_before_def rule_rank_def Let_def less_prod_simp of_bool_def split: if_splits)

lemma insert_before_insort:
  assumes "\<And>x y. lt x y \<longleftrightarrow> (f x :: 'k :: linorder) < f y"
  shows "insert_before lt x xs = insort_key f x xs"
  by (induction xs) (auto simp: assms)

lemma stable_sort_eq: "stable_sort rule_before xs = sort_key rule_rank xs"
  unfolding stable_sort_def sort_key_def
  using insert_before_insort [of rule_before rule_rank] rule_before_rank
  by (induction xs) auto

subsection \<open>Which entries are visited\<close>

lemma set_visit: "wf_rule_map m \<Longrightarrow> rs \<in> set (visit w m) \<longleftrightarrow> (\<exists>h p. rules_find m h p = Some rs)"
proof
  assume wf: "wf_rule_map m"
  {
    assume "rs \<in> set (visit w m)"
    then obtain h ps p where "(h, ps) \<in> set m" and "(p, rs) \<in> set ps"
      by (auto simp: visit_def)
    moreover have "wf_map m" using wf by (simp add: wf_rule_map_def)
    ultimately have "mget m h = Some ps" and "(p, rs) \<in> set ps"
      by (simp_all add: in_set_mget)
    moreover from this have "wf_map ps" using wf by (simp add: wf_rule_map_def)
    ultimately have "rules_find m h p = Some rs" by (simp add: rules_find_def in_set_mget)
    then show "\<exists>h p. rules_find m h p = Some rs" by blast
  }
  {
    assume "\<exists>h p. rules_find m h p = Some rs"
    then obtain h p ps where "mget m h = Some ps" and "mget ps p = Some rs"
      by (auto simp: rules_find_def split: option.splits)
    then have "(h, ps) \<in> set m" and "(p, rs) \<in> set ps" by (simp_all add: mget_in_set)
    then show "rs \<in> set (visit w m)" by (force simp: visit_def)
  }
qed

definition group_key :: "http_rule list \<Rightarrow> string \<times> string" where
  "group_key rs = (r_host (hd rs), r_path (hd rs))"

lemma group_key_find:
  assumes "wf_rule_map m" and "rules_find m h p = Some rs"
  shows "group_key rs = (h, p)"
proof -
  have "group_ok h p rs" using assms by (simp add: wf_rule_map_def)
  then show ?thesis by (cases rs) (auto simp: group_ok_def group_key_def)
qed

lemma distinct_concat_keys:
  assumes "distinct (map fst xs)"
    and "\<And>h ps. (h, ps) \<in> set xs \<Longrightarrow> distinct (map k (f h ps)) \<and> (\<forall>q \<in> set (f h ps). fst (k q) = h)"
  shows "distinct (map k (concat (map (\<lambda>(h, ps). f h ps) xs)))"
  using assms
proof (induction xs)
  case (Cons x xs)
  obtain h ps where x: "x = (h, ps)" by (cases x)
  have "fst (k q) \<in> fst ` set xs" if "q \<in> set (concat (map (\<lambda>(h, ps). f h ps) xs))" for q
  proof -
    from that obtain h' ps' where "(h', ps') \<in> set xs" and "q \<in> set (f h' ps')" by auto
    moreover from this have "fst (k q) = h'" using Cons.prems(2) [of h' ps'] by simp
    ultimately show ?thesis by (force simp: image_iff)
  qed
  moreover have "fst (k q) = h" if "q \<in> set (f h ps)" for q
    using that Cons.prems(2) [of h ps] x by simp
  moreover have "h \<notin> fst ` set xs" using Cons.prems(1) x by simp
  ultimately have "k ` set (f h ps) \<inter> k ` set (concat (map (\<lambda>(h, ps). f h ps) xs)) = {}"
    by force
  moreover have "distinct (map k (concat (map (\<lambda>(h, ps). f h ps) xs)))"
    by (rule Cons.IH) (use Cons.prems in auto)
  moreover have "distinct (map k (f h ps))" using Cons.prems(2) [of h ps] x by simp
  ultimately show ?case using x by (simp add: distinct_append del: set_concat)
qed simp

lemma distinct_visit: "wf_rule_map m \<Longrightarrow> distinct (map group_key (visit w m))"
  unfolding visit_def
proof (rule distinct_concat_keys)
  assume wf: "wf_rule_map m"
  then have "wf_map m" by (simp add: wf_rule_map_def)
  then show "distinct (map fst (shuffle (ord_top w) m))"
    by (simp add: wf_map_def flip: shuffle_map)
  fix h ps
  assume "(h, ps) \<in> set (shuffle (ord_top w) m)"
  then have ps: "mget m h = Some ps" using \<open>wf_map m\<close> by (simp add: in_set_mget)
  then have wps: "wf_map ps" using wf by (simp add: wf_rule_map_def)
  have key: "group_key (snd q) = (h, fst q)" if "q \<in> set ps" for q
  proof -
    have "mget ps (fst q) = Some (snd q)" using that wps by (simp flip: in_set_mget)
    then show ?thesis using ps by (intro group_key_find [OF wf]) (simp add: rules_find_def)
  qed
  have "map group_key (map snd (shuffle (ord_key w h) ps)) = map (\<lambda>q. (h, fst q)) (shuffle (ord_key w h) ps)"
    using key by simp
  also have "\<dots> = map (Pair h) (map fst (shuffle (ord_key w h) ps))" by simp
  finally have eq: "map group_key (map snd (shuffle (ord_key w h) ps)) =
      map (Pair h) (map fst (shuffle (ord_key w h) ps))" .
  have "distinct (map fst (shuffle (ord_key w h) ps))"
    using wps by (simp add: wf_map_def flip: shuffle_map)
  then have "distinct (map group_key (map snd (shuffle (ord_key w h) ps)))"
    unfolding eq by (simp add: distinct_map inj_on_def)
  moreover have "\<forall>q \<in> set (map snd (shuffle (ord_key w h) ps)). fst (group_key q) = h"
    using key by auto
  ultimately show "distinct (map group_key (map snd (shuffle (ord_key w h) ps))) \<and>
      (\<forall>q \<in> set (map snd (shuffle (ord_key w h) ps)). fst (group_key q) = h)" by blast
qed

subsection \<open>What get returns\<close>

lemma get_rules_fst: "fst (get_rules w c) = concat (map basic_of (visit w (ruleMap c)))"
  by (simp add: get_rules_def Let_def)

lemma get_rules_snd:
  "snd (get_rules w c) = sort_key rule_rank (concat (map advanced_of (visit w (ruleMap c))))"
  by (simp add: get_rules_def Let_def stable_sort_eq)

lemma set_advanced:
  assumes "wf_rule_map (ruleMap c)"
  shows "r \<in> set (snd (get_rules w c)) \<longleftrightarrow>
    (\<exists>h p rs. rules_find (ruleMap c) h p = Some rs \<and> \<not> is_basic_group rs \<and> r \<in> set rs)"
proof -
  have "r \<in> set (snd (get_rules w c)) \<longleftrightarrow>
      (\<exists>rs. rs \<in> set (visit w (ruleMap c)) \<and> \<not> is_basic_group rs \<and> r \<in> set rs)"
    by (auto simp: get_rules_snd advanced_of_def split: if_splits)
  then show ?thesis unfolding set_visit [OF assms] by blast
qed

text \<open>
  One entry at most holds rules that satisfy \<open>Q\<close>: then the visiting order does not show.
\<close>

lemma filter_single_group:
  assumes "distinct gs" and "g \<in> set gs"
    and "\<And>g'. g' \<in> set gs \<Longrightarrow> g' \<noteq> g \<Longrightarrow> filter Q (f g') = []"
  shows "filter Q (concat (map f gs)) = filter Q (f g)"
proof -
  obtain as bs where gs: "gs = as @ g # bs" using assms(2) by (auto simp: in_set_conv_decomp)
  have none: "filter Q (concat (map f hs)) = []" if "g \<notin> set hs" "set hs \<subseteq> set gs" for hs
    using that assms(3) by (induction hs) auto
  have "g \<notin> set as" "g \<notin> set bs" "set as \<subseteq> set gs" "set bs \<subseteq> set gs" using assms(1) by (auto simp: gs)
  then have "filter Q (concat (map f as)) = []" "filter Q (concat (map f bs)) = []"
    using none by blast+
  then show ?thesis by (simp add: gs)
qed

lemma sorted_key_unique:
  assumes "sorted (map f xs)" and "sorted (map f ys)"
    and "\<And>k. filter (\<lambda>x. f x = k) xs = filter (\<lambda>x. f x = k) ys"
  shows "xs = ys"
proof -
  have "count (mset xs) x = count (mset ys) x" for x
  proof -
    have "count (mset xs) x = count (mset (filter (\<lambda>y. f y = f x) xs)) x" by simp
    also have "\<dots> = count (mset (filter (\<lambda>y. f y = f x) ys)) x" by (simp only: assms(3))
    finally show ?thesis by simp
  qed
  then have m: "mset xs = mset ys" by (rule multiset_eqI)
  have "sort_key f ys = xs"
    using assms(1,3) m by (intro properties_for_sort_key) (auto simp: eq_commute)
  moreover have "sort_key f ys = ys"
    using assms(2) by (intro properties_for_sort_key) simp_all
  ultimately show ?thesis by simp
qed

lemma filter_sort_key: "filter P (sort_key f xs) = sort_key f (filter P xs)"
  by (rule filter_sort)

text \<open>
  Rules of a set \<open>P\<close> in which equal rank means same host and path come out in one order,
  whatever the iteration order of the maps.
\<close>

lemma advanced_order_free:
  assumes wf: "wf_rule_map (ruleMap c)"
    and P: "\<And>r1 r2. P r1 \<Longrightarrow> P r2 \<Longrightarrow> rule_rank r1 = rule_rank r2 \<Longrightarrow>
              r_host r1 = r_host r2 \<and> r_path r1 = r_path r2"
  shows "filter P (snd (get_rules w c)) = filter P (snd (get_rules w' c))"
proof (rule sorted_key_unique [where f = rule_rank])
  fix k
  let ?Q = "\<lambda>r. P r \<and> rule_rank r = k"
  have f: "filter (\<lambda>x. rule_rank x = k) (filter P (snd (get_rules v c))) =
      filter ?Q (concat (map advanced_of (visit v (ruleMap c))))" for v
  proof -
    let ?X = "concat (map advanced_of (visit v (ruleMap c)))"
    have "filter (\<lambda>x. rule_rank x = k) (filter P (sort_key rule_rank ?X)) =
        filter P (filter (\<lambda>x. rule_rank x = k) (sort_key rule_rank ?X))"
      by (simp only: filter_filter conj_commute)
    also have "\<dots> = filter P (filter (\<lambda>x. rule_rank x = k) ?X)" by (simp only: sort_key_stable)
    also have "\<dots> = filter ?Q ?X" by (simp only: filter_filter conj_commute)
    finally show ?thesis by (simp only: get_rules_snd)
  qed
  have d: "distinct (visit v (ruleMap c))" for v
    using distinct_visit [OF wf, of v] by (simp add: distinct_map)
  have same: "set (visit w (ruleMap c)) = set (visit w' (ruleMap c))"
    using set_visit [OF wf] by blast
  show "filter (\<lambda>x. rule_rank x = k) (filter P (snd (get_rules w c))) =
      filter (\<lambda>x. rule_rank x = k) (filter P (snd (get_rules w' c)))"
  proof (cases "\<exists>g \<in> set (visit w (ruleMap c)). filter ?Q (advanced_of g) \<noteq> []")
    case True
    then obtain g r where g: "g \<in> set (visit w (ruleMap c))" "r \<in> set (advanced_of g)" "?Q r"
      by (auto simp: filter_empty_conv)
    have other: "filter ?Q (advanced_of g') = []"
      if g': "g' \<in> set (visit w (ruleMap c))" "g' \<noteq> g" for g'
    proof (rule ccontr)
      assume "filter ?Q (advanced_of g') \<noteq> []"
      then obtain r' where r': "r' \<in> set (advanced_of g')" "?Q r'" by (auto simp: filter_empty_conv)
      obtain h p h' p' where "rules_find (ruleMap c) h p = Some g" "rules_find (ruleMap c) h' p' = Some g'"
        using set_visit [OF wf] g g' by blast
      moreover from this have "r_host r = h \<and> r_path r = p" "r_host r' = h' \<and> r_path r' = p'"
        using g(2) r'(1) group_okD [OF wf, of r h p] group_okD [OF wf, of r' h' p']
        by (auto simp: rules_at_def advanced_of_def split: if_splits)
      moreover have "r_host r = r_host r' \<and> r_path r = r_path r'" using P [of r r'] g(3) r'(2) by simp
      ultimately show False using g'(2) by simp
    qed
    have "filter ?Q (concat (map advanced_of (visit v (ruleMap c)))) = filter ?Q (advanced_of g)"
      if "v = w \<or> v = w'" for v
      by (rule filter_single_group [OF d]) (use that g(1) other same in auto)
    then show ?thesis unfolding f by simp
  next
    case False
    have none: "filter ?Q (concat (map advanced_of gs)) = []"
      if "set gs = set (visit w (ruleMap c))" for gs
      using False that by (auto simp: filter_empty_conv)
    show ?thesis unfolding f using none [OF refl] none [OF same [symmetric]] by simp
  qed
qed (simp_all add: get_rules_snd filter_sort_key)

end
