(* ===== verification/Server_Data_Config.thy ===== *)
theory Server_Data_Config
  imports Route_Rule_Order
begin

text \<open>
  \<^verbatim>\<open>internal/bfeConfig/configs/serverDataConfig.go\<close>: the host table, the route table and the
  cluster configuration that BFE loads as \<^verbatim>\<open>server_data_conf\<close>, kept in step with the route rule
  cache.
\<close>

subsection \<open>BFE configuration data\<close>

record basic_rule_file =
  bf_hostname :: "string list"
  bf_path :: "string list"
  bf_cluster :: string

record advanced_rule_file =
  af_cond :: string
  af_cluster :: string

record route_table_file =
  rt_version :: string
  rt_basic :: "(string, basic_rule_file list) gomap"
  rt_product :: "(string, advanced_rule_file list) gomap"

record host_table_conf =
  ht_version :: string
  ht_default_product :: string
  ht_hosts :: "(string, string list) gomap"
  ht_host_tags :: "(string, string list) gomap"

datatype hash_strategy = ClientIdOnly

record gslb_basic_conf =
  gb_hash_strategy :: hash_strategy
  gb_hash_header :: string
  gb_session_sticky :: bool

record cluster_conf =
  cc_check_schem :: string
  cc_gslb_basic :: gslb_basic_conf

record bfe_cluster_conf =
  bc_version :: string
  bc_config :: "(string, cluster_conf) gomap"

record 'm server_data =
  hostTableVersion :: string
  routeTableVersion :: string
  bfeClusterConfVersion :: string
  routeRuleCache :: "'m route_cache"
  hostTableConf :: host_table_conf
  routeTableFile :: route_table_file
  bfeClusterConf :: bfe_cluster_conf
  sd_next_addr :: nat

text \<open>
  What the component is given: the multimap package, the option \<^verbatim>\<open>DefaultBackend\<close>, and BFE's
  check \<^verbatim>\<open>route_rule_conf.Convert\<close> of a route table (its error, if any).
\<close>

record 'm sd_env =
  sd_rules :: "('m, http_rule) multimap_ops"
  sd_default_backend :: string
  sd_convert :: "route_table_file \<Rightarrow> error option"

text \<open>What one call leaves to the run time: iteration orders and readings of the clock.\<close>

record sd_choice =
  ch_delete :: schedule
  ch_undo :: schedule
  ch_table :: order
  ch_conf :: order
  ch_table_now :: string
  ch_conf_now :: string

subsection \<open>Initial configuration\<close>

definition DefaultProduct :: string where
  "DefaultProduct = ''default''"

definition newHostTableConf :: "string \<Rightarrow> host_table_conf" where
  "newHostTableConf version =
     \<lparr>ht_version = version, ht_default_product = DefaultProduct,
      ht_hosts = [(DefaultProduct, [DefaultProduct])],
      ht_host_tags = [(DefaultProduct, [DefaultProduct])]\<rparr>"

definition newRouteTableConfFile :: "string \<Rightarrow> route_table_file" where
  "newRouteTableConfFile version =
     \<lparr>rt_version = version, rt_basic = [(DefaultProduct, [])], rt_product = [(DefaultProduct, [])]\<rparr>"

definition newBfeClusterConf :: "string \<Rightarrow> bfe_cluster_conf" where
  "newBfeClusterConf version = \<lparr>bc_version = version, bc_config = []\<rparr>"

definition NewServerDataConfig :: "'m sd_env \<Rightarrow> string \<Rightarrow> 'm server_data" where
  "NewServerDataConfig E version =
     \<lparr>hostTableVersion = [], routeTableVersion = [], bfeClusterConfVersion = [],
      routeRuleCache = NewRouteRuleCache (sd_rules E),
      hostTableConf = newHostTableConf version,
      routeTableFile = newRouteTableConfFile version,
      bfeClusterConf = newBfeClusterConf version,
      sd_next_addr = 0\<rparr>"

subsection \<open>Hosts, paths and conditions\<close>

definition checkHost :: "string \<Rightarrow> error option" where
  "checkHost host =
     (if count_list host (CHR ''*'') > 1 \<or>
         (count_list host (CHR ''*'') = 1 \<and> \<not> has_prefix host ''*.'')
      then Some (Illegal_Host host) else None)"

definition checkPath :: "string \<Rightarrow> error option" where
  "checkPath path =
     (if length path = 0 then Some Path_Not_Set
      else if CHR ''*'' \<in> set path then Some (Illegal_Path path)
      else None)"

definition backslash :: string where
  "backslash = [CHR 0x5C]"

definition hostPrimitive :: "string \<Rightarrow> string" where
  "hostPrimitive host =
     (if length host = 0 \<or> host = ''*'' then []
      else if has_prefix host ''*.'' then
        ''req_host_regmatch('' @
          quoted (''(?i)^[^'' @ backslash @ ''.]+'' @
                  replace_all (CHR ''.'') (backslash @ ''.'') (drop 2 host)) @ '')''
      else ''req_host_in('' @ quoted host @ '')'')"

definition pathPrimitive :: "string \<Rightarrow> string" where
  "pathPrimitive path =
     (if length path = 0 \<or> path = ''*'' then []
      else if last path = CHR ''*'' then
        ''req_path_element_prefix_in('' @ quoted (butlast path) @ '', false)''
      else ''req_path_in('' @ quoted path @ '', false)'')"

definition buildCondition :: "string \<Rightarrow> string \<Rightarrow> annots \<Rightarrow> error + string" where
  "buildCondition host path a =
     (let statement0 = (if length (hostPrimitive host) > 0 then [hostPrimitive host] else []);
          statement1 = statement0 @
            (if length (pathPrimitive path) > 0 then [pathPrimitive path] else [])
      in case GetRouteExpression a of
           Inl e \<Rightarrow> Inl e
         | Inr primitive \<Rightarrow>
             Inr (join ''&&'' (statement1 @ (if length primitive > 0 then [primitive] else []))))"

subsection \<open>Rules of an ingress\<close>

definition addRule ::
  "'m sd_env \<Rightarrow> ingress \<Rightarrow> string \<Rightarrow> http_ingress_path \<Rightarrow> 'm server_data \<Rightarrow>
     (error option \<times> 'm server_data) option" where
  "addRule E ing host httpPath s =
     (case checkHost host of
        Some e \<Rightarrow> Some (Some e, s)
      | None \<Rightarrow>
          (let host = (if length host = 0 then ''*'' else host)
           in case checkPath (hp_path httpPath) of
                Some e \<Rightarrow> Some (Some e, s)
              | None \<Rightarrow>
                  (let path = (if hp_type httpPath = None \<or> hp_type httpPath = Some PathTypePrefix \<or>
                                  hp_type httpPath = Some PathTypeImplementationSpecific
                               then hp_path httpPath @ ''*'' else hp_path httpPath);
                       ingressName = NamespacedName (ing_namespace ing) (ing_name ing)
                   in case ClusterName ingressName (ib_service (hp_backend httpPath)) of
                        None \<Rightarrow> None
                      | Some clusterName \<Rightarrow>
                          (case PutHttpRule (sd_rules E)
                                  (NewHttpRule (sd_next_addr s) ingressName host path (ing_annots ing)
                                     clusterName (ing_created ing)) (routeRuleCache s) of
                             (err, cache) \<Rightarrow>
                               Some (err, s\<lparr>routeRuleCache := cache,
                                            sd_next_addr := Suc (sd_next_addr s)\<rparr>)))))"

definition updateCache ::
  "'m sd_env \<Rightarrow> ingress \<Rightarrow> 'm server_data \<Rightarrow> (error option \<times> 'm server_data) option" where
  "updateCache E ing s =
     each_go (\<lambda>rule s.
        case ir_http rule of
          None \<Rightarrow> Some (None, s)
        | Some paths \<Rightarrow> each_go (\<lambda>p s. addRule E ing (ir_host rule) p s) paths s)
      (ing_rules ing) s"

subsection \<open>Route table and cluster configuration\<close>

definition basic_file :: "http_rule \<Rightarrow> basic_rule_file" where
  "basic_file rule =
     \<lparr>bf_hostname = (if length (r_host rule) > 0 \<and> r_host rule \<noteq> ''*'' then [r_host rule] else []),
      bf_path = (if length (r_path rule) > 0 then [r_path rule] else []),
      bf_cluster = r_cluster rule\<rparr>"

fun advanced_files :: "http_rule list \<Rightarrow> error + advanced_rule_file list" where
  "advanced_files [] = Inr []"
| "advanced_files (rule # rules) =
     (case buildCondition (r_host rule) (r_path rule) (r_annots rule) of
        Inl e \<Rightarrow> Inl e
      | Inr condition \<Rightarrow>
          (case advanced_files rules of
             Inl e \<Rightarrow> Inl e
           | Inr files \<Rightarrow> Inr (\<lparr>af_cond = condition, af_cluster = r_cluster rule\<rparr> # files)))"

definition default_file :: "'m sd_env \<Rightarrow> http_rule list \<Rightarrow> http_rule list \<Rightarrow> advanced_rule_file list" where
  "default_file E basicRules advancedRules =
     (if length (sd_default_backend E) > 0 \<and> (length basicRules > 0 \<or> length advancedRules > 0)
      then [\<lparr>af_cond = ''default_t()'', af_cluster = DefaultClusterName (sd_default_backend E)\<rparr>]
      else [])"

definition updateRouteTable ::
  "'m sd_env \<Rightarrow> order \<Rightarrow> string \<Rightarrow> 'm server_data \<Rightarrow> error option \<times> 'm server_data" where
  "updateRouteTable E w now s =
     (case GetHttpRules w (routeRuleCache s) of
        (basicRules, advancedRules) \<Rightarrow>
          (case advanced_files advancedRules of
             Inl e \<Rightarrow> (Some e, s)
           | Inr files \<Rightarrow>
               (let table = (newRouteTableConfFile now)
                      \<lparr>rt_basic := [(DefaultProduct, map basic_file basicRules)],
                       rt_product := [(DefaultProduct, files @ default_file E basicRules advancedRules)]\<rparr>
                in case sd_convert E table of
                     Some e \<Rightarrow> (Some (Route_Table_Illegal e), s)
                   | None \<Rightarrow> (None, s\<lparr>routeTableFile := table\<rparr>))))"

definition newCheckConf :: string where
  "newCheckConf = ''tcp''"

definition newGslbBasicConf :: gslb_basic_conf where
  "newGslbBasicConf =
     \<lparr>gb_hash_strategy = ClientIdOnly, gb_hash_header = ''bfe-non-existence'',
      gb_session_sticky = False\<rparr>"

definition new_cluster_conf :: cluster_conf where
  "new_cluster_conf = \<lparr>cc_check_schem = newCheckConf, cc_gslb_basic = newGslbBasicConf\<rparr>"

definition updateBfeClusterConf :: "'m sd_env \<Rightarrow> order \<Rightarrow> string \<Rightarrow> 'm server_data \<Rightarrow> 'm server_data" where
  "updateBfeClusterConf E w now s =
     (case GetHttpRules w (routeRuleCache s) of
        (basicRules, advancedRules) \<Rightarrow>
          (let store = (\<lambda>r m. mput (r_cluster r) new_cluster_conf m);
               m0 = fold (\<lambda>r m. if r_cluster r = AdvancedMode then m else store r m) basicRules [];
               m1 = fold store advancedRules m0;
               m2 = (if length (sd_default_backend E) > 0 \<and>
                        (length basicRules > 0 \<or> length advancedRules > 0)
                     then mput (DefaultClusterName (sd_default_backend E)) new_cluster_conf m1 else m1)
           in s\<lparr>bfeClusterConf := (newBfeClusterConf now)\<lparr>bc_config := m2\<rparr>\<rparr>))"

subsection \<open>Updating and deleting an ingress\<close>

definition sd_delete_rules :: "'m sd_env \<Rightarrow> schedule \<Rightarrow> string \<Rightarrow> 'm server_data \<Rightarrow> 'm server_data" where
  "sd_delete_rules E sch ingressName s =
     s\<lparr>routeRuleCache := DeleteHttpRulesByIngress (sd_rules E) sch ingressName (routeRuleCache s)\<rparr>"

definition sd_UpdateIngress ::
  "'m sd_env \<Rightarrow> sd_choice \<Rightarrow> ingress \<Rightarrow> 'm server_data \<Rightarrow> (error option \<times> 'm server_data) option" where
  "sd_UpdateIngress E ch ing s =
     (if length (ing_rules ing) = 0 then Some (None, s)
      else
        (let ingressName = NamespacedName (ing_namespace ing) (ing_name ing);
             s1 = (if ContainsIngress (sd_rules E) ingressName (routeRuleCache s)
                   then sd_delete_rules E (ch_delete ch) ingressName s else s)
         in case updateCache E ing s1 of
              None \<Rightarrow> None
            | Some (Some e, s2) \<Rightarrow> Some (Some e, sd_delete_rules E (ch_undo ch) ingressName s2)
            | Some (None, s2) \<Rightarrow>
                (case updateRouteTable E (ch_table ch) (ch_table_now ch) s2 of
                   (Some e, s3) \<Rightarrow> Some (Some e, sd_delete_rules E (ch_undo ch) ingressName s3)
                 | (None, s3) \<Rightarrow>
                     Some (None, updateBfeClusterConf E (ch_conf ch) (ch_conf_now ch) s3))))"

definition sd_DeleteIngress ::
  "'m sd_env \<Rightarrow> sd_choice \<Rightarrow> string \<Rightarrow> string \<Rightarrow> 'm server_data \<Rightarrow> 'm server_data" where
  "sd_DeleteIngress E ch namespace name s =
     (let ingressName = NamespacedName namespace name
      in if \<not> ContainsIngress (sd_rules E) ingressName (routeRuleCache s) then s
         else (let s1 = sd_delete_rules E (ch_delete ch) ingressName s;
                   s2 = snd (updateRouteTable E (ch_table ch) (ch_table_now ch) s1)
               in updateBfeClusterConf E (ch_conf ch) (ch_conf_now ch) s2))"

end
