(* ===== verification/Cluster_Config.thy ===== *)
theory Cluster_Config
  imports Util_Name Multimap
begin

text \<open>
  \<^verbatim>\<open>internal/bfeConfig/configs/clusterConfig.go\<close>: the clusters of every ingress, their
  sub-clusters (one per service) with the endpoints of each, and the weights BFE balances
  them by.
\<close>

subsection \<open>State\<close>

record backend_conf =
  be_name :: string
  be_addr :: string
  be_port :: int
  be_weight :: int

text \<open>A sub-cluster is a slice of backends, which may be nil (\<open>None\<close>).\<close>

type_synonym sub_cluster = "backend_conf list option"
type_synonym cluster_backend = "(string, sub_cluster) gomap"
type_synonym gslb_cluster = "(string, int) gomap"

record gslb_conf =
  gc_hostname :: string
  gc_ts :: string
  gc_clusters :: "(string, gslb_cluster) gomap"

record cluster_table_conf =
  ct_version :: string
  ct_config :: "(string, cluster_backend) gomap"

record 'm cluster_state =
  gslbVersion :: string
  clusterTableVersion :: string
  ingress2Cluster :: 'm
  service2Cluster :: 'm
  gslbConf :: gslb_conf
  clusterTableConf :: cluster_table_conf

text \<open>
  The multimap package, the option \<^verbatim>\<open>DefaultBackend\<close> and BFE's check
  \<^verbatim>\<open>cluster_table_conf.ClusterTableConfCheck\<close>.
\<close>

record 'm cl_env =
  cl_strs :: "('m, string) multimap_ops"
  cl_default_backend :: string
  cl_check :: "cluster_table_conf \<Rightarrow> error option"

definition defaultWeight :: int where
  "defaultWeight = 10"

definition NewClusterConfig :: "'m cl_env \<Rightarrow> string \<Rightarrow> 'm cluster_state" where
  "NewClusterConfig E version =
     \<lparr>gslbVersion = [], clusterTableVersion = [],
      ingress2Cluster = mm_new (cl_strs E), service2Cluster = mm_new (cl_strs E),
      gslbConf = \<lparr>gc_hostname = ''bfe-ingress-controller'', gc_ts = version, gc_clusters = []\<rparr>,
      clusterTableConf = \<lparr>ct_version = version, ct_config = []\<rparr>\<rparr>"

definition cl_setVersion :: "string \<Rightarrow> 'm cluster_state \<Rightarrow> 'm cluster_state" where
  "cl_setVersion now c =
     c\<lparr>gslbConf := (gslbConf c)\<lparr>gc_ts := now\<rparr>,
       clusterTableConf := (clusterTableConf c)\<lparr>ct_version := now\<rparr>\<rparr>"

abbreviation table :: "'m cluster_state \<Rightarrow> (string, cluster_backend) gomap" where
  "table c \<equiv> ct_config (clusterTableConf c)"

abbreviation gslb :: "'m cluster_state \<Rightarrow> (string, gslb_cluster) gomap" where
  "gslb c \<equiv> gc_clusters (gslbConf c)"

definition set_table :: "(string, cluster_backend) gomap \<Rightarrow> 'm cluster_state \<Rightarrow> 'm cluster_state" where
  "set_table m c = c\<lparr>clusterTableConf := (clusterTableConf c)\<lparr>ct_config := m\<rparr>\<rparr>"

definition set_gslb :: "(string, gslb_cluster) gomap \<Rightarrow> 'm cluster_state \<Rightarrow> 'm cluster_state" where
  "set_gslb m c = c\<lparr>gslbConf := (gslbConf c)\<lparr>gc_clusters := m\<rparr>\<rparr>"

subsection \<open>Ports and endpoints of a service\<close>

text \<open>The test that skips a port of the service in \<^verbatim>\<open>getTargetPort\<close>.\<close>

definition port_skipped :: "service_backend_port \<Rightarrow> service_port \<Rightarrow> bool" where
  "port_skipped backendPort p \<longleftrightarrow>
     (bp_number backendPort > 0 \<and> bp_number backendPort \<noteq> sp_port p) \<or>
     (length (bp_name backendPort) > 0 \<and> bp_name backendPort \<noteq> sp_name p)"

definition target_of :: "service_port \<Rightarrow> int_or_string" where
  "target_of p =
     (if length (sp_name p) > 0 then \<lparr>ios_type = IosString, ios_int = 0, ios_str = sp_name p\<rparr>
      else if ios_int (sp_target p) > 0 then
        \<lparr>ios_type = IosInt, ios_int = ios_int (sp_target p), ios_str = []\<rparr>
      else zero_ios)"

fun first_target :: "service_backend_port \<Rightarrow> service_port list \<Rightarrow> int_or_string" where
  "first_target b [] = zero_ios"
| "first_target b (p # ps) = (if port_skipped b p then first_target b ps else target_of p)"

definition getTargetPort :: "service_backend_port \<Rightarrow> service option \<Rightarrow> int_or_string" where
  "getTargetPort backendPort svc =
     (case svc of None \<Rightarrow> zero_ios | Some s \<Rightarrow> first_target backendPort (svc_ports s))"

definition newBackendConf :: "string \<Rightarrow> int \<Rightarrow> int \<Rightarrow> backend_conf" where
  "newBackendConf ip port weight = \<lparr>be_name = ip, be_addr = ip, be_port = port, be_weight = weight\<rparr>"

definition no_port :: "int_or_string \<Rightarrow> bool" where
  "no_port port \<longleftrightarrow> ios_int port = 0 \<and> length (ios_str port) = 0"

text \<open>Without a port, the first address of the first subset with its first port.\<close>

definition first_instance :: "endpoints \<Rightarrow> backend_conf list" where
  "first_instance ep =
     (case ep_subsets ep of
        [] \<Rightarrow> []
      | s # _ \<Rightarrow>
          (case (es_ports s, es_addresses s) of
             (p # _, a # _) \<Rightarrow> [newBackendConf a (ep_port p) defaultWeight]
           | _ \<Rightarrow> []))"

definition port_matches :: "int_or_string \<Rightarrow> endpoint_port \<Rightarrow> bool" where
  "port_matches port p \<longleftrightarrow> ios_int port = ep_port p \<or> ios_str port = ep_name p"

definition newSubClusterBackend :: "endpoints option \<Rightarrow> int_or_string \<Rightarrow> sub_cluster" where
  "newSubClusterBackend ep port =
     (case ep of
        None \<Rightarrow> None
      | Some e \<Rightarrow>
          if no_port port then Some (first_instance e)
          else Some (concat (map (\<lambda>subset.
                 concat (map (\<lambda>p.
                     if port_matches port p
                     then map (\<lambda>addr. newBackendConf addr (ep_port p) defaultWeight) (es_addresses subset)
                     else []) (es_ports subset))) (ep_subsets e))))"

subsection \<open>Clusters of a backend\<close>

definition newClusterBackend ::
  "string \<Rightarrow> ingress_service_backend option \<Rightarrow> Balance option \<Rightarrow>
     (string, service) gomap \<Rightarrow> (string, endpoints) gomap \<Rightarrow> cluster_backend" where
  "newClusterBackend namespace backend balance services eps =
     (case backend of
        None \<Rightarrow> []
      | Some b \<Rightarrow>
          (let sub = (\<lambda>name m.
                 let serviceName = NamespacedName namespace name;
                     port = getTargetPort (sb_port b) (mget services serviceName)
                 in mput serviceName (newSubClusterBackend (mget eps serviceName) port) m)
           in case bal_find balance (sb_name b) of
                None \<Rightarrow> sub (sb_name b) []
              | Some weights \<Rightarrow> fold (\<lambda>(name, weight). sub name) weights []))"

definition newGslbClusterConf :: "string \<Rightarrow> string \<Rightarrow> Balance option \<Rightarrow> gslb_cluster" where
  "newGslbClusterConf namespace service balance =
     (case bal_find balance service of
        None \<Rightarrow> mput (NamespacedName namespace service) defaultWeight []
      | Some weights \<Rightarrow> fold (\<lambda>(name, weight). mput (NamespacedName namespace name) weight) weights [])"

subsection \<open>The default backend\<close>

definition addDefautBackend :: "'m cl_env \<Rightarrow> endpoints option \<Rightarrow> 'm cluster_state \<Rightarrow> 'm cluster_state" where
  "addDefautBackend E ep c =
     (let name = DefaultClusterName (cl_default_backend E);
          serviceName = cl_default_backend E
      in if ep = None then c
         else if mget (table c) name \<noteq> None then c
         else (case newSubClusterBackend ep zero_ios of
                 None \<Rightarrow> c
               | Some instanceList \<Rightarrow>
                   if length instanceList = 0 then c
                   else (let c1 = set_table (mput name [(serviceName, Some instanceList)] (table c)) c;
                             c2 = set_gslb (mput name [(serviceName, defaultWeight)] (gslb c1)) c1
                         in c2\<lparr>service2Cluster :=
                                 mm_put (cl_strs E) (service2Cluster c2) serviceName name\<rparr>)))"

definition delDefautBackend :: "'m cl_env \<Rightarrow> 'm cluster_state \<Rightarrow> 'm cluster_state" where
  "delDefautBackend E c =
     (let name = DefaultClusterName (cl_default_backend E);
          c1 = c\<lparr>service2Cluster :=
                   mm_remove (cl_strs E) (service2Cluster c) (cl_default_backend E) name\<rparr>;
          c2 = set_table (mdel name (table c1)) c1
      in set_gslb (mdel name (gslb c2)) c2)"

subsection \<open>Ingress events\<close>

definition delete_cluster :: "'m cl_env \<Rightarrow> string \<Rightarrow> 'm cluster_state \<Rightarrow> 'm cluster_state" where
  "delete_cluster E clusterName c =
     (let services = map fst (mget_or [] (table c) clusterName);
          c1 = c\<lparr>service2Cluster :=
                   fold (\<lambda>serviceName m. mm_remove (cl_strs E) m serviceName clusterName) services
                     (service2Cluster c)\<rparr>;
          c2 = set_table (mdel clusterName (table c1)) c1
      in set_gslb (mdel clusterName (gslb c2)) c2)"

definition cl_DeleteIngress :: "'m cl_env \<Rightarrow> string \<Rightarrow> string \<Rightarrow> string \<Rightarrow> 'm cluster_state \<Rightarrow> 'm cluster_state" where
  "cl_DeleteIngress E now namespace name c =
     (let ingressName = NamespacedName namespace name
      in case mm_get (cl_strs E) (ingress2Cluster c) ingressName of
           (clusters, ok) \<Rightarrow>
             if \<not> ok then c
             else (let c1 = fold (delete_cluster E) clusters c;
                       c2 = c1\<lparr>ingress2Cluster :=
                                 mm_remove_all (cl_strs E) (ingress2Cluster c1) ingressName\<rparr>;
                       c3 = (if length (cl_default_backend E) > 0 \<and>
                                mm_empty (cl_strs E) (ingress2Cluster c2)
                             then delDefautBackend E c2 else c2)
                   in cl_setVersion now c3))"

text \<open>The body of the inner loop of \<^verbatim>\<open>UpdateIngress\<close>: one path, one cluster.\<close>

definition add_path ::
  "'m cl_env \<Rightarrow> ingress \<Rightarrow> Balance option \<Rightarrow> (string, service) gomap \<Rightarrow> (string, endpoints) gomap \<Rightarrow>
     http_ingress_path \<Rightarrow> 'm cluster_state \<Rightarrow> 'm cluster_state option" where
  "add_path E ing balance services eps path c =
     (let ingressName = NamespacedName (ing_namespace ing) (ing_name ing);
          backend = ib_service (hp_backend path)
      in case (ClusterName ingressName backend, backend) of
           (Some clusterName, Some b) \<Rightarrow>
             (let c1 = set_table (mput clusterName
                        (newClusterBackend (ing_namespace ing) backend balance services eps)
                        (table c)) c;
                  weights = newGslbClusterConf (ing_namespace ing) (sb_name b) balance;
                  c2 = set_gslb (mput clusterName weights (gslb c1)) c1
              in Some (c2\<lparr>ingress2Cluster :=
                             mm_put (cl_strs E) (ingress2Cluster c2) ingressName clusterName,
                          service2Cluster :=
                             fold (\<lambda>(service, weight) m. mm_put (cl_strs E) m service clusterName)
                               weights (service2Cluster c2)\<rparr>))
         | _ \<Rightarrow> None)"

text \<open>A rule without \<^verbatim>\<open>HTTP\<close> is a nil dereference.\<close>

definition add_rule_paths ::
  "'m cl_env \<Rightarrow> ingress \<Rightarrow> Balance option \<Rightarrow> (string, service) gomap \<Rightarrow> (string, endpoints) gomap \<Rightarrow>
     ingress_rule \<Rightarrow> 'm cluster_state \<Rightarrow> (error option \<times> 'm cluster_state) option" where
  "add_rule_paths E ing balance services eps rule c =
     (case ir_http rule of
        None \<Rightarrow> None
      | Some paths \<Rightarrow>
          each_go (\<lambda>p c. map_option (Pair None) (add_path E ing balance services eps p c)) paths c)"

definition cl_UpdateIngress ::
  "'m cl_env \<Rightarrow> order \<Rightarrow> string \<Rightarrow> ingress \<Rightarrow> (string, service) gomap \<Rightarrow> (string, endpoints) gomap \<Rightarrow>
     'm cluster_state \<Rightarrow> (error option \<times> 'm cluster_state) option" where
  "cl_UpdateIngress E w now ing services eps c =
     (if length (ing_rules ing) = 0 then Some (None, c)
      else
        (let balance = (case GetBalance w (ing_annots ing) of Inl _ \<Rightarrow> None | Inr b \<Rightarrow> b)
         in case each_go (add_rule_paths E ing balance services eps) (ing_rules ing) c of
              None \<Rightarrow> None
            | Some (_, c1) \<Rightarrow>
                (let c2 = (if length (cl_default_backend E) > 0
                           then addDefautBackend E (mget eps (cl_default_backend E)) c1 else c1)
                 in case cl_check E (clusterTableConf c2) of
                      Some e \<Rightarrow>
                        Some (Some e, cl_DeleteIngress E now (ing_namespace ing) (ing_name ing) c2)
                    | None \<Rightarrow> Some (None, cl_setVersion now c2))))"

subsection \<open>Service events\<close>

definition delete_service_in :: "string \<Rightarrow> string \<Rightarrow> 'm cluster_state \<Rightarrow> 'm cluster_state" where
  "delete_service_in serviceName name c =
     (let c1 = (case mget (table c) name of
                  None \<Rightarrow> c
                | Some subs \<Rightarrow> set_table (mput name (mdel serviceName subs) (table c)) c);
          c2 = (case mget (gslb c1) name of
                  None \<Rightarrow> c1
                | Some ws \<Rightarrow> set_gslb (mput name (mdel serviceName ws) (gslb c1)) c1)
      in if length (mget_or [] (gslb c2) name) = 0 then set_gslb (mdel name (gslb c2)) c2 else c2)"

definition cl_DeleteService :: "'m cl_env \<Rightarrow> string \<Rightarrow> string \<Rightarrow> string \<Rightarrow> 'm cluster_state \<Rightarrow> 'm cluster_state" where
  "cl_DeleteService E now namespace name c =
     (let serviceName = NamespacedName namespace name;
          clusters = fst (mm_get (cl_strs E) (service2Cluster c) serviceName)
      in cl_setVersion now (fold (delete_service_in serviceName) clusters c))"

text \<open>Storing into the sub-clusters of an unknown cluster is a write to a nil map.\<close>

definition update_service_in ::
  "'m cl_env \<Rightarrow> string \<Rightarrow> service \<Rightarrow> endpoints option \<Rightarrow> string \<Rightarrow> 'm cluster_state \<Rightarrow>
     (error option \<times> 'm cluster_state) option" where
  "update_service_in E now svc ep name c =
     (let serviceName = NamespacedName (svc_namespace svc) (svc_name svc);
          targetPort = getTargetPort (ParsePort name) (Some svc)
      in if no_port targetPort \<and> serviceName \<noteq> cl_default_backend E then
           Some (Some (Port_Not_In_Service name),
                 cl_DeleteService E now (svc_namespace svc) (svc_name svc) c)
         else (case mget (table c) name of
                 None \<Rightarrow> None
               | Some subs \<Rightarrow>
                   (let c1 = set_table (mput name
                               (mput serviceName (newSubClusterBackend ep targetPort) subs) (table c)) c
                    in Some (None, set_gslb (mput name
                               (newGslbClusterConf (svc_namespace svc) (svc_name svc) None) (gslb c1)) c1))))"

definition cl_UpdateService ::
  "'m cl_env \<Rightarrow> schedule \<Rightarrow> string \<Rightarrow> service \<Rightarrow> endpoints option \<Rightarrow> 'm cluster_state \<Rightarrow>
     (error option \<times> 'm cluster_state) option" where
  "cl_UpdateService E sch now svc ep c =
     (let serviceName = NamespacedName (svc_namespace svc) (svc_name svc)
      in case mm_get (cl_strs E) (service2Cluster c) serviceName of
           (clusters, ok) \<Rightarrow>
             if \<not> ok then Some (None, c)
             else (case each_go (update_service_in E now svc ep) (shuffle sch clusters) c of
                     None \<Rightarrow> None
                   | Some (Some e, c1) \<Rightarrow> Some (Some e, c1)
                   | Some (None, c1) \<Rightarrow> Some (None, cl_setVersion now c1)))"

end
