(* ===== verification/Util_IO.thy ===== *)
theory Util_IO
  imports Ctl_Error
begin

text \<open>
  \<^verbatim>\<open>internal/bfeConfig/util/io.go\<close>: writing configuration files and asking BFE to load them.
  What the outside does (the file system, the HTTP server of BFE) is the argument \<open>io\<close>; what
  the controller does to the outside is the list of effects of a call, in order.
\<close>

datatype effect =
    Make_Dir string
  | Write_File string string
  | Remove_File string
  | Http_Get string

text \<open>
  The answers of the outside, each of which may depend on what the controller has done so far
  (the trace): is the directory missing (\<^verbatim>\<open>os.Stat\<close>), does a write fail, what does a GET return:
  an error, or a status and the body (or the error of reading it). A failing \<^verbatim>\<open>MkdirAll\<close> or
  \<^verbatim>\<open>Remove\<close> is ignored by the code, so its answer is not needed.
\<close>

type_synonym trace = "effect list"

record io_env =
  io_config_path :: string
  io_reload_url :: string
  io_missing :: "trace \<Rightarrow> string \<Rightarrow> bool"
  io_write :: "trace \<Rightarrow> string \<Rightarrow> string \<Rightarrow> error option"
  io_get :: "trace \<Rightarrow> string \<Rightarrow> error + int \<times> (error + string)"

text \<open>An operation extends the trace and may fail.\<close>

type_synonym io_op = "trace \<Rightarrow> error option \<times> trace"

subsection \<open>filepath.Dir\<close>

text \<open>\<^verbatim>\<open>filepath.Clean\<close> works on the elements between slashes; the output is kept reversed.\<close>

fun clean_elems :: "bool \<Rightarrow> string list \<Rightarrow> string list \<Rightarrow> string list" where
  "clean_elems rooted out [] = rev out"
| "clean_elems rooted out (e # es) =
     (if e = [] \<or> e = ''.'' then clean_elems rooted out es
      else if e = ''..'' then
        (case out of
           [] \<Rightarrow> clean_elems rooted (if rooted then [] else [e]) es
         | o1 # out' \<Rightarrow> clean_elems rooted (if o1 = ''..'' then e # out else out') es)
      else clean_elems rooted (e # out) es)"

definition path_clean :: "string \<Rightarrow> string" where
  "path_clean p =
     (if p = [] then ''.''
      else (let rooted = has_prefix p ''/'';
                body = join ''/'' (clean_elems rooted [] (split_on (CHR ''/'') p))
            in if rooted then ''/'' @ body else if body = [] then ''.'' else body))"

definition path_dir :: "string \<Rightarrow> string" where
  "path_dir p =
     (case last_index_of (CHR ''/'') p of
        None \<Rightarrow> path_clean []
      | Some i \<Rightarrow> path_clean (take (i + 1) p))"

subsection \<open>Operations\<close>

definition DumpFile :: "io_env \<Rightarrow> string \<Rightarrow> string \<Rightarrow> io_op" where
  "DumpFile io filename data h =
     (let name = io_config_path io @ filename;
          filePath = path_dir name;
          h1 = (if io_missing io h filePath then h @ [Make_Dir filePath] else h)
      in (io_write io h1 name data, h1 @ [Write_File name data]))"

text \<open>
  The JSON text of a configuration object depends on the field tags of BFE's types: \<open>marshal\<close>
  gives it, or the error of \<^verbatim>\<open>json.MarshalIndent\<close>.
\<close>

definition DumpBfeConf :: "io_env \<Rightarrow> ('obj \<Rightarrow> error + string) \<Rightarrow> string \<Rightarrow> 'obj \<Rightarrow> io_op" where
  "DumpBfeConf io marshal configFile object h =
     (case marshal object of
        Inl e \<Rightarrow> (Some (Dump_Failed ''config json marshal err '' e), h)
      | Inr buf \<Rightarrow> DumpFile io configFile buf h)"

definition DeleteFile :: "io_env \<Rightarrow> string \<Rightarrow> effect list" where
  "DeleteFile io filename = [Remove_File (io_config_path io @ filename)]"

definition ReloadBfe :: "io_env \<Rightarrow> string \<Rightarrow> io_op" where
  "ReloadBfe io configName h =
     (let url = io_reload_url io @ configName
      in (case io_get io h url of
            Inl e \<Rightarrow> Some e
          | Inr (status, body) \<Rightarrow>
              if status = 200 then None
              else (case body of
                      Inl e \<Rightarrow> Some e
                    | Inr text \<Rightarrow> Some (Reload_Refused (take 1024 text))),
          h @ [Http_Get url]))"

subsection \<open>Sequences of operations\<close>

text \<open>An error ends the sequence; \<open>io_when\<close> is a step under a condition.\<close>

definition io_then :: "io_op \<Rightarrow> io_op \<Rightarrow> io_op" where
  "io_then a b h = (case a h of (Some e, h1) \<Rightarrow> (Some e, h1) | (None, h1) \<Rightarrow> b h1)"

definition io_skip :: io_op where
  "io_skip h = (None, h)"

definition io_when :: "bool \<Rightarrow> io_op \<Rightarrow> io_op" where
  "io_when c a = (if c then a else io_skip)"

definition wrap_error :: "string \<Rightarrow> io_op \<Rightarrow> io_op" where
  "wrap_error what a h = (case a h of (err, h1) \<Rightarrow> (map_option (Dump_Failed what) err, h1))"

fun io_seq :: "io_op list \<Rightarrow> io_op" where
  "io_seq [] = io_skip"
| "io_seq (a # as) = io_then a (io_seq as)"

text \<open>The files a step writes; every operation only extends the trace.\<close>

definition extends :: "io_op \<Rightarrow> bool" where
  "extends a \<longleftrightarrow> (\<forall>h. \<exists>es. snd (a h) = h @ es)"

named_theorems io_extends

lemma extends_skip [io_extends]: "extends io_skip"
  by (simp add: extends_def io_skip_def)

lemma extends_when [io_extends]: "extends a \<Longrightarrow> extends (io_when c a)"
  by (simp add: io_when_def extends_skip)

lemma extends_wrap [io_extends]: "extends a \<Longrightarrow> extends (wrap_error what a)"
  by (simp add: extends_def wrap_error_def case_prod_beta)

lemma extends_DumpFile [io_extends]: "extends (DumpFile io f d)"
  by (simp add: extends_def DumpFile_def Let_def)

lemma extends_DumpBfeConf [io_extends]: "extends (DumpBfeConf io m f obj)"
  using extends_DumpFile
  by (simp add: extends_def DumpBfeConf_def split: sum.splits)

lemma extends_ReloadBfe [io_extends]: "extends (ReloadBfe io n)"
  by (simp add: extends_def ReloadBfe_def Let_def)

lemma extends_then [io_extends]:
  assumes "extends a" and "extends b"
  shows "extends (io_then a b)"
  unfolding extends_def
proof
  fix h
  obtain es where a: "snd (a h) = h @ es" using assms(1) by (auto simp: extends_def)
  obtain es' where b: "snd (b (h @ es)) = (h @ es) @ es'" using assms(2) unfolding extends_def by blast
  show "\<exists>es. snd (io_then a b h) = h @ es"
    using a b by (cases "a h") (auto simp: io_then_def split: option.splits)
qed

lemma extends_seq [io_extends]: "(\<And>a. a \<in> set as \<Longrightarrow> extends a) \<Longrightarrow> extends (io_seq as)"
  by (induction as) (simp_all add: extends_skip extends_then)

lemma io_then_None:
  "io_then a b h = (None, h') \<longleftrightarrow> (\<exists>h1. a h = (None, h1) \<and> b h1 = (None, h'))"
  by (auto simp: io_then_def split: prod.splits option.splits)

lemma extendsE:
  assumes "extends a" and "a h = (r, h')"
  obtains es where "h' = h @ es"
  using assms by (metis extends_def snd_conv)

end
