(* ===== verification/TLS_Config.thy ===== *)
theory TLS_Config
  imports Util_Name Multimap Util_IO
begin

text \<open>
  \<^verbatim>\<open>internal/bfeConfig/configs/TLSConfig.go\<close>: the certificates of the secrets that ingresses
  name, and the certificate table BFE loads.
\<close>

subsection \<open>State\<close>

record cert_conf =
  cert_pem :: string
  key_pem :: string

record server_cert_conf =
  sc_cert_file :: string
  sc_key_file :: string
  sc_ocsp_file :: string

record bfe_server_cert_conf =
  bs_version :: string
  bs_default :: string
  bs_certs :: "(string, server_cert_conf) gomap"

record bfe_tls_rule_conf =
  tr_version :: string
  tr_config :: "(string, unit) gomap"
  tr_next_protos :: "string list"
  tr_chacha20 :: bool
  tr_dynamic_record :: bool

record 'm tls_state =
  serverCertVersion :: string
  tlsRuleVersion :: string
  ingress2secret :: 'm
  serverCertConf :: bfe_server_cert_conf
  tlsRuleConf :: bfe_tls_rule_conf
  certs :: "(string, cert_conf) gomap"

text \<open>The multimap package and the check \<^verbatim>\<open>bfe_tls.X509KeyPair\<close> of a certificate and its key.\<close>

record 'm tls_env =
  tls_strs :: "('m, string) multimap_ops"
  tls_key_pair :: "string \<Rightarrow> string \<Rightarrow> error option"

definition DefaultCNName :: string where
  "DefaultCNName = ''example''"

definition CertKeyFilePath :: string where
  "CertKeyFilePath = ''tls_conf/certs/''"

definition SecretCrt :: string where
  "SecretCrt = ''tls.crt''"

definition SecretKey :: string where
  "SecretKey = ''tls.key''"

definition getCertFilePath :: "string \<Rightarrow> string" where
  "getCertFilePath name = CertKeyFilePath @ name @ ''.crt''"

definition getKeyFilePath :: "string \<Rightarrow> string" where
  "getKeyFilePath name = CertKeyFilePath @ name @ ''.key''"

definition cert_files :: "string \<Rightarrow> server_cert_conf" where
  "cert_files name =
     \<lparr>sc_cert_file = getCertFilePath name, sc_key_file = getKeyFilePath name, sc_ocsp_file = []\<rparr>"

definition newServerCertConf :: "string \<Rightarrow> bfe_server_cert_conf" where
  "newServerCertConf version =
     \<lparr>bs_version = version, bs_default = DefaultCNName,
      bs_certs = [(DefaultCNName, cert_files DefaultCNName)]\<rparr>"

definition newTlsRuleConf :: "string \<Rightarrow> bfe_tls_rule_conf" where
  "newTlsRuleConf version =
     \<lparr>tr_version = version, tr_config = [], tr_next_protos = [], tr_chacha20 = False,
      tr_dynamic_record = False\<rparr>"

definition NewTLSConfig :: "'m tls_env \<Rightarrow> string \<Rightarrow> 'm tls_state" where
  "NewTLSConfig E version =
     \<lparr>serverCertVersion = [], tlsRuleVersion = [], ingress2secret = mm_new (tls_strs E),
      serverCertConf = newServerCertConf version, tlsRuleConf = newTlsRuleConf version,
      certs = []\<rparr>"

definition tls_setVersion :: "string \<Rightarrow> 'm tls_state \<Rightarrow> 'm tls_state" where
  "tls_setVersion now c =
     c\<lparr>serverCertConf := (serverCertConf c)\<lparr>bs_version := now\<rparr>,
       tlsRuleConf := (tlsRuleConf c)\<lparr>tr_version := now\<rparr>\<rparr>"

abbreviation cert_table :: "'m tls_state \<Rightarrow> (string, server_cert_conf) gomap" where
  "cert_table c \<equiv> bs_certs (serverCertConf c)"

definition set_cert_table :: "(string, server_cert_conf) gomap \<Rightarrow> 'm tls_state \<Rightarrow> 'm tls_state" where
  "set_cert_table m c = c\<lparr>serverCertConf := (serverCertConf c)\<lparr>bs_certs := m\<rparr>\<rparr>"

subsection \<open>Secrets\<close>

definition tls_UpdateSecret ::
  "'m tls_env \<Rightarrow> string \<Rightarrow> secret \<Rightarrow> 'm tls_state \<Rightarrow> error option \<times> 'm tls_state" where
  "tls_UpdateSecret E now sec c =
     (let name = NamespacedName (sec_namespace sec) (sec_name sec);
          crt = mget_or [] (sec_data sec) SecretCrt;
          key = mget_or [] (sec_data sec) SecretKey
      in if \<not> mm_contains_value (tls_strs E) (ingress2secret c) name then (None, c)
         else (case tls_key_pair E crt key of
                 Some e \<Rightarrow> (Some e, c)
               | None \<Rightarrow>
                   (let c1 = set_cert_table (mput name (cert_files name) (cert_table c)) c;
                        c2 = c1\<lparr>certs := mput name \<lparr>cert_pem = crt, key_pem = key\<rparr> (certs c1)\<rparr>
                    in (None, tls_setVersion now c2))))"

definition deleteCert :: "io_env \<Rightarrow> string \<Rightarrow> 'm tls_state \<Rightarrow> effect list \<times> 'm tls_state" where
  "deleteCert io name c =
     (let es = (case mget (cert_table c) name of
                  None \<Rightarrow> []
                | Some cert \<Rightarrow> DeleteFile io (sc_key_file cert) @ DeleteFile io (sc_cert_file cert));
          c1 = set_cert_table (mdel name (cert_table c)) c
      in (es, c1\<lparr>certs := mdel name (certs c1)\<rparr>))"

definition tls_DeleteSecret ::
  "'m tls_env \<Rightarrow> io_env \<Rightarrow> string \<Rightarrow> string \<Rightarrow> string \<Rightarrow> 'm tls_state \<Rightarrow> effect list \<times> 'm tls_state" where
  "tls_DeleteSecret E io now namespace name c =
     (let target = NamespacedName namespace name
      in if \<not> mm_contains_value (tls_strs E) (ingress2secret c) target then ([], c)
         else (case deleteCert io target c of (es, c1) \<Rightarrow> (es, tls_setVersion now c1)))"

subsection \<open>Ingress events\<close>

fun update_secrets ::
  "'m tls_env \<Rightarrow> string \<Rightarrow> secret list \<Rightarrow> 'm tls_state \<Rightarrow> error option \<times> 'm tls_state" where
  "update_secrets E now [] c = (None, c)"
| "update_secrets E now (sec # secs) c =
     (case tls_UpdateSecret E now sec c of
        (Some e, c1) \<Rightarrow> (Some e, c1)
      | (None, c1) \<Rightarrow> update_secrets E now secs c1)"

definition tls_UpdateIngress ::
  "'m tls_env \<Rightarrow> string \<Rightarrow> ingress \<Rightarrow> secret list \<Rightarrow> 'm tls_state \<Rightarrow> error option \<times> 'm tls_state" where
  "tls_UpdateIngress E now ing secs c =
     (let ingressName = NamespacedName (ing_namespace ing) (ing_name ing);
          c1 = c\<lparr>ingress2secret :=
                   fold (\<lambda>sec m. mm_put (tls_strs E) m ingressName
                                   (NamespacedName (sec_namespace sec) (sec_name sec)))
                     secs (ingress2secret c)\<rparr>
      in update_secrets E now secs c1)"

text \<open>The loop over the certificates: those no ingress names any more are deleted.\<close>

fun delete_unused ::
  "io_env \<Rightarrow> string list \<Rightarrow> string list \<Rightarrow> 'm tls_state \<Rightarrow> effect list \<times> bool \<times> 'm tls_state" where
  "delete_unused io used [] c = ([], False, c)"
| "delete_unused io used (name # names) c =
     (if name \<in> set used then delete_unused io used names c
      else (case deleteCert io name c of
              (es, c1) \<Rightarrow>
                (case delete_unused io used names c1 of
                   (es', _, c2) \<Rightarrow> (es @ es', True, c2))))"

definition tls_DeleteIngress ::
  "'m tls_env \<Rightarrow> io_env \<Rightarrow> schedule \<Rightarrow> string \<Rightarrow> string \<Rightarrow> string \<Rightarrow> 'm tls_state \<Rightarrow>
     effect list \<times> 'm tls_state" where
  "tls_DeleteIngress E io sch now namespace name c =
     (let ingressName = NamespacedName namespace name
      in if \<not> mm_contains_key (tls_strs E) (ingress2secret c) ingressName then ([], c)
         else (let c1 = c\<lparr>ingress2secret := mm_remove_all (tls_strs E) (ingress2secret c) ingressName\<rparr>;
                   secrets = mm_values (tls_strs E) (ingress2secret c1)
               in case delete_unused io secrets (shuffle sch (map fst (certs c1))) c1 of
                    (es, updated, c2) \<Rightarrow> (es, if updated then tls_setVersion now c2 else c2)))"

end
