(* ===== verification/Config_Reload.thy ===== *)
theory Config_Reload
  imports Server_Data_Config Cluster_Config TLS_Config
begin

text \<open>
  The \<^verbatim>\<open>Reload\<close> methods of the three configurations: what changed since BFE last accepted it is
  written to files, BFE is asked to load it, and the versions are recorded only when all of
  this worked. The locale \<open>reloadable\<close> states that contract.
\<close>

subsection \<open>The contract\<close>

text \<open>
  \<open>pending s\<close>: some configuration has a version BFE has not confirmed; \<open>view s\<close>: the
  configuration, without the confirmed versions; \<open>names\<close>: what BFE may be asked to load.
\<close>

locale reloadable =
  fixes pending :: "'s \<Rightarrow> bool"
    and view :: "'s \<Rightarrow> 'v"
    and names :: "string set"
    and reload :: "'x \<Rightarrow> io_env \<Rightarrow> 's \<Rightarrow> trace \<Rightarrow> (error option \<times> trace) \<times> 's"
  assumes reload_idle: "\<not> pending s \<Longrightarrow> reload x io s h = ((None, h), s)"
    and reload_ok: "reload x io s h = ((None, h'), s') \<Longrightarrow> \<not> pending s'"
    and reload_failed: "reload x io s h = ((Some e, h'), s') \<Longrightarrow> pending s'"
    and reload_view: "reload x io s h = (out, s') \<Longrightarrow> view s' = view s"
    and reload_extends: "reload x io s h = ((r, h'), s') \<Longrightarrow> \<exists>es. h' = h @ es"
    and reload_tells: "reload x io s h = ((None, h'), s') \<Longrightarrow> pending s \<Longrightarrow>
          \<exists>es n. h' = h @ es @ [Http_Get (io_reload_url io @ n)] \<and> n \<in> names"
begin

text \<open>The reload loop: one attempt per tick, in whatever environment the tick finds.\<close>

fun ticks :: "('x \<times> io_env) list \<Rightarrow> 's \<Rightarrow> trace \<Rightarrow> trace \<times> 's" where
  "ticks [] s h = (h, s)"
| "ticks ((x, io) # rest) s h = (case reload x io s h of ((_, h1), s1) \<Rightarrow> ticks rest s1 h1)"

lemma reload_error_iff: "reload x io s h = ((r, h'), s') \<Longrightarrow> r = None \<longleftrightarrow> \<not> pending s'"
  using reload_ok reload_failed by (cases r) blast+

lemma ticks_idle: "\<not> pending s \<Longrightarrow> ticks ws s h = (h, s)"
  by (induction ws) (auto simp: reload_idle split: prod.splits)

lemma ticks_append: "ticks (as @ bs) s h = (case ticks as s h of (h1, s1) \<Rightarrow> ticks bs s1 h1)"
  by (induction as s h rule: ticks.induct) (simp_all split: prod.splits)

lemma ticks_view: "ticks ws s h = (h', s') \<Longrightarrow> view s' = view s"
proof (induction ws s h arbitrary: h' s' rule: ticks.induct)
  case (2 x io rest s h)
  obtain r h1 s1 where r: "reload x io s h = ((r, h1), s1)" by (metis surj_pair)
  show ?case using "2.IH" [OF r [symmetric] refl, of h' s'] "2.prems" reload_view [OF r] r by simp
qed simp

text \<open>An attempt that succeeds is the last one that does anything, until the next change.\<close>

lemma ticks_until_success:
  assumes "ticks as s h = (h1, s1)" and "reload x io s1 h1 = ((None, h2), s2)"
  shows "ticks (as @ (x, io) # bs) s h = (h2, s2)"
  using assms ticks_idle [OF reload_ok [OF assms(2)]] by (simp add: ticks_append)

lemma reload_again:
  assumes "reload x io s h = ((None, h'), s')"
  shows "reload x' io' s' h' = ((None, h'), s')"
  by (rule reload_idle, rule reload_ok, rule assms)

end

subsection \<open>Recording a reload\<close>

text \<open>
  The common shape of the three methods: the dumps, then BFE if anything was dumped, then the
  new versions.
\<close>

definition reload_with ::
  "bool \<Rightarrow> io_op \<Rightarrow> io_op \<Rightarrow> ('s \<Rightarrow> 's) \<Rightarrow> 's \<Rightarrow> trace \<Rightarrow> (error option \<times> trace) \<times> 's" where
  "reload_with changed dumps tell commit s h =
     (case io_then dumps (io_when changed tell) h of
        (Some e, h1) \<Rightarrow> ((Some e, h1), s)
      | (None, h1) \<Rightarrow> ((None, h1), if changed then commit s else s))"

lemma reload_with_idle: "dumps = io_skip \<Longrightarrow> reload_with False dumps tell commit s h = ((None, h), s)"
  by (simp add: reload_with_def io_then_def io_when_def io_skip_def)

lemma reload_with_cases:
  assumes "reload_with changed dumps tell commit s h = ((r, h'), s')"
  shows "(\<exists>e. r = Some e \<and> s' = s) \<or> (r = None \<and> s' = (if changed then commit s else s))"
  using assms by (auto simp: reload_with_def split: prod.splits option.splits if_splits)

lemma reload_with_extends:
  assumes "extends dumps" and "extends tell"
    and "reload_with changed dumps tell commit s h = ((r, h'), s')"
  shows "\<exists>es. h' = h @ es"
proof -
  have "h' = snd (io_then dumps (io_when changed tell) h)"
    using assms(3) by (auto simp: reload_with_def split: prod.splits option.splits)
  moreover have "extends (io_then dumps (io_when changed tell))" by (intro io_extends assms)
  ultimately show ?thesis by (simp add: extends_def)
qed

lemma reload_with_tells:
  assumes "extends dumps" and "reload_with True dumps (ReloadBfe io n) commit s h = ((None, h'), s')"
  shows "\<exists>es. h' = h @ es @ [Http_Get (io_reload_url io @ n)]"
proof -
  have "io_then dumps (ReloadBfe io n) h = (None, h')"
    using assms(2) by (auto simp: reload_with_def io_when_def split: prod.splits option.splits)
  then obtain h1 where "dumps h = (None, h1)" "ReloadBfe io n h1 = (None, h')"
    by (auto simp: io_then_None)
  then show ?thesis using extendsE [OF assms(1)] by (fastforce simp: ReloadBfe_def Let_def)
qed

text \<open>A configuration whose reload has that shape keeps the contract.\<close>

locale dumped_config =
  fixes pending :: "'s \<Rightarrow> bool"
    and view :: "'s \<Rightarrow> 'v"
    and name :: string
    and dumps :: "'x \<Rightarrow> io_env \<Rightarrow> 's \<Rightarrow> io_op"
    and commit :: "'s \<Rightarrow> 's"
    and reload :: "'x \<Rightarrow> io_env \<Rightarrow> 's \<Rightarrow> trace \<Rightarrow> (error option \<times> trace) \<times> 's"
  assumes reload_shape: "reload x io s h =
      reload_with (pending s) (dumps x io s) (ReloadBfe io name) commit s h"
    and dumps_idle: "\<not> pending s \<Longrightarrow> dumps x io s = io_skip"
    and commit_fresh: "\<not> pending (commit s)"
    and commit_view: "view (commit s) = view s"
    and dumps_extend: "extends (dumps x io s)"
begin

lemma shape_idle: "\<not> pending s \<Longrightarrow> reload x io s h = ((None, h), s)"
  using reload_with_idle [OF dumps_idle] by (simp add: reload_shape)

lemma shape_cases:
  assumes "reload x io s h = ((r, h'), s')"
  shows "(\<exists>e. r = Some e \<and> s' = s) \<or> (r = None \<and> s' = (if pending s then commit s else s))"
  by (rule reload_with_cases) (rule assms [unfolded reload_shape])

lemma shape_failed: "reload x io s h = ((Some e, h'), s') \<Longrightarrow> pending s'"
  using shape_cases [of x io s h "Some e" h' s'] shape_idle [of s x io h] by auto

lemma shape_extends: "reload x io s h = ((r, h'), s') \<Longrightarrow> \<exists>es. h' = h @ es"
  unfolding reload_shape by (rule reload_with_extends [OF dumps_extend extends_ReloadBfe])

lemma shape_tells:
  assumes "reload x io s h = ((None, h'), s')" and "pending s"
  shows "\<exists>es. h' = h @ es @ [Http_Get (io_reload_url io @ name)]"
  by (rule reload_with_tells [OF dumps_extend]) (use assms in \<open>simp add: reload_shape\<close>)

end

sublocale dumped_config \<subseteq> reloadable pending view "{name}" reload
proof
  fix x io s h h' s' out
  show "\<not> pending s \<Longrightarrow> reload x io s h = ((None, h), s)" by (rule shape_idle)
  show "reload x io s h = ((None, h'), s') \<Longrightarrow> \<not> pending s'"
    using shape_cases [of x io s h None h' s'] commit_fresh [of s] by auto
  show "reload x io s h = ((Some e, h'), s') \<Longrightarrow> pending s'" for e by (rule shape_failed)
  show "reload x io s h = (out, s') \<Longrightarrow> view s' = view s"
    using shape_cases [of x io s h "fst out" "snd out" s'] commit_view [of s] by auto
  show "reload x io s h = ((r, h'), s') \<Longrightarrow> \<exists>es. h' = h @ es" for r by (rule shape_extends)
  show "reload x io s h = ((None, h'), s') \<Longrightarrow> pending s \<Longrightarrow>
          \<exists>es n. h' = h @ es @ [Http_Get (io_reload_url io @ n)] \<and> n \<in> {name}"
    using shape_tells by fastforce
qed

subsection \<open>Server data\<close>

definition ConfigNameServerData :: string where
  "ConfigNameServerData = ''server_data_conf''"

definition HostRuleData :: string where
  "HostRuleData = ''server_data_conf/host_rule.data''"

definition RouteRuleData :: string where
  "RouteRuleData = ''server_data_conf/route_rule.data''"

definition ClusterConfData :: string where
  "ClusterConfData = ''server_data_conf/cluster_conf.data''"

text \<open>The JSON encoders of BFE's types.\<close>

record sd_marshal =
  mj_host :: "host_table_conf \<Rightarrow> error + string"
  mj_route :: "route_table_file \<Rightarrow> error + string"
  mj_cluster :: "bfe_cluster_conf \<Rightarrow> error + string"

definition sd_pending :: "'m server_data \<Rightarrow> bool" where
  "sd_pending s \<longleftrightarrow> ht_version (hostTableConf s) \<noteq> hostTableVersion s \<or>
     rt_version (routeTableFile s) \<noteq> routeTableVersion s \<or>
     bc_version (bfeClusterConf s) \<noteq> bfeClusterConfVersion s"

definition sd_dumps :: "sd_marshal \<Rightarrow> io_env \<Rightarrow> 'm server_data \<Rightarrow> io_op" where
  "sd_dumps mj io s = io_seq
     [io_when (ht_version (hostTableConf s) \<noteq> hostTableVersion s)
        (wrap_error ''dump gslb.data error: ''
          (DumpBfeConf io (mj_host mj) HostRuleData (hostTableConf s))),
      io_when (rt_version (routeTableFile s) \<noteq> routeTableVersion s)
        (wrap_error ''dump cluster_table.data error: ''
          (DumpBfeConf io (mj_route mj) RouteRuleData (routeTableFile s))),
      io_when (bc_version (bfeClusterConf s) \<noteq> bfeClusterConfVersion s)
        (wrap_error ''dump cluster_table.data error: ''
          (DumpBfeConf io (mj_cluster mj) ClusterConfData (bfeClusterConf s)))]"

definition sd_commit :: "'m server_data \<Rightarrow> 'm server_data" where
  "sd_commit s = s\<lparr>hostTableVersion := ht_version (hostTableConf s),
                   routeTableVersion := rt_version (routeTableFile s),
                   bfeClusterConfVersion := bc_version (bfeClusterConf s)\<rparr>"

definition sd_Reload ::
  "sd_marshal \<Rightarrow> io_env \<Rightarrow> 'm server_data \<Rightarrow> trace \<Rightarrow> (error option \<times> trace) \<times> 'm server_data" where
  "sd_Reload mj io s h =
     reload_with (sd_pending s) (sd_dumps mj io s) (ReloadBfe io ConfigNameServerData) sd_commit s h"

definition sd_view ::
  "'m server_data \<Rightarrow> 'm route_cache \<times> host_table_conf \<times> route_table_file \<times> bfe_cluster_conf" where
  "sd_view s = (routeRuleCache s, hostTableConf s, routeTableFile s, bfeClusterConf s)"

lemma io_seq_skips: "\<forall>a \<in> set as. a = io_skip \<Longrightarrow> io_seq as = io_skip"
  by (induction as) (auto simp: io_then_def io_skip_def)

lemma extends_sd_dumps: "extends (sd_dumps mj io s)"
  unfolding sd_dumps_def by (rule extends_seq) (auto intro!: io_extends)

lemma sd_dumps_idle: "\<not> sd_pending s \<Longrightarrow> sd_dumps mj io s = io_skip"
  unfolding sd_dumps_def by (rule io_seq_skips) (auto simp: sd_pending_def io_when_def)

lemma sd_commit_fresh: "\<not> sd_pending (sd_commit s)"
  by (simp add: sd_pending_def sd_commit_def)

lemma sd_commit_view: "sd_view (sd_commit s) = sd_view s"
  by (simp add: sd_view_def sd_commit_def)

interpretation sdr: dumped_config sd_pending sd_view ConfigNameServerData
    "\<lambda>_::schedule. sd_dumps mj" sd_commit "\<lambda>_. sd_Reload mj"
  by unfold_locales
    (rule sd_Reload_def sd_commit_fresh sd_commit_view extends_sd_dumps | erule sd_dumps_idle)+

subsection \<open>Clusters\<close>

definition ConfigNameclusterConf :: string where
  "ConfigNameclusterConf = ''gslb_data_conf''"

definition GslbData :: string where
  "GslbData = ''cluster_conf/gslb.data''"

definition ClusterTableData :: string where
  "ClusterTableData = ''cluster_conf/cluster_table.data''"

record cl_marshal =
  mj_gslb :: "gslb_conf \<Rightarrow> error + string"
  mj_table :: "cluster_table_conf \<Rightarrow> error + string"

definition cl_pending :: "'m cluster_state \<Rightarrow> bool" where
  "cl_pending c \<longleftrightarrow> gc_ts (gslbConf c) \<noteq> gslbVersion c \<or>
     ct_version (clusterTableConf c) \<noteq> clusterTableVersion c"

definition cl_dumps :: "cl_marshal \<Rightarrow> io_env \<Rightarrow> 'm cluster_state \<Rightarrow> io_op" where
  "cl_dumps mj io c = io_seq
     [io_when (gc_ts (gslbConf c) \<noteq> gslbVersion c)
        (wrap_error ''dump gslb.data error: '' (DumpBfeConf io (mj_gslb mj) GslbData (gslbConf c))),
      io_when (ct_version (clusterTableConf c) \<noteq> clusterTableVersion c)
        (wrap_error ''dump cluster_table.data error: ''
          (DumpBfeConf io (mj_table mj) ClusterTableData (clusterTableConf c)))]"

definition cl_commit :: "'m cluster_state \<Rightarrow> 'm cluster_state" where
  "cl_commit c = c\<lparr>gslbVersion := gc_ts (gslbConf c),
                   clusterTableVersion := ct_version (clusterTableConf c)\<rparr>"

definition cl_Reload ::
  "cl_marshal \<Rightarrow> io_env \<Rightarrow> 'm cluster_state \<Rightarrow> trace \<Rightarrow> (error option \<times> trace) \<times> 'm cluster_state" where
  "cl_Reload mj io c h =
     reload_with (cl_pending c) (cl_dumps mj io c) (ReloadBfe io ConfigNameclusterConf) cl_commit c h"

definition cl_view :: "'m cluster_state \<Rightarrow> 'm \<times> 'm \<times> gslb_conf \<times> cluster_table_conf" where
  "cl_view c = (ingress2Cluster c, service2Cluster c, gslbConf c, clusterTableConf c)"

lemma extends_cl_dumps: "extends (cl_dumps mj io s)"
  unfolding cl_dumps_def by (rule extends_seq) (auto intro!: io_extends)

lemma cl_dumps_idle: "\<not> cl_pending s \<Longrightarrow> cl_dumps mj io s = io_skip"
  unfolding cl_dumps_def by (rule io_seq_skips) (auto simp: cl_pending_def io_when_def)

lemma cl_commit_fresh: "\<not> cl_pending (cl_commit s)"
  by (simp add: cl_pending_def cl_commit_def)

lemma cl_commit_view: "cl_view (cl_commit s) = cl_view s"
  by (simp add: cl_view_def cl_commit_def)

interpretation clr: dumped_config cl_pending cl_view ConfigNameclusterConf
    "\<lambda>_::schedule. cl_dumps mj" cl_commit "\<lambda>_. cl_Reload mj"
  by unfold_locales
    (rule cl_Reload_def cl_commit_fresh cl_commit_view extends_cl_dumps | erule cl_dumps_idle)+

subsection \<open>Certificates\<close>

definition ConfigNameTLSConf :: string where
  "ConfigNameTLSConf = ''tls_conf''"

definition ServerCertData :: string where
  "ServerCertData = ''tls_conf/server_cert_conf.data''"

definition TLSRuleData :: string where
  "TLSRuleData = ''tls_conf/tls_rule_conf.data''"

record tls_marshal =
  mj_cert :: "bfe_server_cert_conf \<Rightarrow> error + string"
  mj_rule :: "bfe_tls_rule_conf \<Rightarrow> error + string"

text \<open>A certificate the map does not hold reads as the empty one.\<close>

definition dump_cert :: "io_env \<Rightarrow> 'm tls_state \<Rightarrow> string \<times> server_cert_conf \<Rightarrow> io_op" where
  "dump_cert io c entry =
     (let (name, cert) = entry;
          pair = mget_or \<lparr>cert_pem = [], key_pem = []\<rparr> (certs c) name
      in if name = DefaultCNName then io_skip
         else io_then (DumpFile io (sc_cert_file cert) (cert_pem pair))
                      (DumpFile io (sc_key_file cert) (key_pem pair)))"

definition tls_pending :: "'m tls_state \<Rightarrow> bool" where
  "tls_pending c \<longleftrightarrow> bs_version (serverCertConf c) \<noteq> serverCertVersion c \<or>
     tr_version (tlsRuleConf c) \<noteq> tlsRuleVersion c"

definition tls_dumps :: "tls_marshal \<Rightarrow> schedule \<Rightarrow> io_env \<Rightarrow> 'm tls_state \<Rightarrow> io_op" where
  "tls_dumps mj sch io c = io_seq
     [io_when (bs_version (serverCertConf c) \<noteq> serverCertVersion c)
        (io_then
          (wrap_error ''dump server_cert_conf: ''
            (DumpBfeConf io (mj_cert mj) ServerCertData (serverCertConf c)))
          (io_seq (map (dump_cert io c) (shuffle sch (cert_table c))))),
      io_when (tr_version (tlsRuleConf c) \<noteq> tlsRuleVersion c)
        (wrap_error ''dump tls_rule_conf: ''
          (DumpBfeConf io (mj_rule mj) TLSRuleData (tlsRuleConf c)))]"

definition tls_commit :: "'m tls_state \<Rightarrow> 'm tls_state" where
  "tls_commit c = c\<lparr>serverCertVersion := bs_version (serverCertConf c),
                    tlsRuleVersion := tr_version (tlsRuleConf c)\<rparr>"

definition tls_Reload ::
  "tls_marshal \<Rightarrow> schedule \<Rightarrow> io_env \<Rightarrow> 'm tls_state \<Rightarrow> trace \<Rightarrow>
     (error option \<times> trace) \<times> 'm tls_state" where
  "tls_Reload mj sch io c h =
     reload_with (tls_pending c) (tls_dumps mj sch io c) (ReloadBfe io ConfigNameTLSConf) tls_commit c h"

definition tls_view ::
  "'m tls_state \<Rightarrow> 'm \<times> bfe_server_cert_conf \<times> bfe_tls_rule_conf \<times> (string, cert_conf) gomap" where
  "tls_view c = (ingress2secret c, serverCertConf c, tlsRuleConf c, certs c)"

lemma extends_dump_cert [io_extends]: "extends (dump_cert io c entry)"
  by (auto simp: dump_cert_def Let_def split: prod.splits intro!: io_extends)

lemma extends_tls_dumps: "extends (tls_dumps mj sch io s)"
  unfolding tls_dumps_def by (rule extends_seq) (auto intro!: io_extends)

lemma tls_dumps_idle: "\<not> tls_pending s \<Longrightarrow> tls_dumps mj sch io s = io_skip"
  unfolding tls_dumps_def by (rule io_seq_skips) (auto simp: tls_pending_def io_when_def)

lemma tls_commit_fresh: "\<not> tls_pending (tls_commit s)"
  by (simp add: tls_pending_def tls_commit_def)

lemma tls_commit_view: "tls_view (tls_commit s) = tls_view s"
  by (simp add: tls_view_def tls_commit_def)

interpretation tlr: dumped_config tls_pending tls_view ConfigNameTLSConf
    "tls_dumps mj" tls_commit "tls_Reload mj"
  by unfold_locales
    (rule tls_Reload_def tls_commit_fresh tls_commit_view extends_tls_dumps | erule tls_dumps_idle)+

end
