(* ===== verification/Config_Builder.thy ===== *)
theory Config_Builder
  imports Config_Reload
begin

text \<open>
  \<^verbatim>\<open>internal/bfeConfig/configBuilder.go\<close>: the three configurations behind one lock. Every public
  method takes the lock for its whole body, so a run of the controller is a sequence of the
  operations below.
\<close>

subsection \<open>State\<close>

record ('m, 'n) builder =
  serverDataConf :: "'m server_data"
  clusterConf :: "'n cluster_state"
  tlsConf :: "'n tls_state"

record ('m, 'n) cb_env =
  cb_sd :: "'m sd_env"
  cb_cl :: "'n cl_env"
  cb_tls :: "'n tls_env"

text \<open>The choices of one call: those of its parts, and their readings of the clock.\<close>

record cb_choice =
  cc_sd :: sd_choice
  cc_sd_undo :: sd_choice
  cc_balance :: order
  cc_sched :: schedule
  cc_cl_now :: string
  cc_cl_undo_now :: string
  cc_tls_now :: string

definition NewConfigBuilder :: "('m, 'n) cb_env \<Rightarrow> ('m, 'n) builder" where
  "NewConfigBuilder E =
     \<lparr>serverDataConf = NewServerDataConfig (cb_sd E) ''init'',
      clusterConf = NewClusterConfig (cb_cl E) ''init'',
      tlsConf = NewTLSConfig (cb_tls E) ''init''\<rparr>"

subsection \<open>Operations\<close>

definition cb_UpdateIngress ::
  "('m, 'n) cb_env \<Rightarrow> cb_choice \<Rightarrow> ingress \<Rightarrow> (string, service) gomap \<Rightarrow> (string, endpoints) gomap \<Rightarrow>
     secret list \<Rightarrow> ('m, 'n) builder \<Rightarrow> (error option \<times> ('m, 'n) builder) option" where
  "cb_UpdateIngress E ch ing services eps secs c =
     (case sd_UpdateIngress (cb_sd E) (cc_sd ch) ing (serverDataConf c) of
        None \<Rightarrow> None
      | Some (Some e, s1) \<Rightarrow> Some (Some e, c\<lparr>serverDataConf := s1\<rparr>)
      | Some (None, s1) \<Rightarrow>
          (case cl_UpdateIngress (cb_cl E) (cc_balance ch) (cc_cl_now ch) ing services eps
                  (clusterConf c) of
             None \<Rightarrow> None
           | Some (Some e, k1) \<Rightarrow>
               Some (Some e, c\<lparr>serverDataConf :=
                                 sd_DeleteIngress (cb_sd E) (cc_sd_undo ch)
                                   (ing_namespace ing) (ing_name ing) s1,
                               clusterConf := k1\<rparr>)
           | Some (None, k1) \<Rightarrow>
               (case tls_UpdateIngress (cb_tls E) (cc_tls_now ch) ing secs (tlsConf c) of
                  (Some e, t1) \<Rightarrow>
                    Some (Some e, c\<lparr>serverDataConf :=
                                      sd_DeleteIngress (cb_sd E) (cc_sd_undo ch)
                                        (ing_namespace ing) (ing_name ing) s1,
                                    clusterConf :=
                                      cl_DeleteIngress (cb_cl E) (cc_cl_undo_now ch)
                                        (ing_namespace ing) (ing_name ing) k1,
                                    tlsConf := t1\<rparr>)
                | (None, t1) \<Rightarrow>
                    Some (None, c\<lparr>serverDataConf := s1, clusterConf := k1, tlsConf := t1\<rparr>))))"

definition cb_DeleteIngress ::
  "('m, 'n) cb_env \<Rightarrow> io_env \<Rightarrow> cb_choice \<Rightarrow> string \<Rightarrow> string \<Rightarrow> ('m, 'n) builder \<Rightarrow>
     effect list \<times> ('m, 'n) builder" where
  "cb_DeleteIngress E io ch namespace name c =
     (let s1 = sd_DeleteIngress (cb_sd E) (cc_sd ch) namespace name (serverDataConf c);
          k1 = cl_DeleteIngress (cb_cl E) (cc_cl_now ch) namespace name (clusterConf c)
      in case tls_DeleteIngress (cb_tls E) io (cc_sched ch) (cc_tls_now ch) namespace name (tlsConf c) of
           (es, t1) \<Rightarrow> (es, c\<lparr>serverDataConf := s1, clusterConf := k1, tlsConf := t1\<rparr>))"

text \<open>The ways an update of an ingress ends.\<close>

lemma cb_UpdateIngress_cases:
  assumes "cb_UpdateIngress E ch ing services eps secs c = Some (err, c')"
  obtains (server_refused) e s1 where "err = Some e"
      "sd_UpdateIngress (cb_sd E) (cc_sd ch) ing (serverDataConf c) = Some (Some e, s1)"
      "c' = c\<lparr>serverDataConf := s1\<rparr>"
  | (clusters_refused) e s1 k1 where "err = Some e"
      "sd_UpdateIngress (cb_sd E) (cc_sd ch) ing (serverDataConf c) = Some (None, s1)"
      "cl_UpdateIngress (cb_cl E) (cc_balance ch) (cc_cl_now ch) ing services eps (clusterConf c) = Some (Some e, k1)"
      "c' = c\<lparr>serverDataConf := sd_DeleteIngress (cb_sd E) (cc_sd_undo ch) (ing_namespace ing) (ing_name ing) s1,
              clusterConf := k1\<rparr>"
  | (certs_refused) e s1 k1 t1 where "err = Some e"
      "sd_UpdateIngress (cb_sd E) (cc_sd ch) ing (serverDataConf c) = Some (None, s1)"
      "cl_UpdateIngress (cb_cl E) (cc_balance ch) (cc_cl_now ch) ing services eps (clusterConf c) = Some (None, k1)"
      "tls_UpdateIngress (cb_tls E) (cc_tls_now ch) ing secs (tlsConf c) = (Some e, t1)"
      "c' = c\<lparr>serverDataConf := sd_DeleteIngress (cb_sd E) (cc_sd_undo ch) (ing_namespace ing) (ing_name ing) s1,
              clusterConf := cl_DeleteIngress (cb_cl E) (cc_cl_undo_now ch) (ing_namespace ing) (ing_name ing) k1,
              tlsConf := t1\<rparr>"
  | (updated) s1 k1 t1 where "err = None"
      "sd_UpdateIngress (cb_sd E) (cc_sd ch) ing (serverDataConf c) = Some (None, s1)"
      "cl_UpdateIngress (cb_cl E) (cc_balance ch) (cc_cl_now ch) ing services eps (clusterConf c) = Some (None, k1)"
      "tls_UpdateIngress (cb_tls E) (cc_tls_now ch) ing secs (tlsConf c) = (None, t1)"
      "c' = c\<lparr>serverDataConf := s1, clusterConf := k1, tlsConf := t1\<rparr>"
  using assms by (auto simp: cb_UpdateIngress_def split: option.splits prod.splits)

text \<open>The error of \<^verbatim>\<open>clusterConf.UpdateService\<close> is dropped.\<close>

definition cb_UpdateService ::
  "('m, 'n) cb_env \<Rightarrow> cb_choice \<Rightarrow> service \<Rightarrow> endpoints option \<Rightarrow> ('m, 'n) builder \<Rightarrow>
     ('m, 'n) builder option" where
  "cb_UpdateService E ch svc ep c =
     map_option (\<lambda>(_, k1). c\<lparr>clusterConf := k1\<rparr>)
       (cl_UpdateService (cb_cl E) (cc_sched ch) (cc_cl_now ch) svc ep (clusterConf c))"

definition cb_DeleteService ::
  "('m, 'n) cb_env \<Rightarrow> cb_choice \<Rightarrow> string \<Rightarrow> string \<Rightarrow> ('m, 'n) builder \<Rightarrow> ('m, 'n) builder" where
  "cb_DeleteService E ch namespace name c =
     c\<lparr>clusterConf := cl_DeleteService (cb_cl E) (cc_cl_now ch) namespace name (clusterConf c)\<rparr>"

definition cb_UpdateSecret ::
  "('m, 'n) cb_env \<Rightarrow> cb_choice \<Rightarrow> secret \<Rightarrow> ('m, 'n) builder \<Rightarrow> error option \<times> ('m, 'n) builder" where
  "cb_UpdateSecret E ch sec c =
     (case tls_UpdateSecret (cb_tls E) (cc_tls_now ch) sec (tlsConf c) of
        (err, t1) \<Rightarrow> (err, c\<lparr>tlsConf := t1\<rparr>))"

definition cb_DeleteSecret ::
  "('m, 'n) cb_env \<Rightarrow> io_env \<Rightarrow> cb_choice \<Rightarrow> string \<Rightarrow> string \<Rightarrow> ('m, 'n) builder \<Rightarrow>
     effect list \<times> ('m, 'n) builder" where
  "cb_DeleteSecret E io ch namespace name c =
     (case tls_DeleteSecret (cb_tls E) io (cc_tls_now ch) namespace name (tlsConf c) of
        (es, t1) \<Rightarrow> (es, c\<lparr>tlsConf := t1\<rparr>))"

subsection \<open>Reload\<close>

record cb_marshal =
  mj_sd :: sd_marshal
  mj_cl :: cl_marshal
  mj_tls :: tls_marshal

definition cb_reload ::
  "cb_marshal \<Rightarrow> schedule \<Rightarrow> io_env \<Rightarrow> ('m, 'n) builder \<Rightarrow> trace \<Rightarrow>
     (error option \<times> trace) \<times> ('m, 'n) builder" where
  "cb_reload mj sch io c h =
     (case sd_Reload (mj_sd mj) io (serverDataConf c) h of
        ((Some e, h1), s1) \<Rightarrow> ((Some e, h1), c\<lparr>serverDataConf := s1\<rparr>)
      | ((None, h1), s1) \<Rightarrow>
          (case cl_Reload (mj_cl mj) io (clusterConf c) h1 of
             ((Some e, h2), k1) \<Rightarrow> ((Some e, h2), c\<lparr>serverDataConf := s1, clusterConf := k1\<rparr>)
           | ((None, h2), k1) \<Rightarrow>
               (case tls_Reload (mj_tls mj) sch io (tlsConf c) h2 of
                  ((err, h3), t1) \<Rightarrow>
                    ((err, h3), c\<lparr>serverDataConf := s1, clusterConf := k1, tlsConf := t1\<rparr>))))"

text \<open>
  \<^verbatim>\<open>InitReload\<close>: the goroutine reloads at every tick, logs an error and goes on, until the context
  is done. A tick comes with the outside it finds; what the handlers do between two ticks is a
  step of the builder of its own, since both take the lock.
\<close>

datatype reload_event = Tick schedule io_env | Ctx_Done

fun InitReload ::
  "cb_marshal \<Rightarrow> reload_event list \<Rightarrow> ('m, 'n) builder \<Rightarrow> trace \<Rightarrow> trace \<times> ('m, 'n) builder" where
  "InitReload mj [] c h = (h, c)"
| "InitReload mj (Tick sch io # rest) c h =
     (case cb_reload mj sch io c h of ((_, h1), c1) \<Rightarrow> InitReload mj rest c1 h1)"
| "InitReload mj (Ctx_Done # rest) c h = (h, c)"

definition cb_pending :: "('m, 'n) builder \<Rightarrow> bool" where
  "cb_pending c \<longleftrightarrow>
     sd_pending (serverDataConf c) \<or> cl_pending (clusterConf c) \<or> tls_pending (tlsConf c)"

definition cb_view where
  "cb_view c = (sd_view (serverDataConf c), cl_view (clusterConf c), tls_view (tlsConf c))"

lemma cb_reload_parts:
  assumes "cb_reload mj sch io c h = ((r, h'), c')"
  obtains
    (sd) e s1 where "r = Some e" "sd_Reload (mj_sd mj) io (serverDataConf c) h = ((Some e, h'), s1)"
      "c' = c\<lparr>serverDataConf := s1\<rparr>"
  | (cl) e s1 h1 k1 where "r = Some e"
      "sd_Reload (mj_sd mj) io (serverDataConf c) h = ((None, h1), s1)"
      "cl_Reload (mj_cl mj) io (clusterConf c) h1 = ((Some e, h'), k1)"
      "c' = c\<lparr>serverDataConf := s1, clusterConf := k1\<rparr>"
  | (tls) s1 h1 k1 h2 t1 where
      "sd_Reload (mj_sd mj) io (serverDataConf c) h = ((None, h1), s1)"
      "cl_Reload (mj_cl mj) io (clusterConf c) h1 = ((None, h2), k1)"
      "tls_Reload (mj_tls mj) sch io (tlsConf c) h2 = ((r, h'), t1)"
      "c' = c\<lparr>serverDataConf := s1, clusterConf := k1, tlsConf := t1\<rparr>"
proof -
  obtain r1 h1 s1 where 1: "sd_Reload (mj_sd mj) io (serverDataConf c) h = ((r1, h1), s1)"
    by (metis surj_pair)
  obtain r2 h2 k1 where 2: "cl_Reload (mj_cl mj) io (clusterConf c) h1 = ((r2, h2), k1)"
    by (metis surj_pair)
  obtain r3 h3 t1 where 3: "tls_Reload (mj_tls mj) sch io (tlsConf c) h2 = ((r3, h3), t1)"
    by (metis surj_pair)
  show thesis
  proof (cases r1)
    case (Some e)
    with assms 1 have "r = Some e" "h' = h1" "c' = c\<lparr>serverDataConf := s1\<rparr>"
      by (auto simp: cb_reload_def)
    with 1 Some show thesis by (intro sd) simp_all
  next
    case r1: None
    show thesis
    proof (cases r2)
      case (Some e)
      with assms 1 2 r1 have "r = Some e" "h' = h2" "c' = c\<lparr>serverDataConf := s1, clusterConf := k1\<rparr>"
        by (auto simp: cb_reload_def)
      with 1 2 r1 Some show thesis by (intro cl [of e h1 s1 k1]) simp_all
    next
      case None
      with assms 1 2 3 r1 have "r = r3" "h' = h3"
          "c' = c\<lparr>serverDataConf := s1, clusterConf := k1, tlsConf := t1\<rparr>"
        by (auto simp: cb_reload_def)
      with 1 2 3 r1 None show thesis by (intro tls) simp_all
    qed
  qed
qed

interpretation cbr: reloadable cb_pending cb_view
    "{ConfigNameServerData, ConfigNameclusterConf, ConfigNameTLSConf}" "cb_reload mj"
proof
  fix x io and s :: "('m, 'n) builder" and h h' s' out e r
  show "\<not> cb_pending s \<Longrightarrow> cb_reload mj x io s h = ((None, h), s)"
    by (simp add: cb_pending_def cb_reload_def sdr.reload_idle clr.reload_idle tlr.reload_idle)
  show "cb_reload mj x io s h = ((None, h'), s') \<Longrightarrow> \<not> cb_pending s'"
    by (erule cb_reload_parts)
      (auto simp: cb_pending_def dest: sdr.reload_ok clr.reload_ok tlr.reload_ok)
  show "cb_reload mj x io s h = ((Some e, h'), s') \<Longrightarrow> cb_pending s'"
    by (erule cb_reload_parts)
      (auto simp: cb_pending_def dest: sdr.reload_failed clr.reload_failed tlr.reload_failed)
  show "cb_reload mj x io s h = (out, s') \<Longrightarrow> cb_view s' = cb_view s"
    by (cases out, simp, erule cb_reload_parts)
      (auto simp: cb_view_def dest: sdr.reload_view clr.reload_view tlr.reload_view)
  show "cb_reload mj x io s h = ((r, h'), s') \<Longrightarrow> \<exists>es. h' = h @ es"
    by (erule cb_reload_parts)
      (fastforce dest: sdr.reload_extends clr.reload_extends tlr.reload_extends)+
  assume ok: "cb_reload mj x io s h = ((None, h'), s')" and p: "cb_pending s"
  from ok show "\<exists>es n. h' = h @ es @ [Http_Get (io_reload_url io @ n)] \<and>
      n \<in> {ConfigNameServerData, ConfigNameclusterConf, ConfigNameTLSConf}"
  proof (cases rule: cb_reload_parts)
    case (tls s1 h1 k1 h2 t1)
    obtain es1 where 1: "h1 = h @ es1" using sdr.reload_extends [OF tls(1)] by blast
    obtain es2 where 2: "h2 = h1 @ es2" using clr.reload_extends [OF tls(2)] by blast
    obtain es3 where 3: "h' = h2 @ es3" using tlr.reload_extends [OF tls(3)] by blast
    show ?thesis
    proof (cases "tls_pending (tlsConf s)")
      case True
      from tlr.reload_tells [OF tls(3) this] show ?thesis using 1 2 by fastforce
    next
      case False
      then have h': "h' = h2" using tls(3) tlr.reload_idle [OF False] by simp
      show ?thesis
      proof (cases "cl_pending (clusterConf s)")
        case True
        from clr.reload_tells [OF tls(2) this] show ?thesis using 1 h' by fastforce
      next
        case no_cl: False
        then have h2: "h2 = h1" using tls(2) clr.reload_idle [OF no_cl] by simp
        have "sd_pending (serverDataConf s)" using p False no_cl by (simp add: cb_pending_def)
        from sdr.reload_tells [OF tls(1) this] show ?thesis using h' h2 by fastforce
      qed
    qed
  qed simp_all
qed

end
