(* ===== verification/Route_Store.thy ===== *)
theory Route_Store
  imports Route_Rule_Order
begin

text \<open>
  The interface between the route rule cache and the server data component, and what a client
  that deletes the rules of an ingress and puts new ones can conclude from it. The rule cache
  provides it over any multimap (\<open>sublocale\<close> below).
\<close>

subsection \<open>Specification of a replacement\<close>

definition without :: "string \<Rightarrow> (rule_key \<Rightarrow> http_rule option) \<Rightarrow> rule_key \<Rightarrow> http_rule option" where
  "without i v k = (case v k of None \<Rightarrow> None | Some r \<Rightarrow> if r_ingress r = i then None else Some r)"

fun spec_puts ::
  "http_rule list \<Rightarrow> (rule_key \<Rightarrow> http_rule option) \<Rightarrow> error option \<times> (rule_key \<Rightarrow> http_rule option)" where
  "spec_puts [] v = (None, v)"
| "spec_puts (r # rs) v =
     (case spec_conflict r v of
        Some e \<Rightarrow> (Some e, v)
      | None \<Rightarrow> spec_puts rs (spec_put r v))"

fun puts :: "(http_rule \<Rightarrow> 'c \<Rightarrow> error option \<times> 'c) \<Rightarrow> http_rule list \<Rightarrow> 'c \<Rightarrow> error option \<times> 'c" where
  "puts put [] c = (None, c)"
| "puts put (r # rs) c =
     (case put r c of (Some e, c1) \<Rightarrow> (Some e, c1) | (None, c1) \<Rightarrow> puts put rs c1)"

lemma without_Some: "without i v k = Some r \<longleftrightarrow> v k = Some r \<and> r_ingress r \<noteq> i"
  by (auto simp: without_def split: option.splits if_splits)

lemma spec_conflict_same: "spec_conflict r v = Some e \<Longrightarrow> spec_put r v = v"
  by (auto simp: spec_conflict_def spec_put_def split: option.splits if_splits)

lemma spec_put_keeps_or_adds: "spec_put r v k = Some r' \<Longrightarrow> v k = Some r' \<or> r' = r"
  by (auto simp: spec_put_apply split: option.splits if_splits)

text \<open>Every entry after some puts was there before, or was put.\<close>

lemma spec_puts_source:
  "snd (spec_puts rs v) k = Some r \<Longrightarrow> v k = Some r \<or> r \<in> set rs"
proof (induction rs arbitrary: v)
  case (Cons q rs)
  show ?case
  proof (cases "spec_conflict q v")
    case None
    then have "snd (spec_puts rs (spec_put q v)) k = Some r" using Cons.prems by simp
    from Cons.IH [OF this] show ?thesis using spec_put_keeps_or_adds [of q v k r] by auto
  qed (use Cons.prems in simp)
qed simp

lemma spec_put_present:
  assumes "spec_conflict r v = None"
  shows "\<exists>r'. spec_put r v (rule_key r) = Some r' \<and> r_time r' = r_time r \<and>
    (r' = r \<or> v (rule_key r) = Some r')"
  using assms by (auto simp: spec_put_apply spec_conflict_def split: option.splits if_splits)

lemma spec_puts_keep:
  assumes "spec_puts qs v1 = (None, v2)" and "v1 k = Some x" and "r_time x = t"
    and "\<And>y. y \<in> set qs \<Longrightarrow> r_time y = t"
  shows "\<exists>x'. v2 k = Some x' \<and> r_time x' = t"
  using assms
proof (induction qs arbitrary: v1)
  case (Cons y qs)
  have y: "spec_puts qs (spec_put y v1) = (None, v2)" "r_time y = t"
    using Cons.prems(1,4) by (auto split: option.splits)
  have "spec_put y v1 k = Some x" using Cons.prems(2,3) y(2) by (auto simp: spec_put_apply)
  from Cons.IH [OF y(1) this Cons.prems(3)] Cons.prems(4) show ?case by simp
qed simp

text \<open>After rules of one age are put without conflict, each key holds a rule of that age.\<close>

lemma spec_puts_present:
  assumes "fst (spec_puts rs v) = None" and "\<And>r. r \<in> set rs \<Longrightarrow> r_time r = t" and "r \<in> set rs"
  shows "\<exists>r'. snd (spec_puts rs v) (rule_key r) = Some r' \<and> r_time r' = t"
  using assms
proof (induction rs arbitrary: v)
  case (Cons q rs)
  have none: "spec_conflict q v = None" and rest: "fst (spec_puts rs (spec_put q v)) = None"
    using Cons.prems(1) by (auto split: option.splits)
  have step: "snd (spec_puts (q # rs) v) = snd (spec_puts rs (spec_put q v))" using none by simp
  show ?case
  proof (cases "r \<in> set rs")
    case True
    then show ?thesis unfolding step by (intro Cons.IH [OF rest]) (use Cons.prems(2) in auto)
  next
    case False
    then have q: "r = q" "r_time q = t" using Cons.prems by auto
    obtain r1 where r1: "spec_put q v (rule_key q) = Some r1" "r_time r1 = t"
      using spec_put_present [OF none] q by auto
    have "spec_puts rs (spec_put q v) = (None, snd (spec_puts rs (spec_put q v)))"
      using rest by (metis prod.collapse)
    from spec_puts_keep [OF this r1] Cons.prems(2) show ?thesis unfolding step q(1) by simp
  qed
qed simp

subsection \<open>The interface\<close>

locale route_store =
  fixes wf :: "'c \<Rightarrow> bool"
    and view :: "'c \<Rightarrow> rule_key \<Rightarrow> http_rule option"
    and put :: "http_rule \<Rightarrow> 'c \<Rightarrow> error option \<times> 'c"
    and delete :: "schedule \<Rightarrow> string \<Rightarrow> 'c \<Rightarrow> 'c"
    and contains :: "string \<Rightarrow> 'c \<Rightarrow> bool"
  assumes put_wf: "wf c \<Longrightarrow> wf (snd (put r c))"
    and put_view: "view (snd (put r c)) = spec_put r (view c)"
    and put_error: "fst (put r c) = spec_conflict r (view c)"
    and delete_wf: "wf c \<Longrightarrow> wf (delete sch i c)"
    and delete_view: "wf c \<Longrightarrow> view (delete sch i c) = without i (view c)"
    and contains_view: "wf c \<Longrightarrow> view c k = Some r \<Longrightarrow> contains (r_ingress r) c"
begin

lemma puts_refines:
  "fst (puts put rs c) = fst (spec_puts rs (view c)) \<and>
   view (snd (puts put rs c)) = snd (spec_puts rs (view c))"
proof (induction rs arbitrary: c)
  case (Cons r rs)
  have step: "view (snd (put r c)) = spec_put r (view c)" by (rule put_view)
  show ?case
  proof (cases "spec_conflict r (view c)")
    case None
    then show ?thesis using put_error [of r c] Cons.IH [of "snd (put r c)"] step
      by (simp add: prod.case_eq_if)
  next
    case (Some e)
    then show ?thesis using put_error [of r c] step spec_conflict_same [OF Some]
      by (simp add: prod.case_eq_if)
  qed
qed simp

text \<open>Deleting an ingress that the store does not contain changes no entry.\<close>

lemma without_unknown: "wf c \<Longrightarrow> \<not> contains i c \<Longrightarrow> without i (view c) = view c"
proof
  fix k
  assume "wf c" "\<not> contains i c"
  then show "without i (view c) k = view c k"
    using contains_view [of c k] by (cases "view c k") (auto simp: without_def)
qed

lemma delete_if_contained:
  "wf c \<Longrightarrow> view (if contains i c then delete sch i c else c) = without i (view c)"
  using delete_view without_unknown by simp

end

sublocale rule_multimap \<subseteq> rs: route_store "wf_cache R" "\<lambda>c. route_view (ruleMap c)"
    "put_rule M" "delete_rules M" "ContainsIngress M"
proof
  fix c :: "'m route_cache" and r k sch i
  show "wf_cache R c \<Longrightarrow> wf_cache R (snd (put_rule M r c))" by (rule put_rule_wf)
  show "route_view (ruleMap (snd (put_rule M r c))) = spec_put r (route_view (ruleMap c))"
    by (rule ext) (rule put_rule_view)
  show "fst (put_rule M r c) = spec_conflict r (route_view (ruleMap c))" by (rule put_rule_conflict)
  show "wf_cache R c \<Longrightarrow> wf_cache R (delete_rules M sch i c)" by (rule delete_rules_wf)
  show "wf_cache R c \<Longrightarrow>
      route_view (ruleMap (delete_rules M sch i c)) = without i (route_view (ruleMap c))"
    by (rule ext) (simp add: delete_rules_view without_def)
  assume wf: "wf_cache R c" and r: "route_view (ruleMap c) k = Some r"
  obtain h p cd where "k = (h, p, cd)" by (metis surj_pair)
  with r have "r \<in> set (rules_at (ruleMap c) h p)"
    by (auto simp: route_view_triple find_Some_iff)
  then show "ContainsIngress M (r_ingress r) c" by (rule contains_if_rule [OF wf])
qed

interpretation lrs: route_store "wf_cache set" "\<lambda>c. route_view (ruleMap c)"
    "put_rule list_multimap" "delete_rules list_multimap" "ContainsIngress list_multimap"
  by (rule lrm.rs.route_store_axioms)

end
