(* ===== verification/Server_Data_Spec.thy ===== *)
theory Server_Data_Spec
  imports Server_Data_Config Route_Store
begin

text \<open>
  What the server data component promises: which rules an update leaves in the cache, what a
  failed update leaves untouched, and that the route table and the cluster configuration it
  generates agree with the cache and with each other.
\<close>

subsection \<open>The rules an ingress asks for\<close>

definition paths_of :: "ingress \<Rightarrow> (string \<times> http_ingress_path) list" where
  "paths_of ing =
     concat (map (\<lambda>rule. case ir_http rule of None \<Rightarrow> [] | Some ps \<Rightarrow> map (Pair (ir_host rule)) ps)
       (ing_rules ing))"

definition path_valid :: "string \<times> http_ingress_path \<Rightarrow> bool" where
  "path_valid hp \<longleftrightarrow> checkHost (fst hp) = None \<and> checkPath (hp_path (snd hp)) = None \<and>
     ib_service (hp_backend (snd hp)) \<noteq> None"

definition rule_host :: "string \<Rightarrow> string" where
  "rule_host host = (if length host = 0 then ''*'' else host)"

definition rule_path :: "http_ingress_path \<Rightarrow> string" where
  "rule_path p =
     (if hp_type p = None \<or> hp_type p = Some PathTypePrefix \<or>
         hp_type p = Some PathTypeImplementationSpecific
      then hp_path p @ ''*'' else hp_path p)"

definition ingress_name :: "ingress \<Rightarrow> string" where
  "ingress_name ing = NamespacedName (ing_namespace ing) (ing_name ing)"

definition rule_for :: "ingress \<Rightarrow> nat \<times> string \<times> http_ingress_path \<Rightarrow> http_rule" where
  "rule_for ing x =
     (case x of (addr, host, p) \<Rightarrow>
        NewHttpRule addr (ingress_name ing) (rule_host host) (rule_path p) (ing_annots ing)
          (case ClusterName (ingress_name ing) (ib_service (hp_backend p)) of None \<Rightarrow> [] | Some c \<Rightarrow> c)
          (ing_created ing))"

definition rules_for :: "nat \<Rightarrow> ingress \<Rightarrow> http_rule list" where
  "rules_for n ing = map (rule_for ing) (List.enumerate n (paths_of ing))"

lemma rule_for_fields [simp]:
  "r_ingress (rule_for ing x) = ingress_name ing" "r_time (rule_for ing x) = ing_created ing"
  "r_annots (rule_for ing x) = ing_annots ing"
  "r_host (rule_for ing x) = rule_host (fst (snd x))"
  "r_path (rule_for ing x) = rule_path (snd (snd x))"
  by (simp_all add: rule_for_def NewHttpRule_def split: prod.splits)

subsection \<open>updateCache\<close>

lemma updateCache_flat: "updateCache E ing s = each_go (\<lambda>(h, p). addRule E ing h p) (paths_of ing) s"
  unfolding updateCache_def paths_of_def each_go_concat each_go_map
  by (rule each_go_cong) (simp add: each_go_map split: option.split)

lemma addRule_valid:
  assumes "path_valid (h, p)"
  shows "addRule E ing h p s =
    (case put_rule (sd_rules E) (rule_for ing (sd_next_addr s, h, p)) (routeRuleCache s) of
       (err, cache) \<Rightarrow>
         Some (err, s\<lparr>routeRuleCache := cache, sd_next_addr := Suc (sd_next_addr s)\<rparr>))"
  using assms
  by (auto simp: addRule_def path_valid_def rule_for_def rule_host_def rule_path_def ingress_name_def
      ClusterName_def Let_def split: prod.splits)

lemma addRule_None_valid: "addRule E ing h p s = Some (None, s') \<Longrightarrow> path_valid (h, p)"
  by (auto simp: addRule_def path_valid_def ClusterName_def Let_def split: option.splits if_splits)

lemma add_paths_ok:
  "each_go (\<lambda>(h, p). addRule E ing h p) ps s = Some (None, s') \<longleftrightarrow>
     (\<forall>hp \<in> set ps. path_valid hp) \<and>
     (\<exists>cache. puts (put_rule (sd_rules E)) (map (rule_for ing) (List.enumerate (sd_next_addr s) ps))
                (routeRuleCache s) = (None, cache) \<and>
        s' = s\<lparr>routeRuleCache := cache, sd_next_addr := sd_next_addr s + length ps\<rparr>)"
proof (induction ps arbitrary: s)
  case (Cons hp ps)
  obtain h p where hp: "hp = (h, p)" by (cases hp)
  show ?case
  proof (cases "path_valid hp")
    case True
    obtain err c1 where put: "put_rule (sd_rules E) (rule_for ing (sd_next_addr s, h, p))
        (routeRuleCache s) = (err, c1)" by (metis surj_pair)
    show ?thesis
      using True put addRule_valid [of h p E ing s]
        Cons.IH [of "s\<lparr>routeRuleCache := c1, sd_next_addr := Suc (sd_next_addr s)\<rparr>"]
      by (cases err) (auto simp: hp enumerate_simps)
  next
    case False
    then show ?thesis using addRule_None_valid [of E ing h p s]
      by (auto simp: hp each_go_None_Cons simp del: each_go.simps)
  qed
qed auto

lemma updateCache_ok:
  "updateCache E ing s = Some (None, s') \<longleftrightarrow>
     (\<forall>hp \<in> set (paths_of ing). path_valid hp) \<and>
     (\<exists>cache. puts (put_rule (sd_rules E)) (rules_for (sd_next_addr s) ing) (routeRuleCache s) =
                (None, cache) \<and>
        s' = s\<lparr>routeRuleCache := cache, sd_next_addr := sd_next_addr s + length (paths_of ing)\<rparr>)"
  unfolding updateCache_flat add_paths_ok rules_for_def ..

subsection \<open>What an operation leaves alone\<close>

text \<open>The parts of the state that only a successful update of the route table changes.\<close>

definition sd_tables :: "'m server_data \<Rightarrow> host_table_conf \<times> route_table_file \<times> bfe_cluster_conf \<times>
    string \<times> string \<times> string" where
  "sd_tables s = (hostTableConf s, routeTableFile s, bfeClusterConf s, hostTableVersion s,
     routeTableVersion s, bfeClusterConfVersion s)"

lemma addRule_frame: "addRule E ing h p s = Some (err, s') \<Longrightarrow> sd_tables s' = sd_tables s"
  by (auto simp: addRule_def sd_tables_def Let_def split: option.splits prod.splits if_splits)

lemma updateCache_frame: "updateCache E ing s = Some (err, s') \<Longrightarrow> sd_tables s' = sd_tables s"
  unfolding updateCache_flat
  by (rule each_go_invariant [where P = "\<lambda>t. sd_tables t = sd_tables s"])
    (auto dest: addRule_frame split: prod.splits)

lemma sd_delete_rules_tables [simp]: "sd_tables (sd_delete_rules E sch i s) = sd_tables s"
  by (simp add: sd_delete_rules_def sd_tables_def)

lemma updateRouteTable_error: "updateRouteTable E w now s = (Some e, s') \<Longrightarrow> s' = s"
  by (auto simp: updateRouteTable_def Let_def split: prod.splits sum.splits option.splits)

lemma updateRouteTable_cache [simp]:
  "routeRuleCache (snd (updateRouteTable E w now s)) = routeRuleCache s"
  "sd_next_addr (snd (updateRouteTable E w now s)) = sd_next_addr s"
  "hostTableConf (snd (updateRouteTable E w now s)) = hostTableConf s"
  "bfeClusterConf (snd (updateRouteTable E w now s)) = bfeClusterConf s"
  by (auto simp: updateRouteTable_def Let_def split: prod.splits sum.splits option.splits)

lemma updateBfeClusterConf_cache [simp]:
  "routeRuleCache (updateBfeClusterConf E w now s) = routeRuleCache s"
  "sd_next_addr (updateBfeClusterConf E w now s) = sd_next_addr s"
  "hostTableConf (updateBfeClusterConf E w now s) = hostTableConf s"
  "routeTableFile (updateBfeClusterConf E w now s) = routeTableFile s"
  by (simp_all add: updateBfeClusterConf_def Let_def split: prod.splits)

text \<open>The state after the old rules of an ingress are removed.\<close>

definition sd_cleared :: "'m sd_env \<Rightarrow> sd_choice \<Rightarrow> string \<Rightarrow> 'm server_data \<Rightarrow> 'm server_data" where
  "sd_cleared E ch i s =
     (if ContainsIngress (sd_rules E) i (routeRuleCache s) then sd_delete_rules E (ch_delete ch) i s else s)"

lemma sd_cleared_simps [simp]:
  "sd_tables (sd_cleared E ch i s) = sd_tables s"
  "sd_next_addr (sd_cleared E ch i s) = sd_next_addr s"
  "routeRuleCache (sd_cleared E ch i s) =
     (if ContainsIngress (sd_rules E) i (routeRuleCache s)
      then delete_rules (sd_rules E) (ch_delete ch) i (routeRuleCache s) else routeRuleCache s)"
  by (simp_all add: sd_cleared_def sd_delete_rules_def sd_tables_def)

lemma sd_UpdateIngress_cases:
  assumes "sd_UpdateIngress E ch ing s = Some (err, s')"
  obtains (none) "ing_rules ing = []" "err = None" "s' = s"
  | (refused) e s2 where "ing_rules ing \<noteq> []" "err = Some e"
      "updateCache E ing (sd_cleared E ch (ingress_name ing) s) = Some (Some e, s2)"
      "s' = sd_delete_rules E (ch_undo ch) (ingress_name ing) s2"
  | (unroutable) e s2 where "ing_rules ing \<noteq> []" "err = Some e"
      "updateCache E ing (sd_cleared E ch (ingress_name ing) s) = Some (None, s2)"
      "updateRouteTable E (ch_table ch) (ch_table_now ch) s2 = (Some e, s2)"
      "s' = sd_delete_rules E (ch_undo ch) (ingress_name ing) s2"
  | (ok) s2 s3 where "ing_rules ing \<noteq> []" "err = None"
      "updateCache E ing (sd_cleared E ch (ingress_name ing) s) = Some (None, s2)"
      "updateRouteTable E (ch_table ch) (ch_table_now ch) s2 = (None, s3)"
      "s' = updateBfeClusterConf E (ch_conf ch) (ch_conf_now ch) s3"
proof (cases "ing_rules ing = []")
  case True
  then show thesis using assms by (intro none) (simp_all add: sd_UpdateIngress_def)
next
  case False
  then have u: "(case updateCache E ing (sd_cleared E ch (ingress_name ing) s) of
      None \<Rightarrow> None
    | Some (Some e, s2) \<Rightarrow> Some (Some e, sd_delete_rules E (ch_undo ch) (ingress_name ing) s2)
    | Some (None, s2) \<Rightarrow>
        (case updateRouteTable E (ch_table ch) (ch_table_now ch) s2 of
           (Some e, s3) \<Rightarrow> Some (Some e, sd_delete_rules E (ch_undo ch) (ingress_name ing) s3)
         | (None, s3) \<Rightarrow> Some (None, updateBfeClusterConf E (ch_conf ch) (ch_conf_now ch) s3))) =
      Some (err, s')"
    using assms unfolding sd_UpdateIngress_def sd_cleared_def ingress_name_def Let_def
    by (simp split del: if_split)
  then obtain err2 s2 where c: "updateCache E ing (sd_cleared E ch (ingress_name ing) s) = Some (err2, s2)"
    by (auto split: option.splits)
  show thesis
  proof (cases err2)
    case (Some e)
    then show thesis using u c False by (intro refused [of e s2]) simp_all
  next
    case no_err: None
    obtain err3 s3 where t: "updateRouteTable E (ch_table ch) (ch_table_now ch) s2 = (err3, s3)"
      by (metis surj_pair)
    show thesis
    proof (cases err3)
      case (Some e)
      then have "s3 = s2" using t updateRouteTable_error by blast
      then show thesis using u c t Some no_err False by (intro unroutable [of e s2]) simp_all
    next
      case None
      then show thesis using u c t no_err False by (intro ok [of s2 s3]) simp_all
    qed
  qed
qed

subsection \<open>The cache through updates and deletions\<close>

lemma addRule_shape:
  assumes "addRule E ing h p s = Some (err, s')"
  shows "s' = s \<or> (\<exists>r. r_ingress r = ingress_name ing \<and>
    routeRuleCache s' = snd (put_rule (sd_rules E) r (routeRuleCache s)))"
proof (cases "path_valid (h, p)")
  case True
  then show ?thesis using assms addRule_valid [OF True, of E ing s]
    by (auto split: prod.splits intro!: exI [of _ "rule_for ing (sd_next_addr s, h, p)"])
next
  case False
  then show ?thesis using assms
    by (auto simp: addRule_def path_valid_def ClusterName_def Let_def split: option.splits if_splits)
qed

abbreviation sd_view_of :: "'m server_data \<Rightarrow> rule_key \<Rightarrow> http_rule option" where
  "sd_view_of s \<equiv> route_view (ruleMap (routeRuleCache s))"

locale server_rules = rule_multimap "sd_rules E" R
  for E :: "'m sd_env" and R :: "'m \<Rightarrow> (string \<times> http_rule) set"
begin

abbreviation sd_wf :: "'m server_data \<Rightarrow> bool" where
  "sd_wf s \<equiv> wf_cache R (routeRuleCache s)"

lemma new_wf: "sd_wf (NewServerDataConfig E v)"
  by (simp add: NewServerDataConfig_def new_cache_wf)

lemma delete_wf: "sd_wf s \<Longrightarrow> sd_wf (sd_delete_rules E sch i s)"
  by (simp add: sd_delete_rules_def delete_rules_wf)

lemma delete_view: "sd_wf s \<Longrightarrow> sd_view_of (sd_delete_rules E sch i s) = without i (sd_view_of s)"
  by (simp add: sd_delete_rules_def rs.delete_view)

lemma cleared_wf: "sd_wf s \<Longrightarrow> sd_wf (sd_cleared E ch i s)"
  by (simp add: delete_rules_wf)

lemma cleared_view: "sd_wf s \<Longrightarrow> sd_view_of (sd_cleared E ch i s) = without i (sd_view_of s)"
  using rs.delete_if_contained [of "routeRuleCache s" i "ch_delete ch"] by simp

text \<open>During an update every entry is old or belongs to the ingress.\<close>

lemma updateCache_entries:
  assumes "updateCache E ing s = Some (err, s')" and "sd_wf s"
  shows "sd_wf s' \<and>
    (\<forall>k r. sd_view_of s' k = Some r \<longrightarrow> sd_view_of s k = Some r \<or> r_ingress r = ingress_name ing)"
  using assms(1) unfolding updateCache_flat
proof (rule each_go_invariant)
  show "sd_wf s \<and> (\<forall>k r. sd_view_of s k = Some r \<longrightarrow>
      sd_view_of s k = Some r \<or> r_ingress r = ingress_name ing)"
    using assms(2) by simp
next
  fix x and t t' :: "'m server_data" and e
  assume inv: "sd_wf t \<and> (\<forall>k r. sd_view_of t k = Some r \<longrightarrow>
      sd_view_of s k = Some r \<or> r_ingress r = ingress_name ing)"
    and x: "(case x of (h, p) \<Rightarrow> addRule E ing h p) t = Some (e, t')"
  obtain h p where "addRule E ing h p t = Some (e, t')" using x by (auto split: prod.splits)
  from addRule_shape [OF this]
  show "sd_wf t' \<and> (\<forall>k r. sd_view_of t' k = Some r \<longrightarrow>
      sd_view_of s k = Some r \<or> r_ingress r = ingress_name ing)"
  proof
    assume "\<exists>r. r_ingress r = ingress_name ing \<and>
      routeRuleCache t' = snd (put_rule (sd_rules E) r (routeRuleCache t))"
    then obtain q where q: "r_ingress q = ingress_name ing"
      "routeRuleCache t' = snd (put_rule (sd_rules E) q (routeRuleCache t))" by blast
    have "sd_view_of t' k = Some r \<Longrightarrow> sd_view_of t k = Some r \<or> r = q" for k r
      unfolding q(2) rs.put_view by (rule spec_put_keeps_or_adds)
    then show ?thesis using inv q put_rule_wf by fastforce
  qed (use inv in simp)
qed

lemma update_wf:
  assumes "sd_UpdateIngress E ch ing s = Some (err, s')" and "sd_wf s"
  shows "sd_wf s'"
  using assms(1)
proof (cases rule: sd_UpdateIngress_cases)
  case none
  then show ?thesis using assms(2) by simp
next
  case (refused e s2)
  then show ?thesis
    using updateCache_entries [OF refused(3)] cleared_wf [OF assms(2)] by (simp add: delete_wf)
next
  case (unroutable e s2)
  then show ?thesis
    using updateCache_entries [OF unroutable(3)] cleared_wf [OF assms(2)] by (simp add: delete_wf)
next
  case (ok s2 s3)
  have "sd_wf s2" using updateCache_entries [OF ok(3)] cleared_wf [OF assms(2)] by simp
  moreover have "routeRuleCache s3 = routeRuleCache s2"
    using updateRouteTable_cache(1) [of E "ch_table ch" "ch_table_now ch" s2] ok(4) by simp
  ultimately show ?thesis using ok(5) by simp
qed

lemma update_error:
  assumes "sd_UpdateIngress E ch ing s = Some (Some e, s')" and "sd_wf s"
  shows "sd_tables s' = sd_tables s \<and>
    (\<forall>k r. sd_view_of s' k = Some r \<longrightarrow> sd_view_of s k = Some r \<and> r_ingress r \<noteq> ingress_name ing)"
proof -
  let ?i = "ingress_name ing" and ?c = "sd_cleared E ch (ingress_name ing) s"
  have undone: "sd_tables s' = sd_tables s \<and>
      (\<forall>k r. sd_view_of s' k = Some r \<longrightarrow> sd_view_of s k = Some r \<and> r_ingress r \<noteq> ?i)"
    if u: "updateCache E ing ?c = Some (err, s2)" and s': "s' = sd_delete_rules E (ch_undo ch) ?i s2"
    for err s2
  proof -
    have "sd_wf s2" and old: "\<And>k r. sd_view_of s2 k = Some r \<Longrightarrow>
        sd_view_of ?c k = Some r \<or> r_ingress r = ?i"
      using updateCache_entries [OF u cleared_wf [OF assms(2)]] by blast+
    then have v: "sd_view_of s' = without ?i (sd_view_of s2)" using s' delete_view by simp
    have "sd_view_of s k = Some r \<and> r_ingress r \<noteq> ?i" if "sd_view_of s' k = Some r" for k r
    proof -
      have r: "sd_view_of s2 k = Some r" "r_ingress r \<noteq> ?i" using that by (simp_all add: v without_Some)
      then have "sd_view_of ?c k = Some r" using old by blast
      then have "without ?i (sd_view_of s) k = Some r" by (simp only: cleared_view [OF assms(2)])
      then show ?thesis by (simp add: without_Some)
    qed
    moreover have "sd_tables s' = sd_tables s" using updateCache_frame [OF u] s' by simp
    ultimately show ?thesis by blast
  qed
  from assms(1) show ?thesis
    by (cases rule: sd_UpdateIngress_cases) (use undone in simp_all)
qed

lemma update_ok_view:
  assumes "sd_UpdateIngress E ch ing s = Some (None, s')" and "sd_wf s" and "ing_rules ing \<noteq> []"
  shows "(\<forall>hp \<in> set (paths_of ing). path_valid hp) \<and>
    spec_puts (rules_for (sd_next_addr s) ing) (without (ingress_name ing) (sd_view_of s)) =
      (None, sd_view_of s')"
  using assms(1)
proof (cases rule: sd_UpdateIngress_cases)
  case (ok s2 s3)
  let ?c = "sd_cleared E ch (ingress_name ing) s"
  have u: "\<forall>hp \<in> set (paths_of ing). path_valid hp"
    "puts (put_rule (sd_rules E)) (rules_for (sd_next_addr s) ing) (routeRuleCache ?c) =
       (None, routeRuleCache s2)"
    using ok(3) unfolding updateCache_ok by auto
  have "routeRuleCache s' = routeRuleCache s2"
    using updateRouteTable_cache(1) [of E "ch_table ch" "ch_table_now ch" s2] ok(4,5) by simp
  then have "spec_puts (rules_for (sd_next_addr s) ing) (sd_view_of ?c) = (None, sd_view_of s')"
    using rs.puts_refines [of "rules_for (sd_next_addr s) ing" "routeRuleCache ?c"] u(2)
    by (simp add: prod_eq_iff)
  then show ?thesis using u(1) cleared_view [OF assms(2), of ch "ingress_name ing"] by simp
qed (use assms(3) in simp_all)

lemma delete_ingress_wf: "sd_wf s \<Longrightarrow> sd_wf (sd_DeleteIngress E ch ns n s)"
  by (simp add: sd_DeleteIngress_def Let_def delete_wf)

lemma delete_ingress_view:
  assumes "sd_wf s"
  shows "sd_view_of (sd_DeleteIngress E ch ns n s) = without (NamespacedName ns n) (sd_view_of s)"
  using rs.without_unknown [OF assms] delete_view [OF assms]
  by (simp add: sd_DeleteIngress_def Let_def)

end

interpretation lsr: server_rules "\<lparr>sd_rules = list_multimap, sd_default_backend = db, sd_convert = cv\<rparr>" set
  by (simp add: server_rules_def lrm.rule_multimap_axioms)

end
