(* ===== verification/Route_Table_Spec.thy ===== *)
theory Route_Table_Spec
  imports Server_Data_Spec
begin

text \<open>
  The generated route table against the rule cache: every cached rule is routed, every entry
  comes from a cached rule, and every cluster the table names is configured.
\<close>

subsection \<open>Lookups in what the folds build\<close>

lemma mget_fold_store:
  "mget (fold (\<lambda>r m. if P r then m else mput (f r) v m) rs m) n =
     (if \<exists>r \<in> set rs. \<not> P r \<and> f r = n then Some v else mget m n)"
  by (induction rs arbitrary: m) auto

lemma mget_fold_store_all:
  "mget (fold (\<lambda>r m. mput (f r) v m) rs m) n = (if \<exists>r \<in> set rs. f r = n then Some v else mget m n)"
  by (induction rs arbitrary: m) auto

lemma advanced_files_set:
  assumes "advanced_files rs = Inr fs"
  shows "set fs = {f. \<exists>r \<in> set rs. \<exists>c. buildCondition (r_host r) (r_path r) (r_annots r) = Inr c \<and>
    f = \<lparr>af_cond = c, af_cluster = r_cluster r\<rparr>} \<and>
    (\<forall>r \<in> set rs. \<exists>c. buildCondition (r_host r) (r_path r) (r_annots r) = Inr c)"
  using assms
proof (induction rs arbitrary: fs)
  case (Cons r rs)
  obtain c fs' where c: "buildCondition (r_host r) (r_path r) (r_annots r) = Inr c"
    "advanced_files rs = Inr fs'" "fs = \<lparr>af_cond = c, af_cluster = r_cluster r\<rparr> # fs'"
    using Cons.prems by (auto split: sum.splits)
  from Cons.IH [OF c(2)] show ?case using c by auto
qed simp

lemma advanced_files_map:
  "advanced_files rs = Inr fs \<Longrightarrow> map af_cluster fs = map r_cluster rs"
proof (induction rs arbitrary: fs)
  case (Cons r rs)
  then show ?case by (auto split: sum.splits)
qed simp

subsection \<open>The rules handed out\<close>

lemma set_basic:
  assumes "wf_rule_map (ruleMap c)"
  shows "b \<in> set (fst (get_rules w c)) \<longleftrightarrow>
    (\<exists>h p rs. rules_find (ruleMap c) h p = Some rs \<and> b \<in> set (basic_of rs))"
proof -
  have "b \<in> set (fst (get_rules w c)) \<longleftrightarrow> (\<exists>rs \<in> set (visit w (ruleMap c)). b \<in> set (basic_of rs))"
    by (simp add: get_rules_fst)
  also have "\<dots> \<longleftrightarrow> (\<exists>rs. (\<exists>h p. rules_find (ruleMap c) h p = Some rs) \<and> b \<in> set (basic_of rs))"
    unfolding Bex_def set_visit [OF assms, of _ w] ..
  finally show ?thesis by blast
qed

lemma rules_empty_iff:
  assumes "wf_rule_map (ruleMap c)"
  shows "length (fst (get_rules w c)) > 0 \<or> length (snd (get_rules w c)) > 0 \<longleftrightarrow>
    (\<exists>h p rs. rules_find (ruleMap c) h p = Some rs)"
proof -
  let ?some = "\<exists>h p rs. rules_find (ruleMap c) h p = Some rs"
  have ex: "length xs > 0 \<longleftrightarrow> (\<exists>x. x \<in> set xs)" for xs :: "http_rule list" by (cases xs) auto
  have 1: "\<exists>b. b \<in> set (fst (get_rules w c))" if "rules_find (ruleMap c) h p = Some rs" for h p rs
  proof -
    have "rs \<noteq> []" using assms that by (simp add: wf_rule_map_def group_ok_def)
    then have "basic_of rs \<noteq> []" by (simp add: basic_of_def)
    then obtain b where "b \<in> set (basic_of rs)" by (cases "basic_of rs") auto
    then show ?thesis using that unfolding set_basic [OF assms] by blast
  qed
  have 2: ?some if "b \<in> set (fst (get_rules w c))" for b
    using that unfolding set_basic [OF assms] by blast
  have 3: ?some if "r \<in> set (snd (get_rules w c))" for r
    using that unfolding set_advanced [OF assms] by blast
  show ?thesis unfolding ex using 1 2 3 by blast
qed

subsection \<open>The two generated files\<close>

lemma updateRouteTable_ok:
  assumes "updateRouteTable E w now s = (None, s')"
  obtains fs where "advanced_files (snd (get_rules w (routeRuleCache s))) = Inr fs"
    and "routeTableFile s' = \<lparr>rt_version = now,
      rt_basic = [(DefaultProduct, map basic_file (fst (get_rules w (routeRuleCache s))))],
      rt_product = [(DefaultProduct, fs @ default_file E (fst (get_rules w (routeRuleCache s)))
                                          (snd (get_rules w (routeRuleCache s))))]\<rparr>"
    and "sd_convert E (routeTableFile s') = None"
  using assms
  by (cases "get_rules w (routeRuleCache s)")
    (auto simp: updateRouteTable_def newRouteTableConfFile_def Let_def split: sum.splits option.splits)

definition table_clusters :: "route_table_file \<Rightarrow> string set" where
  "table_clusters t =
     (\<Union>(p, fs) \<in> set (rt_basic t). bf_cluster ` set fs) \<union>
     (\<Union>(p, fs) \<in> set (rt_product t). af_cluster ` set fs)"

definition conf_clusters :: "bfe_cluster_conf \<Rightarrow> string set" where
  "conf_clusters b = {n. mget (bc_config b) n \<noteq> None}"

text \<open>The route table names configured clusters only, but for the marker of the advanced mode.\<close>

definition sd_consistent :: "'m server_data \<Rightarrow> bool" where
  "sd_consistent s \<longleftrightarrow> table_clusters (routeTableFile s) \<subseteq> insert AdvancedMode (conf_clusters (bfeClusterConf s))"

definition has_default :: "'m sd_env \<Rightarrow> rule_map \<Rightarrow> bool" where
  "has_default E m \<longleftrightarrow> sd_default_backend E \<noteq> [] \<and> (\<exists>h p rs. rules_find m h p = Some rs)"

lemma default_file_clusters:
  assumes "wf_rule_map (ruleMap c)"
  shows "af_cluster ` set (default_file E (fst (get_rules w c)) (snd (get_rules w c))) =
    (if has_default E (ruleMap c) then {DefaultClusterName (sd_default_backend E)} else {})"
  using rules_empty_iff [OF assms, of w] by (auto simp: default_file_def has_default_def)

lemma conf_clusters_update:
  assumes "wf_rule_map (ruleMap (routeRuleCache s))"
  shows "conf_clusters (bfeClusterConf (updateBfeClusterConf E w now s)) =
    {r_cluster r | r. r \<in> set (fst (get_rules w (routeRuleCache s))) \<and> r_cluster r \<noteq> AdvancedMode} \<union>
    r_cluster ` set (snd (get_rules w (routeRuleCache s))) \<union>
    (if has_default E (ruleMap (routeRuleCache s)) then {DefaultClusterName (sd_default_backend E)} else {})"
proof -
  have "(sd_default_backend E \<noteq> [] \<and> (fst (get_rules w (routeRuleCache s)) \<noteq> [] \<or>
      snd (get_rules w (routeRuleCache s)) \<noteq> [])) \<longleftrightarrow> has_default E (ruleMap (routeRuleCache s))"
    using rules_empty_iff [OF assms, of w] by (simp add: has_default_def)
  then show ?thesis
    by (cases "get_rules w (routeRuleCache s)")
      (auto simp: conf_clusters_def updateBfeClusterConf_def newBfeClusterConf_def Let_def
        mget_fold_store mget_fold_store_all)
qed

lemma table_clusters_update:
  assumes ok: "updateRouteTable E w now s = (None, s')"
    and wf: "wf_rule_map (ruleMap (routeRuleCache s))"
  shows "table_clusters (routeTableFile s') =
    r_cluster ` set (fst (get_rules w (routeRuleCache s))) \<union>
    r_cluster ` set (snd (get_rules w (routeRuleCache s))) \<union>
    (if has_default E (ruleMap (routeRuleCache s)) then {DefaultClusterName (sd_default_backend E)} else {})"
proof -
  obtain fs where fs: "advanced_files (snd (get_rules w (routeRuleCache s))) = Inr fs"
    "routeTableFile s' = \<lparr>rt_version = now,
      rt_basic = [(DefaultProduct, map basic_file (fst (get_rules w (routeRuleCache s))))],
      rt_product = [(DefaultProduct, fs @ default_file E (fst (get_rules w (routeRuleCache s)))
                                          (snd (get_rules w (routeRuleCache s))))]\<rparr>"
    using updateRouteTable_ok [OF ok] by blast
  have "af_cluster ` set fs = r_cluster ` set (snd (get_rules w (routeRuleCache s)))"
    using advanced_files_map [OF fs(1)] by (metis image_set)
  moreover have "bf_cluster (basic_file r) = r_cluster r" for r by (simp add: basic_file_def)
  ultimately show ?thesis
    using default_file_clusters [OF wf, of E w]
    by (simp add: table_clusters_def fs(2) image_Un image_image Un_assoc)
qed

text \<open>The two files are built from two readings of one cache, in whatever order.\<close>

lemma tables_consistent:
  assumes ok: "updateRouteTable E w now s = (None, s')"
    and wf: "wf_rule_map (ruleMap (routeRuleCache s))"
  shows "sd_consistent (updateBfeClusterConf E w' now' s')"
proof -
  have c: "routeRuleCache s' = routeRuleCache s"
    using updateRouteTable_cache(1) [of E w now s] ok by simp
  have b: "set (fst (get_rules w (routeRuleCache s))) = set (fst (get_rules w' (routeRuleCache s)))"
    using set_basic [OF wf] by blast
  have a: "set (snd (get_rules w (routeRuleCache s))) = set (snd (get_rules w' (routeRuleCache s)))"
    using set_advanced [OF wf] by blast
  have wf': "wf_rule_map (ruleMap (routeRuleCache s'))" using wf c by simp
  show ?thesis
    using conf_clusters_update [OF wf', of E w' now'] table_clusters_update [OF ok wf] b a c
    by (auto simp: sd_consistent_def)
qed

subsection \<open>Every cached rule is routed\<close>

text \<open>
  What the table holds for one rule: an entry of its own, when it is the only rule for its host
  and path and has no advanced condition, or the marker of the advanced mode and an entry under
  its condition.
\<close>

definition basic_entries :: "route_table_file \<Rightarrow> basic_rule_file set" where
  "basic_entries t = (\<Union>(p, fs) \<in> set (rt_basic t). set fs)"

definition advanced_entries :: "route_table_file \<Rightarrow> advanced_rule_file set" where
  "advanced_entries t = (\<Union>(p, fs) \<in> set (rt_product t). set fs)"

definition routed :: "route_table_file \<Rightarrow> http_rule list \<Rightarrow> http_rule \<Rightarrow> bool" where
  "routed t rs r \<longleftrightarrow>
     (if is_basic_group rs then basic_file r \<in> basic_entries t
      else basic_file (r\<lparr>r_cluster := AdvancedMode\<rparr>) \<in> basic_entries t \<and>
           (\<exists>c. buildCondition (r_host r) (r_path r) (r_annots r) = Inr c \<and>
                \<lparr>af_cond = c, af_cluster = r_cluster r\<rparr> \<in> advanced_entries t))"

lemma table_routes:
  assumes ok: "updateRouteTable E w now s = (None, s')"
    and wf: "wf_rule_map (ruleMap (routeRuleCache s))"
    and rs: "rules_find (ruleMap (routeRuleCache s)) h p = Some rs" and r: "r \<in> set rs"
  shows "routed (routeTableFile s') rs r"
proof -
  obtain fs where fs: "advanced_files (snd (get_rules w (routeRuleCache s))) = Inr fs"
    "routeTableFile s' = \<lparr>rt_version = now,
      rt_basic = [(DefaultProduct, map basic_file (fst (get_rules w (routeRuleCache s))))],
      rt_product = [(DefaultProduct, fs @ default_file E (fst (get_rules w (routeRuleCache s)))
                                          (snd (get_rules w (routeRuleCache s))))]\<rparr>"
    using updateRouteTable_ok [OF ok] by blast
  have ne: "rs \<noteq> []" using r by auto
  have basic: "b \<in> set (basic_of rs) \<Longrightarrow> basic_file b \<in> basic_entries (routeTableFile s')" for b
    using set_basic [OF wf, of b w] rs by (auto simp: basic_entries_def fs(2))
  show ?thesis
  proof (cases "is_basic_group rs")
    case True
    then have "basic_of rs = [r]" using r by (auto simp: basic_of_def is_basic_group_def length_Suc_conv)
    then show ?thesis using True basic [of r] by (simp add: routed_def)
  next
    case False
    have "r_host (hd rs) = r_host r \<and> r_path (hd rs) = r_path r"
      using wf rs r ne by (auto simp: wf_rule_map_def group_ok_def)
    then have "basic_file ((hd rs)\<lparr>r_cluster := AdvancedMode\<rparr>) = basic_file (r\<lparr>r_cluster := AdvancedMode\<rparr>)"
      by (simp add: basic_file_def)
    then have 1: "basic_file (r\<lparr>r_cluster := AdvancedMode\<rparr>) \<in> basic_entries (routeTableFile s')"
      using basic [of "(hd rs)\<lparr>r_cluster := AdvancedMode\<rparr>"] ne False by (simp add: basic_of_def)
    have adv: "r \<in> set (snd (get_rules w (routeRuleCache s)))"
      using set_advanced [OF wf] rs r False by blast
    then obtain c where c: "buildCondition (r_host r) (r_path r) (r_annots r) = Inr c"
      using advanced_files_set [OF fs(1)] by blast
    then have "\<lparr>af_cond = c, af_cluster = r_cluster r\<rparr> \<in> set fs"
      using advanced_files_set [OF fs(1)] adv by blast
    then show ?thesis using 1 c False by (auto simp: routed_def advanced_entries_def fs(2))
  qed
qed

text \<open>After a successful update every rule of the cache is routed.\<close>

context server_rules
begin

lemma update_routes:
  assumes u: "sd_UpdateIngress E ch ing s = Some (None, s')" and "wf_cache R (routeRuleCache s)"
    and "ing_rules ing \<noteq> []" and rs: "rules_find (ruleMap (routeRuleCache s')) h p = Some rs" and r: "r \<in> set rs"
  shows "routed (routeTableFile s') rs r"
  using u
proof (cases rule: sd_UpdateIngress_cases)
  case (ok s2 s3)
  have "wf_cache R (routeRuleCache s2)" using updateCache_entries [OF ok(3) cleared_wf [OF assms(2)]] by blast
  then have wf: "wf_rule_map (ruleMap (routeRuleCache s2))" by (simp add: wf_cache_def)
  have "routeRuleCache s3 = routeRuleCache s2"
    using updateRouteTable_cache(1) [of E "ch_table ch" "ch_table_now ch" s2] ok(4) by simp
  then have "rules_find (ruleMap (routeRuleCache s2)) h p = Some rs" using rs ok(5) by simp
  from table_routes [OF ok(4) wf this r] show ?thesis by (simp add: ok(5))
qed (use assms(3) in simp_all)

end

end
