(* ===== verification/Cluster_Spec.thy ===== *)
theory Cluster_Spec
  imports Cluster_Config
begin

text \<open>
  What the cluster component promises: which clusters and weights an ingress gets, what deleting
  an ingress or a service removes, and the invariants that every operation keeps.
\<close>

subsection \<open>Lookups after stores\<close>

named_theorems cl_simps

lemma cl_stores [cl_simps]:
  "table (set_table m c) = m" "gslb (set_table m c) = gslb c"
  "gslb (set_gslb w c) = w" "table (set_gslb w c) = table c"
  "ingress2Cluster (set_table m c) = ingress2Cluster c" "service2Cluster (set_table m c) = service2Cluster c"
  "ingress2Cluster (set_gslb w c) = ingress2Cluster c" "service2Cluster (set_gslb w c) = service2Cluster c"
  by (simp_all add: set_table_def set_gslb_def)

lemma cl_setVersion_simps [cl_simps]:
  "table (cl_setVersion now c) = table c" "gslb (cl_setVersion now c) = gslb c"
  "ingress2Cluster (cl_setVersion now c) = ingress2Cluster c"
  "service2Cluster (cl_setVersion now c) = service2Cluster c"
  by (simp_all add: cl_setVersion_def)

subsection \<open>Deleting clusters\<close>

lemma delete_cluster_simps [cl_simps]:
  "mget (table (delete_cluster E n c)) m = (if n = m then None else mget (table c) m)"
  "mget (gslb (delete_cluster E n c)) m = (if n = m then None else mget (gslb c) m)"
  "ingress2Cluster (delete_cluster E n c) = ingress2Cluster c"
  by (simp_all add: delete_cluster_def Let_def cl_simps)

lemma delete_clusters_simps [cl_simps]:
  "mget (table (fold (delete_cluster E) ns c)) m = (if m \<in> set ns then None else mget (table c) m)"
  "mget (gslb (fold (delete_cluster E) ns c)) m = (if m \<in> set ns then None else mget (gslb c) m)"
  "ingress2Cluster (fold (delete_cluster E) ns c) = ingress2Cluster c"
  by (induction ns arbitrary: c) (auto simp: cl_simps)

lemma delDefautBackend_simps [cl_simps]:
  "mget (table (delDefautBackend E c)) m =
     (if m = DefaultClusterName (cl_default_backend E) then None else mget (table c) m)"
  "mget (gslb (delDefautBackend E c)) m =
     (if m = DefaultClusterName (cl_default_backend E) then None else mget (gslb c) m)"
  "ingress2Cluster (delDefautBackend E c) = ingress2Cluster c"
  by (auto simp: delDefautBackend_def Let_def cl_simps)

subsection \<open>Adding the paths of an ingress\<close>

definition cluster_name :: "ingress \<Rightarrow> http_ingress_path \<Rightarrow> string" where
  "cluster_name ing p =
     (case ClusterName (NamespacedName (ing_namespace ing) (ing_name ing)) (ib_service (hp_backend p)) of
        None \<Rightarrow> [] | Some n \<Rightarrow> n)"

definition path_cluster ::
  "ingress \<Rightarrow> Balance option \<Rightarrow> (string, service) gomap \<Rightarrow> (string, endpoints) gomap \<Rightarrow>
     http_ingress_path \<Rightarrow> cluster_backend" where
  "path_cluster ing balance services eps p =
     newClusterBackend (ing_namespace ing) (ib_service (hp_backend p)) balance services eps"

definition path_weights :: "ingress \<Rightarrow> Balance option \<Rightarrow> http_ingress_path \<Rightarrow> gslb_cluster" where
  "path_weights ing balance p =
     (case ib_service (hp_backend p) of
        None \<Rightarrow> []
      | Some b \<Rightarrow> newGslbClusterConf (ing_namespace ing) (sb_name b) balance)"

definition add_path_ok where
  "add_path_ok E ing balance services eps p c = the (add_path E ing balance services eps p c)"

lemma add_path_Some_iff:
  "add_path E ing balance services eps p c = Some c' \<longleftrightarrow>
     ib_service (hp_backend p) \<noteq> None \<and> c' = add_path_ok E ing balance services eps p c"
  by (cases "ib_service (hp_backend p)")
    (auto simp: add_path_def add_path_ok_def ClusterName_def Let_def)

lemma add_path_ok_simps [cl_simps]:
  assumes "ib_service (hp_backend p) \<noteq> None"
  shows "mget (table (add_path_ok E ing balance services eps p c)) m =
      (if m = cluster_name ing p then Some (path_cluster ing balance services eps p) else mget (table c) m)"
    and "mget (gslb (add_path_ok E ing balance services eps p c)) m =
      (if m = cluster_name ing p then Some (path_weights ing balance p) else mget (gslb c) m)"
    and "ingress2Cluster (add_path_ok E ing balance services eps p c) =
      mm_put (cl_strs E) (ingress2Cluster c) (NamespacedName (ing_namespace ing) (ing_name ing))
        (cluster_name ing p)"
  using assms
  by (auto simp: add_path_ok_def add_path_def ClusterName_def cluster_name_def path_cluster_def
      path_weights_def Let_def cl_simps)

lemma each_path:
  "each_go (\<lambda>p c. map_option (Pair None) (add_path E ing balance services eps p c)) ps c = Some (err, c') \<longleftrightarrow>
     err = None \<and> (\<forall>p \<in> set ps. ib_service (hp_backend p) \<noteq> None) \<and>
     c' = fold (add_path_ok E ing balance services eps) ps c"
proof (induction ps arbitrary: c)
  case (Cons p ps)
  show ?case
  proof (cases "add_path E ing balance services eps p c")
    case None
    then have "ib_service (hp_backend p) = None"
      using add_path_Some_iff [of E ing balance services eps p c] by (metis option.distinct(1))
    with None show ?thesis by simp
  next
    case (Some c1)
    then have "ib_service (hp_backend p) \<noteq> None" "c1 = add_path_ok E ing balance services eps p c"
      using add_path_Some_iff by blast+
    with Some Cons.IH [of c1] show ?thesis by auto
  qed
qed auto

definition http_paths :: "ingress \<Rightarrow> http_ingress_path list" where
  "http_paths ing = concat (map (\<lambda>rule. case ir_http rule of None \<Rightarrow> [] | Some ps \<Rightarrow> ps) (ing_rules ing))"

text \<open>The two loops of \<^verbatim>\<open>UpdateIngress\<close> add every path, or the code panics.\<close>

lemma each_rule:
  "each_go (add_rule_paths E ing balance services eps) rules c = Some (err, c') \<longleftrightarrow>
     err = None \<and> (\<forall>rule \<in> set rules. ir_http rule \<noteq> None) \<and>
     (let ps = concat (map (\<lambda>rule. case ir_http rule of None \<Rightarrow> [] | Some ps \<Rightarrow> ps) rules)
      in (\<forall>p \<in> set ps. ib_service (hp_backend p) \<noteq> None) \<and>
         c' = fold (add_path_ok E ing balance services eps) ps c)"
proof (induction rules arbitrary: c)
  case (Cons rule rules)
  show ?case
  proof (cases "add_rule_paths E ing balance services eps rule c")
    case None
    then show ?thesis
      using each_path [of E ing balance services eps "case ir_http rule of None \<Rightarrow> [] | Some ps \<Rightarrow> ps" c "None :: error option"
          "fold (add_path_ok E ing balance services eps)
             (case ir_http rule of None \<Rightarrow> [] | Some ps \<Rightarrow> ps) c"]
      by (cases "ir_http rule") (auto simp: add_rule_paths_def ball_Un)
  next
    case (Some r)
    then obtain ps e1 c1 where ps: "ir_http rule = Some ps" "r = (e1, c1)" and
      go: "each_go (\<lambda>p c. map_option (Pair None) (add_path E ing balance services eps p c)) ps c = Some (e1, c1)"
      by (cases r) (auto simp: add_rule_paths_def split: option.splits)
    from go have e1: "e1 = None" "\<forall>p \<in> set ps. ib_service (hp_backend p) \<noteq> None"
      "c1 = fold (add_path_ok E ing balance services eps) ps c"
      unfolding each_path by auto
    show ?thesis using Some ps e1 Cons.IH [of c1] by (auto simp: Let_def)
  qed
qed (auto simp: Let_def)

lemma add_paths_lookup:
  assumes "\<forall>p \<in> set ps. ib_service (hp_backend p) \<noteq> None"
  shows "(m \<notin> cluster_name ing ` set ps \<and>
      mget (table (fold (add_path_ok E ing balance services eps) ps c)) m = mget (table c) m \<and>
      mget (gslb (fold (add_path_ok E ing balance services eps) ps c)) m = mget (gslb c) m) \<or>
    (\<exists>p \<in> set ps. cluster_name ing p = m \<and>
      mget (table (fold (add_path_ok E ing balance services eps) ps c)) m =
        Some (path_cluster ing balance services eps p) \<and>
      mget (gslb (fold (add_path_ok E ing balance services eps) ps c)) m = Some (path_weights ing balance p))"
  using assms
proof (induction ps rule: rev_induct)
  case (snoc p ps)
  then show ?case by (auto simp: cl_simps)
qed simp

subsection \<open>Sub-clusters and their weights\<close>

lemma mget_fold_mput:
  "mget (fold (\<lambda>(k, x). mput (g k) (h k x)) ws m) n \<noteq> None \<longleftrightarrow>
     n \<in> g ` fst ` set ws \<or> mget m n \<noteq> None"
  by (induction ws arbitrary: m) (auto split: prod.splits)

text \<open>The services of a path: those of its balance, else its own.\<close>

definition path_services :: "Balance option \<Rightarrow> ingress_service_backend \<Rightarrow> string set" where
  "path_services balance b =
     (case bal_find balance (sb_name b) of None \<Rightarrow> {sb_name b} | Some ws \<Rightarrow> fst ` set ws)"

lemma newClusterBackend_dom:
  "mget (newClusterBackend ns (Some b) balance services eps) n \<noteq> None \<longleftrightarrow>
     n \<in> NamespacedName ns ` path_services balance b"
proof (cases "bal_find balance (sb_name b)")
  case (Some ws)
  have "newClusterBackend ns (Some b) balance services eps =
      fold (\<lambda>(name, weight). mput (NamespacedName ns name)
        (newSubClusterBackend (mget eps (NamespacedName ns name))
          (getTargetPort (sb_port b) (mget services (NamespacedName ns name))))) ws []"
    by (simp add: newClusterBackend_def Some Let_def)
  then show ?thesis
    using mget_fold_mput [of "NamespacedName ns" "\<lambda>name _. newSubClusterBackend (mget eps (NamespacedName ns name))
          (getTargetPort (sb_port b) (mget services (NamespacedName ns name)))" ws "[]" n]
    by (simp add: Some path_services_def)
qed (auto simp: newClusterBackend_def path_services_def Let_def)

lemma newGslb_dom:
  "mget (newGslbClusterConf ns (sb_name b) balance) n \<noteq> None \<longleftrightarrow>
     n \<in> NamespacedName ns ` path_services balance b"
proof (cases "bal_find balance (sb_name b)")
  case (Some ws)
  then show ?thesis
    using mget_fold_mput [of "NamespacedName ns" "\<lambda>_ x. x" ws "[]" n]
    by (simp add: newGslbClusterConf_def path_services_def)
qed (auto simp: newGslbClusterConf_def path_services_def)

subsection \<open>Weighted sub-clusters exist\<close>

text \<open>Every service with a weight in a cluster is a sub-cluster of that cluster.\<close>

definition weights_ok :: "'m cluster_state \<Rightarrow> bool" where
  "weights_ok c \<longleftrightarrow> (\<forall>n ws s. mget (gslb c) n = Some ws \<longrightarrow> mget ws s \<noteq> None \<longrightarrow>
     (\<exists>subs. mget (table c) n = Some subs \<and> mget subs s \<noteq> None))"

lemma weights_okI:
  "(\<And>n ws s. mget (gslb c) n = Some ws \<Longrightarrow> mget ws s \<noteq> None \<Longrightarrow>
     \<exists>subs. mget (table c) n = Some subs \<and> mget subs s \<noteq> None) \<Longrightarrow> weights_ok c"
  unfolding weights_ok_def by blast

lemma weights_okD:
  "weights_ok c \<Longrightarrow> mget (gslb c) n = Some ws \<Longrightarrow> mget ws s \<noteq> None \<Longrightarrow>
     \<exists>subs. mget (table c) n = Some subs \<and> mget subs s \<noteq> None"
  unfolding weights_ok_def by blast

lemma weights_ok_cong:
  "(\<And>n. mget (table c') n = mget (table c) n) \<Longrightarrow> (\<And>n. mget (gslb c') n = mget (gslb c) n) \<Longrightarrow>
     weights_ok c' \<longleftrightarrow> weights_ok c"
  unfolding weights_ok_def by simp

lemma weights_ok_restrict:
  assumes "weights_ok c"
    and "\<And>n. mget (table c') n = (if P n then None else mget (table c) n)"
    and "\<And>n. mget (gslb c') n = (if P n then None else mget (gslb c) n)"
  shows "weights_ok c'"
  using assms(1) unfolding weights_ok_def assms(2,3) by (auto split: if_splits)

lemma weights_ok_setVersion: "weights_ok (cl_setVersion now c) \<longleftrightarrow> weights_ok c"
  by (rule weights_ok_cong) (simp_all add: cl_simps)

lemma path_weights_ok:
  assumes "ib_service (hp_backend p) \<noteq> None" and "mget (path_weights ing balance p) s \<noteq> None"
  shows "mget (path_cluster ing balance services eps p) s \<noteq> None"
proof -
  obtain b where b: "ib_service (hp_backend p) = Some b" using assms(1) by blast
  then have "s \<in> NamespacedName (ing_namespace ing) ` path_services balance b"
    using assms(2) newGslb_dom [of "ing_namespace ing" b balance s] by (simp add: path_weights_def)
  then show ?thesis
    using newClusterBackend_dom [of "ing_namespace ing" b balance services eps s]
    by (simp add: path_cluster_def b)
qed

lemma add_paths_weights_ok:
  assumes "weights_ok c" and "\<forall>p \<in> set ps. ib_service (hp_backend p) \<noteq> None"
  shows "weights_ok (fold (add_path_ok E ing balance services eps) ps c)"
proof (rule weights_okI)
  fix n ws s
  assume n: "mget (gslb (fold (add_path_ok E ing balance services eps) ps c)) n = Some ws" "mget ws s \<noteq> None"
  from add_paths_lookup [OF assms(2), of n ing E balance services eps c]
  show "\<exists>subs. mget (table (fold (add_path_ok E ing balance services eps) ps c)) n = Some subs \<and>
      mget subs s \<noteq> None"
  proof (elim disjE bexE conjE)
    assume "mget (table (fold (add_path_ok E ing balance services eps) ps c)) n = mget (table c) n"
      "mget (gslb (fold (add_path_ok E ing balance services eps) ps c)) n = mget (gslb c) n"
    then show ?thesis using n weights_okD [OF assms(1), of n ws s] by simp
  next
    fix p
    assume "p \<in> set ps"
      "mget (table (fold (add_path_ok E ing balance services eps) ps c)) n =
        Some (path_cluster ing balance services eps p)"
      "mget (gslb (fold (add_path_ok E ing balance services eps) ps c)) n = Some (path_weights ing balance p)"
    then show ?thesis using n assms(2) path_weights_ok [of p ing balance s services eps] by auto
  qed
qed

lemma addDefautBackend_cases:
  obtains (same) "addDefautBackend E ep c = c"
  | (added) bs where "mget (table c) (DefaultClusterName (cl_default_backend E)) = None"
      "table (addDefautBackend E ep c) =
         mput (DefaultClusterName (cl_default_backend E)) [(cl_default_backend E, Some bs)] (table c)"
      "gslb (addDefautBackend E ep c) =
         mput (DefaultClusterName (cl_default_backend E)) [(cl_default_backend E, defaultWeight)] (gslb c)"
      "ingress2Cluster (addDefautBackend E ep c) = ingress2Cluster c"
      "service2Cluster (addDefautBackend E ep c) =
         mm_put (cl_strs E) (service2Cluster c) (cl_default_backend E)
           (DefaultClusterName (cl_default_backend E))"
proof (cases "addDefautBackend E ep c = c")
  case False
  then obtain bs where i: "ep \<noteq> None" "mget (table c) (DefaultClusterName (cl_default_backend E)) = None"
    "newSubClusterBackend ep zero_ios = Some bs" "length bs \<noteq> 0"
    by (auto simp: addDefautBackend_def Let_def split: if_splits option.splits)
  then show thesis by (intro added [of bs]) (auto simp: addDefautBackend_def Let_def cl_simps)
qed (rule same)

lemma addDefaut_weights_ok: "weights_ok c \<Longrightarrow> weights_ok (addDefautBackend E ep c)"
proof (cases rule: addDefautBackend_cases [of E ep c])
  case (added i)
  assume "weights_ok c"
  then show ?thesis unfolding weights_ok_def added(2,3) by (auto split: if_splits)
qed simp

lemma delete_ingress_weights_ok:
  assumes "weights_ok c"
  shows "weights_ok (cl_DeleteIngress E now ns n c)"
proof (cases "mm_get (cl_strs E) (ingress2Cluster c) (NamespacedName ns n)")
  case (Pair clusters ok)
  show ?thesis
  proof (cases ok)
    case False
    then show ?thesis using assms Pair by (simp add: cl_DeleteIngress_def)
  next
    case True
    let ?c1 = "fold (delete_cluster E) clusters c"
    have 1: "weights_ok ?c1"
      by (rule weights_ok_restrict [OF assms, of _ "\<lambda>m. m \<in> set clusters"]) (simp_all add: cl_simps)
    let ?c2 = "?c1\<lparr>ingress2Cluster :=
       mm_remove_all (cl_strs E) (ingress2Cluster ?c1) (NamespacedName ns n)\<rparr>"
    have 2: "weights_ok ?c2" using 1 by (simp add: weights_ok_def)
    have 3: "weights_ok (delDefautBackend E ?c2)"
      by (rule weights_ok_restrict [OF 2, of _ "\<lambda>m. m = DefaultClusterName (cl_default_backend E)"])
        (simp_all add: cl_simps)
    show ?thesis using Pair True 2 3 by (simp add: cl_DeleteIngress_def weights_ok_setVersion Let_def)
  qed
qed

end
