(* ===== verification/Cluster_Invariants.thy ===== *)
theory Cluster_Invariants
  imports Cluster_Spec
begin

text \<open>
  Service events, the whole update of an ingress, and the invariants of the cluster component
  over any multimap: weighted sub-clusters exist, and a cluster belongs to one ingress.
\<close>

subsection \<open>Deleting a service\<close>

lemma delete_service_in_table [cl_simps]:
  "mget (table (delete_service_in s n c)) m =
     (if m = n then map_option (mdel s) (mget (table c) m) else mget (table c) m)"
  by (auto simp: delete_service_in_def Let_def cl_simps split: option.splits)

lemma delete_service_in_gslb [cl_simps]:
  "mget (gslb (delete_service_in s n c)) m =
     (if m = n then (case mget (gslb c) m of
                       None \<Rightarrow> None
                     | Some ws \<Rightarrow> if mdel s ws = [] then None else Some (mdel s ws))
      else mget (gslb c) m)"
  by (auto simp: delete_service_in_def mget_or_def Let_def cl_simps split: option.splits)

lemma delete_service_in_maps [cl_simps]:
  "ingress2Cluster (delete_service_in s n c) = ingress2Cluster c"
  "service2Cluster (delete_service_in s n c) = service2Cluster c"
  by (auto simp: delete_service_in_def Let_def cl_simps split: option.splits)

lemma delete_service_fold_table:
  "mget (table (fold (delete_service_in s) ns c)) m =
     (if m \<in> set ns then map_option (mdel s) (mget (table c) m) else mget (table c) m)"
proof (induction ns arbitrary: c)
  case (Cons n ns)
  have "map_option (mdel s) (map_option (mdel s) x) = map_option (mdel s) x"
    for x :: "cluster_backend option"
    by (cases x) (simp_all add: delete_idem)
  then show ?case using Cons by (auto simp: cl_simps)
qed simp

lemma delete_service_fold_gslb:
  "mget (gslb (fold (delete_service_in s) ns c)) m =
     (if m \<in> set ns then
        (case mget (gslb c) m of
           None \<Rightarrow> None
         | Some ws \<Rightarrow> if mdel s ws = [] then None else Some (mdel s ws))
      else mget (gslb c) m)"
proof (induction ns arbitrary: c)
  case (Cons n ns)
  then show ?case by (auto simp: cl_simps delete_idem split: option.split)
qed simp

lemma delete_service_fold_maps [cl_simps]:
  "ingress2Cluster (fold (delete_service_in s) ns c) = ingress2Cluster c"
  "service2Cluster (fold (delete_service_in s) ns c) = service2Cluster c"
  by (induction ns arbitrary: c) (simp_all add: cl_simps)

lemma cl_DeleteService_simps:
  "mget (table (cl_DeleteService E now ns n c)) m =
     (if m \<in> set (fst (mm_get (cl_strs E) (service2Cluster c) (NamespacedName ns n)))
      then map_option (mdel (NamespacedName ns n)) (mget (table c) m) else mget (table c) m)"
  "mget (gslb (cl_DeleteService E now ns n c)) m =
     (if m \<in> set (fst (mm_get (cl_strs E) (service2Cluster c) (NamespacedName ns n))) then
        (case mget (gslb c) m of
           None \<Rightarrow> None
         | Some ws \<Rightarrow> if mdel (NamespacedName ns n) ws = [] then None
                     else Some (mdel (NamespacedName ns n) ws))
      else mget (gslb c) m)"
  "ingress2Cluster (cl_DeleteService E now ns n c) = ingress2Cluster c"
  "service2Cluster (cl_DeleteService E now ns n c) = service2Cluster c"
  by (simp_all add: cl_DeleteService_def Let_def cl_simps delete_service_fold_table
      delete_service_fold_gslb)

lemma delete_service_weights_ok:
  assumes "weights_ok c"
  shows "weights_ok (cl_DeleteService E now ns n c)"
proof (rule weights_okI)
  fix m ws s
  assume a: "mget (gslb (cl_DeleteService E now ns n c)) m = Some ws" "mget ws s \<noteq> None"
  let ?s = "NamespacedName ns n"
  let ?in = "m \<in> set (fst (mm_get (cl_strs E) (service2Cluster c) ?s))"
  obtain ws0 where ws0: "mget (gslb c) m = Some ws0" "?in \<Longrightarrow> ws = mdel ?s ws0" "\<not> ?in \<Longrightarrow> ws = ws0"
    using a(1) by (auto simp: cl_DeleteService_simps split: if_splits option.splits)
  have "mget ws0 s \<noteq> None" using a(2) ws0 by (cases ?in) (auto split: if_splits)
  from weights_okD [OF assms ws0(1) this] obtain subs where
    subs: "mget (table c) m = Some subs" "mget subs s \<noteq> None" by blast
  have "?in \<Longrightarrow> s \<noteq> ?s" using a(2) ws0(2) by auto
  then show "\<exists>subs. mget (table (cl_DeleteService E now ns n c)) m = Some subs \<and> mget subs s \<noteq> None"
    using subs by (auto simp: cl_DeleteService_simps)
qed

subsection \<open>Updating a service\<close>

text \<open>One cluster of the loop: the service is deleted, or its endpoints and weight are replaced.\<close>

lemma update_service_in_cases:
  assumes "update_service_in E now svc ep n c = Some (err, c')"
  obtains (unported) "err = Some (Port_Not_In_Service n)"
      "c' = cl_DeleteService E now (svc_namespace svc) (svc_name svc) c"
  | (stored) subs where "err = None" "mget (table c) n = Some subs"
      "table c' = mput n (mput (NamespacedName (svc_namespace svc) (svc_name svc))
         (newSubClusterBackend ep (getTargetPort (ParsePort n) (Some svc))) subs) (table c)"
      "gslb c' = mput n [(NamespacedName (svc_namespace svc) (svc_name svc), defaultWeight)] (gslb c)"
      "ingress2Cluster c' = ingress2Cluster c" "service2Cluster c' = service2Cluster c"
proof -
  let ?p = "getTargetPort (ParsePort n) (Some svc)"
  let ?s = "NamespacedName (svc_namespace svc) (svc_name svc)"
  show thesis
  proof (cases "no_port ?p \<and> ?s \<noteq> cl_default_backend E")
    case True
    then show thesis using assms by (intro unported) (simp_all add: update_service_in_def)
  next
    case False
    then obtain subs where subs: "mget (table c) n = Some subs"
      using assms by (auto simp: update_service_in_def Let_def split: option.splits)
    have "newGslbClusterConf (svc_namespace svc) (svc_name svc) None = [(?s, defaultWeight)]"
      by (simp add: newGslbClusterConf_def bal_find_def)
    then show thesis
      using assms False subs
      by (intro stored [of subs]) (auto simp: update_service_in_def Let_def cl_simps)
  qed
qed

lemma update_service_in_weights_ok:
  assumes "update_service_in E now svc ep n c = Some (err, c')" and "weights_ok c"
  shows "weights_ok c'"
  using assms(1)
proof (cases rule: update_service_in_cases)
  case unported
  then show ?thesis using assms(2) by (simp add: delete_service_weights_ok)
next
  case (stored subs)
  show ?thesis
    using assms(2) unfolding weights_ok_def stored(3,4) by (auto split: if_splits)
qed

lemma update_service_weights_ok:
  assumes "cl_UpdateService E sch now svc ep c = Some (err, c')" and "weights_ok c"
  shows "weights_ok c'"
proof -
  have go: "each_go (update_service_in E now svc ep) xs c = Some (e, d) \<Longrightarrow> weights_ok d" for xs e d
    by (rule each_go_invariant [where P = weights_ok])
      (use assms(2) update_service_in_weights_ok in auto)
  show ?thesis
    using assms go
    by (auto simp: cl_UpdateService_def Let_def weights_ok_setVersion split: prod.splits option.splits if_splits)
qed

text \<open>When the loop ends without error, every cluster of the service was stored.\<close>

lemma update_services_stored:
  assumes "each_go (update_service_in E now svc ep) ns c = Some (None, c')"
  shows "(\<forall>n \<in> set ns. \<exists>subs. mget (table c') n = Some subs \<and>
        mget subs (NamespacedName (svc_namespace svc) (svc_name svc)) =
          Some (newSubClusterBackend ep (getTargetPort (ParsePort n) (Some svc))) \<and>
        mget (gslb c') n = Some [(NamespacedName (svc_namespace svc) (svc_name svc), defaultWeight)]) \<and>
    (\<forall>n. n \<notin> set ns \<longrightarrow> mget (table c') n = mget (table c) n \<and> mget (gslb c') n = mget (gslb c) n) \<and>
    ingress2Cluster c' = ingress2Cluster c \<and> service2Cluster c' = service2Cluster c"
  using assms
proof (induction ns arbitrary: c)
  case (Cons n ns)
  from Cons.prems obtain c1 where c1: "update_service_in E now svc ep n c = Some (None, c1)"
    and rest: "each_go (update_service_in E now svc ep) ns c1 = Some (None, c')"
    unfolding each_go_None_Cons by blast
  from c1 obtain subs where st: "mget (table c) n = Some subs"
    "table c1 = mput n (mput (NamespacedName (svc_namespace svc) (svc_name svc))
       (newSubClusterBackend ep (getTargetPort (ParsePort n) (Some svc))) subs) (table c)"
    "gslb c1 = mput n [(NamespacedName (svc_namespace svc) (svc_name svc), defaultWeight)] (gslb c)"
    "ingress2Cluster c1 = ingress2Cluster c" "service2Cluster c1 = service2Cluster c"
    by (cases rule: update_service_in_cases) auto
  note IH = Cons.IH [OF rest]
  show ?case
  proof (intro conjI)
    show "\<forall>m \<in> set (n # ns). \<exists>subs. mget (table c') m = Some subs \<and>
        mget subs (NamespacedName (svc_namespace svc) (svc_name svc)) =
          Some (newSubClusterBackend ep (getTargetPort (ParsePort m) (Some svc))) \<and>
        mget (gslb c') m = Some [(NamespacedName (svc_namespace svc) (svc_name svc), defaultWeight)]"
      using IH st by (cases "n \<in> set ns") auto
    show "\<forall>m. m \<notin> set (n # ns) \<longrightarrow>
        mget (table c') m = mget (table c) m \<and> mget (gslb c') m = mget (gslb c) m"
      using IH st by auto
  qed (use IH st in simp_all)
qed simp

text \<open>A cluster whose port the service does not have ends the loop, and the service is deleted.\<close>

definition unported :: "'m cl_env \<Rightarrow> service \<Rightarrow> string \<Rightarrow> bool" where
  "unported E svc n \<longleftrightarrow> no_port (getTargetPort (ParsePort n) (Some svc)) \<and>
     NamespacedName (svc_namespace svc) (svc_name svc) \<noteq> cl_default_backend E"

lemma update_service_in_unported:
  "update_service_in E now svc ep n c = Some (err, c') \<Longrightarrow> err \<noteq> None \<longleftrightarrow> unported E svc n"
  by (auto simp: update_service_in_def unported_def Let_def split: if_splits option.splits)

lemma update_services_ported:
  "each_go (update_service_in E now svc ep) ns c = Some (None, c') \<Longrightarrow> n \<in> set ns \<Longrightarrow> \<not> unported E svc n"
proof (induction ns arbitrary: c)
  case (Cons m ns)
  then obtain c1 where "update_service_in E now svc ep m c = Some (None, c1)"
    "each_go (update_service_in E now svc ep) ns c1 = Some (None, c')"
    unfolding each_go_None_Cons by blast
  then show ?case using Cons.IH Cons.prems(2) update_service_in_unported by fastforce
qed simp

lemma update_services_refused:
  assumes "each_go (update_service_in E now svc ep) ns c = Some (Some e, c')"
  shows "\<exists>m d. m \<in> set ns \<and> unported E svc m \<and> e = Port_Not_In_Service m \<and>
    c' = cl_DeleteService E now (svc_namespace svc) (svc_name svc) d \<and>
    ingress2Cluster d = ingress2Cluster c \<and> service2Cluster d = service2Cluster c \<and>
    (\<forall>n. n \<notin> set ns \<longrightarrow> mget (table d) n = mget (table c) n \<and> mget (gslb d) n = mget (gslb c) n)"
  using assms
proof (induction ns arbitrary: c)
  case (Cons n ns)
  then obtain err c1 where c1: "update_service_in E now svc ep n c = Some (err, c1)"
    by (cases "update_service_in E now svc ep n c") auto
  show ?case
  proof (cases err)
    case (Some e')
    have "c1 = cl_DeleteService E now (svc_namespace svc) (svc_name svc) c" "e' = Port_Not_In_Service n"
      using c1 Some by (cases rule: update_service_in_cases; simp)+
    moreover have "unported E svc n" using update_service_in_unported [OF c1] Some by simp
    moreover have "e = e'" "c' = c1" using Cons.prems c1 Some by auto
    ultimately show ?thesis by auto
  next
    case None
    then have rest: "each_go (update_service_in E now svc ep) ns c1 = Some (Some e, c')"
      using Cons.prems c1 by simp
    have same: "ingress2Cluster c1 = ingress2Cluster c" "service2Cluster c1 = service2Cluster c"
      "\<And>m. m \<noteq> n \<Longrightarrow> mget (table c1) m = mget (table c) m \<and> mget (gslb c1) m = mget (gslb c) m"
      using c1 None by (cases rule: update_service_in_cases; simp)+
    from Cons.IH [OF rest] obtain m d where
      "m \<in> set ns" "unported E svc m" "e = Port_Not_In_Service m"
      "c' = cl_DeleteService E now (svc_namespace svc) (svc_name svc) d"
      "ingress2Cluster d = ingress2Cluster c1" "service2Cluster d = service2Cluster c1"
      "\<forall>k. k \<notin> set ns \<longrightarrow> mget (table d) k = mget (table c1) k \<and> mget (gslb d) k = mget (gslb c1) k"
      by blast
    then show ?thesis using same by (intro exI [of _ m] exI [of _ d]) simp
  qed
qed simp

subsection \<open>The table keeps its clusters\<close>

lemma update_service_in_keeps:
  assumes "update_service_in E now svc ep n c = Some (err, c')"
  shows "(\<forall>m. mget (table c') m = None \<longleftrightarrow> mget (table c) m = None) \<and>
    ingress2Cluster c' = ingress2Cluster c \<and> service2Cluster c' = service2Cluster c"
  using assms by (cases rule: update_service_in_cases) (auto simp: cl_DeleteService_simps)

lemma update_service_keeps:
  assumes "cl_UpdateService E sch now svc ep c = Some (err, c')"
  shows "(\<forall>m. mget (table c') m = None \<longleftrightarrow> mget (table c) m = None) \<and>
    ingress2Cluster c' = ingress2Cluster c \<and> service2Cluster c' = service2Cluster c"
proof -
  let ?P = "\<lambda>d. (\<forall>m. mget (table d) m = None \<longleftrightarrow> mget (table c) m = None) \<and>
    ingress2Cluster d = ingress2Cluster c \<and> service2Cluster d = service2Cluster c"
  have go: "each_go (update_service_in E now svc ep) xs c = Some (e, d) \<Longrightarrow> ?P d" for xs e d
    by (rule each_go_invariant [where P = ?P]) (use update_service_in_keeps in fastforce)+
  show ?thesis
  proof (cases "mm_get (cl_strs E) (service2Cluster c) (NamespacedName (svc_namespace svc) (svc_name svc))")
    case (Pair clusters ok)
    show ?thesis
    proof (cases ok)
      case False
      then show ?thesis using assms Pair by (simp add: cl_UpdateService_def)
    next
      case True
      then obtain e d where d: "each_go (update_service_in E now svc ep) (shuffle sch clusters) c = Some (e, d)"
        using assms Pair by (auto simp: cl_UpdateService_def split: option.splits)
      then have "c' = d \<or> c' = cl_setVersion now d"
        using assms Pair True by (cases e) (auto simp: cl_UpdateService_def)
      then show ?thesis using go [OF d] by (auto simp: cl_simps)
    qed
  qed
qed

subsection \<open>Updating an ingress\<close>

text \<open>The state before BFE's check of the cluster table.\<close>

definition cl_filled ::
  "'m cl_env \<Rightarrow> ingress \<Rightarrow> Balance option \<Rightarrow> (string, service) gomap \<Rightarrow> (string, endpoints) gomap \<Rightarrow>
     'm cluster_state \<Rightarrow> 'm cluster_state" where
  "cl_filled E ing balance services eps c =
     (let c1 = fold (add_path_ok E ing balance services eps) (http_paths ing) c
      in if length (cl_default_backend E) > 0
         then addDefautBackend E (mget eps (cl_default_backend E)) c1 else c1)"

definition balance_of :: "order \<Rightarrow> ingress \<Rightarrow> Balance option" where
  "balance_of w ing = (case GetBalance w (ing_annots ing) of Inl _ \<Rightarrow> None | Inr b \<Rightarrow> b)"

lemma cl_UpdateIngress_cases:
  assumes "cl_UpdateIngress E w now ing services eps c = Some (err, c')"
  obtains (none) "ing_rules ing = []" "err = None" "c' = c"
  | (refused) e where "ing_rules ing \<noteq> []" "err = Some e"
      "\<forall>p \<in> set (http_paths ing). ib_service (hp_backend p) \<noteq> None"
      "\<forall>rule \<in> set (ing_rules ing). ir_http rule \<noteq> None"
      "c' = cl_DeleteIngress E now (ing_namespace ing) (ing_name ing)
              (cl_filled E ing (balance_of w ing) services eps c)"
  | (ok) "ing_rules ing \<noteq> []" "err = None"
      "\<forall>p \<in> set (http_paths ing). ib_service (hp_backend p) \<noteq> None"
      "\<forall>rule \<in> set (ing_rules ing). ir_http rule \<noteq> None"
      "cl_check E (clusterTableConf (cl_filled E ing (balance_of w ing) services eps c)) = None"
      "c' = cl_setVersion now (cl_filled E ing (balance_of w ing) services eps c)"
proof (cases "ing_rules ing = []")
  case True
  then show thesis using assms by (intro none) (simp_all add: cl_UpdateIngress_def)
next
  case False
  let ?go = "each_go (add_rule_paths E ing (balance_of w ing) services eps) (ing_rules ing) c"
  let ?f = "cl_filled E ing (balance_of w ing) services eps c"
  obtain e1 c1 where go: "?go = Some (e1, c1)"
    using assms False by (auto simp: cl_UpdateIngress_def balance_of_def Let_def split: option.splits)
  from go have g: "\<forall>rule \<in> set (ing_rules ing). ir_http rule \<noteq> None"
    "\<forall>p \<in> set (http_paths ing). ib_service (hp_backend p) \<noteq> None"
    "c1 = fold (add_path_ok E ing (balance_of w ing) services eps) (http_paths ing) c"
    unfolding each_rule Let_def http_paths_def by blast+
  have c2: "(if length (cl_default_backend E) > 0
      then addDefautBackend E (mget eps (cl_default_backend E)) c1 else c1) = ?f"
    by (simp add: cl_filled_def g(3))
  have u: "(case cl_check E (clusterTableConf ?f) of
      Some e \<Rightarrow> Some (Some e, cl_DeleteIngress E now (ing_namespace ing) (ing_name ing) ?f)
    | None \<Rightarrow> Some (None, cl_setVersion now ?f)) = Some (err, c')"
    using assms False
    unfolding cl_UpdateIngress_def Let_def balance_of_def [symmetric] go option.case prod.case c2
    by simp
  show thesis
  proof (cases "cl_check E (clusterTableConf ?f)")
    case None
    show thesis by (rule ok) (use u False g None in simp_all)
  next
    case (Some e)
    show thesis by (rule refused [of e]) (use u False g Some in simp_all)
  qed
qed

lemma cl_filled_weights_ok:
  assumes "weights_ok c" and "\<forall>p \<in> set (http_paths ing). ib_service (hp_backend p) \<noteq> None"
  shows "weights_ok (cl_filled E ing balance services eps c)"
  by (simp add: cl_filled_def Let_def add_paths_weights_ok [OF assms] addDefaut_weights_ok)

lemma update_ingress_weights_ok:
  assumes "cl_UpdateIngress E w now ing services eps c = Some (err, c')" and "weights_ok c"
  shows "weights_ok c'"
  using assms(1)
  by (cases rule: cl_UpdateIngress_cases)
    (use assms(2) in \<open>simp_all add: cl_filled_weights_ok delete_ingress_weights_ok weights_ok_setVersion\<close>)

end
