(* ===== verification/Cluster_Owner.thy ===== *)
theory Cluster_Owner
  imports Cluster_Invariants
begin

text \<open>
  Clusters and the ingresses they belong to, over any multimap: the name of a cluster tells its
  ingress, deleting an ingress removes exactly its clusters, and every operation keeps the
  clusters of the other ingresses.
\<close>

subsection \<open>The owner of a cluster\<close>

definition owner :: "string \<Rightarrow> string" where
  "owner cluster = takeWhile (\<lambda>ch. ch \<noteq> CHR ''_'') cluster"

lemma owner_cluster_name:
  assumes "CHR ''_'' \<notin> set i" and "ClusterName i (Some b) = Some n"
  shows "owner n = i"
proof -
  have "\<exists>rest. n = i @ CHR ''_'' # rest" using assms(2) by (auto simp: ClusterName_def)
  then obtain rest where "n = i @ CHR ''_'' # rest" ..
  moreover have "\<forall>ch \<in> set i. ch \<noteq> CHR ''_''" using assms(1) by auto
  ultimately show ?thesis by (simp add: owner_def takeWhile_append2)
qed

lemma owner_default: "owner (DefaultClusterName db) = []"
  by (simp add: owner_def DefaultClusterName_def)

lemma NamespacedName_not_Nil [simp]: "NamespacedName ns n \<noteq> []" "[] \<noteq> NamespacedName ns n"
  by (simp_all add: NamespacedName_def)

subsection \<open>Deletion and update over a multimap\<close>

locale cluster_maps = multimap "cl_strs E" R
  for E :: "'m cl_env" and R :: "'m \<Rightarrow> (string \<times> string) set"
begin

text \<open>Does deleting the ingress \<open>i\<close> also drop the default backend?\<close>

definition drops_default :: "string \<Rightarrow> 'm cluster_state \<Rightarrow> bool" where
  "drops_default i c \<longleftrightarrow> cl_default_backend E \<noteq> [] \<and> (\<exists>n. (i, n) \<in> R (ingress2Cluster c)) \<and>
     (\<forall>p \<in> R (ingress2Cluster c). fst p = i)"

lemma delete_ingress_shape:
  "(\<exists>n. (NamespacedName ns nm, n) \<in> R (ingress2Cluster c)) \<Longrightarrow>
    cl_DeleteIngress E now ns nm c =
      cl_setVersion now
        ((if drops_default (NamespacedName ns nm) c then delDefautBackend E else id)
          (fold (delete_cluster E) (fst (mm_get (cl_strs E) (ingress2Cluster c) (NamespacedName ns nm))) c
             \<lparr>ingress2Cluster := mm_remove_all (cl_strs E) (ingress2Cluster c) (NamespacedName ns nm)\<rparr>))"
  "\<not> (\<exists>n. (NamespacedName ns nm, n) \<in> R (ingress2Cluster c)) \<Longrightarrow>
    cl_DeleteIngress E now ns nm c = c"
proof -
  let ?i = "NamespacedName ns nm"
  obtain cs ok where g: "mm_get (cl_strs E) (ingress2Cluster c) ?i = (cs, ok)"
    by (metis surj_pair)
  have ok: "ok \<longleftrightarrow> (\<exists>n. (?i, n) \<in> R (ingress2Cluster c))"
    using get_found [of "ingress2Cluster c" ?i] g by simp
  have e: "mm_empty (cl_strs E) (mm_remove_all (cl_strs E) (ingress2Cluster c) ?i) \<longleftrightarrow>
      (\<forall>p \<in> R (ingress2Cluster c). fst p = ?i)"
    by (auto simp: empty_iff remove_all_pairs)
  show "\<exists>n. (?i, n) \<in> R (ingress2Cluster c) \<Longrightarrow>
    cl_DeleteIngress E now ns nm c =
      cl_setVersion now
        ((if drops_default ?i c then delDefautBackend E else id)
          (fold (delete_cluster E) (fst (mm_get (cl_strs E) (ingress2Cluster c) ?i)) c
             \<lparr>ingress2Cluster := mm_remove_all (cl_strs E) (ingress2Cluster c) ?i\<rparr>))"
    using ok g e by (auto simp: cl_DeleteIngress_def Let_def cl_simps drops_default_def)
  show "\<not> (\<exists>n. (?i, n) \<in> R (ingress2Cluster c)) \<Longrightarrow> cl_DeleteIngress E now ns nm c = c"
    using ok g by (simp add: cl_DeleteIngress_def)
qed

lemma delete_ingress_pairs:
  "R (ingress2Cluster (cl_DeleteIngress E now ns nm c)) =
     {p \<in> R (ingress2Cluster c). fst p \<noteq> NamespacedName ns nm}"
proof (cases "\<exists>n. (NamespacedName ns nm, n) \<in> R (ingress2Cluster c)")
  case True
  show ?thesis unfolding delete_ingress_shape(1) [OF True]
    by (simp add: cl_simps remove_all_pairs)
next
  case False
  show ?thesis unfolding delete_ingress_shape(2) [OF False] using False by auto
qed

definition removed_by :: "string \<Rightarrow> 'm cluster_state \<Rightarrow> string \<Rightarrow> bool" where
  "removed_by i c n \<longleftrightarrow> (i, n) \<in> R (ingress2Cluster c) \<or>
     (drops_default i c \<and> n = DefaultClusterName (cl_default_backend E))"

lemma delete_ingress_lookup:
  "mget (table (cl_DeleteIngress E now ns nm c)) n =
     (if removed_by (NamespacedName ns nm) c n then None else mget (table c) n)"
  "mget (gslb (cl_DeleteIngress E now ns nm c)) n =
     (if removed_by (NamespacedName ns nm) c n then None else mget (gslb c) n)"
proof -
  let ?i = "NamespacedName ns nm"
  have "mget (table (cl_DeleteIngress E now ns nm c)) n =
      (if removed_by ?i c n then None else mget (table c) n) \<and>
    mget (gslb (cl_DeleteIngress E now ns nm c)) n =
      (if removed_by ?i c n then None else mget (gslb c) n)"
  proof (cases "\<exists>n. (?i, n) \<in> R (ingress2Cluster c)")
    case True
    have m: "n \<in> set (fst (mm_get (cl_strs E) (ingress2Cluster c) ?i)) \<longleftrightarrow>
        (?i, n) \<in> R (ingress2Cluster c)" by (simp add: get_values)
    show ?thesis unfolding delete_ingress_shape(1) [OF True]
      by (simp add: cl_simps removed_by_def m)
  next
    case False
    then show ?thesis unfolding delete_ingress_shape(2) [OF False]
      by (auto simp: removed_by_def drops_default_def)
  qed
  then show "mget (table (cl_DeleteIngress E now ns nm c)) n =
      (if removed_by ?i c n then None else mget (table c) n)"
    and "mget (gslb (cl_DeleteIngress E now ns nm c)) n =
      (if removed_by ?i c n then None else mget (gslb c) n)" by simp_all
qed

text \<open>Pairs of the index from services to clusters only go, and only for listed sub-clusters.\<close>

lemma delete_cluster_services:
  "R (service2Cluster (delete_cluster E n c)) =
     R (service2Cluster c) - {(s, n) | s. mget (mget_or [] (table c) n) s \<noteq> None}"
proof -
  have "R (fold (\<lambda>s m. mm_remove (cl_strs E) m s n) ss m) = R m - {(s, n) | s. s \<in> set ss}" for ss m
    by (induction ss arbitrary: m) (auto simp: remove_pairs)
  then show ?thesis
    by (auto simp: delete_cluster_def Let_def cl_simps mget_None_iff)
qed

lemma delete_clusters_services:
  "R (service2Cluster (fold (delete_cluster E) ns c)) \<subseteq> R (service2Cluster c) \<and>
   ((s, n) \<in> R (service2Cluster c) \<longrightarrow> mget (mget_or [] (table c) n) s = None \<longrightarrow>
      (s, n) \<in> R (service2Cluster (fold (delete_cluster E) ns c)))"
proof (induction ns arbitrary: c)
  case (Cons m ns)
  have "mget (mget_or [] (table c) n) s = None \<Longrightarrow> mget (mget_or [] (table (delete_cluster E m c)) n) s = None"
    by (simp add: mget_or_def cl_simps)
  then show ?case using Cons [of "delete_cluster E m c"] by (auto simp: delete_cluster_services)
qed simp

lemmas delete_clusters_subset = delete_clusters_services [THEN conjunct1, THEN subsetD]
lemmas delete_clusters_keep = delete_clusters_services [THEN conjunct2, rule_format]

lemma delDefaut_services:
  "R (service2Cluster (delDefautBackend E c)) =
     R (service2Cluster c) - {(cl_default_backend E, DefaultClusterName (cl_default_backend E))}"
  by (simp add: delDefautBackend_def Let_def cl_simps remove_pairs)

lemma delete_ingress_services:
  "R (service2Cluster (cl_DeleteIngress E now ns nm c)) \<subseteq> R (service2Cluster c)"
proof (cases "\<exists>n. (NamespacedName ns nm, n) \<in> R (ingress2Cluster c)")
  case True
  show ?thesis unfolding delete_ingress_shape(1) [OF True]
    by (auto simp: cl_simps delDefaut_services dest: delete_clusters_subset)
next
  case False
  show ?thesis unfolding delete_ingress_shape(2) [OF False] by simp
qed

lemma delete_ingress_keeps_service:
  assumes "(s, n) \<in> R (service2Cluster c)" and "mget (mget_or [] (table c) n) s = None"
    and "n \<noteq> DefaultClusterName (cl_default_backend E)"
  shows "(s, n) \<in> R (service2Cluster (cl_DeleteIngress E now ns nm c))"
proof (cases "\<exists>n. (NamespacedName ns nm, n) \<in> R (ingress2Cluster c)")
  case True
  show ?thesis unfolding delete_ingress_shape(1) [OF True]
    using delete_clusters_keep [OF assms(1,2)] assms(3) by (simp add: cl_simps delDefaut_services)
next
  case False
  show ?thesis unfolding delete_ingress_shape(2) [OF False] by (rule assms(1))
qed

text \<open>Every pair of the index has a cluster, whose name tells the ingress.\<close>

definition owned :: "'m cluster_state \<Rightarrow> bool" where
  "owned c \<longleftrightarrow> (\<forall>i n. (i, n) \<in> R (ingress2Cluster c) \<longrightarrow>
     owner n = i \<and> i \<noteq> [] \<and> mget (table c) n \<noteq> None)"

lemma new_owned: "owned (NewClusterConfig E v)"
  by (simp add: owned_def NewClusterConfig_def new_pairs)

lemma owned_keeps:
  assumes "owned c" and "\<And>m. mget (table c') m = None \<Longrightarrow> mget (table c) m = None"
    and "ingress2Cluster c' = ingress2Cluster c"
  shows "owned c'"
  using assms unfolding owned_def by metis

lemma others_kept:
  assumes "owned c" and "(j, n) \<in> R (ingress2Cluster c)" and "j \<noteq> NamespacedName ns nm"
  shows "mget (table (cl_DeleteIngress E now ns nm c)) n = mget (table c) n \<and>
    mget (gslb (cl_DeleteIngress E now ns nm c)) n = mget (gslb c) n"
proof -
  have "\<not> removed_by (NamespacedName ns nm) c n"
    using assms owner_default [of "cl_default_backend E"] unfolding owned_def removed_by_def by metis
  then show ?thesis by (simp add: delete_ingress_lookup)
qed

lemma delete_ingress_owned:
  assumes "owned c"
  shows "owned (cl_DeleteIngress E now ns nm c)"
  unfolding owned_def delete_ingress_pairs
proof (intro allI impI)
  fix i n
  assume "(i, n) \<in> {p \<in> R (ingress2Cluster c). fst p \<noteq> NamespacedName ns nm}"
  then have "(i, n) \<in> R (ingress2Cluster c)" "i \<noteq> NamespacedName ns nm" by auto
  with others_kept [OF assms this, of now] assms
  show "owner n = i \<and> i \<noteq> [] \<and> mget (table (cl_DeleteIngress E now ns nm c)) n \<noteq> None"
    by (simp add: owned_def)
qed

lemma add_paths_pairs:
  assumes "\<forall>p \<in> set ps. ib_service (hp_backend p) \<noteq> None"
  shows "R (ingress2Cluster (fold (add_path_ok E ing balance services eps) ps c)) =
    R (ingress2Cluster c) \<union>
      {(NamespacedName (ing_namespace ing) (ing_name ing), cluster_name ing p) | p. p \<in> set ps}"
  using assms
proof (induction ps rule: rev_induct)
  case (snoc p ps)
  then show ?case by (auto simp: cl_simps put_pairs)
qed simp

lemma addDefaut_pairs: "ingress2Cluster (addDefautBackend E ep c) = ingress2Cluster c"
  by (cases rule: addDefautBackend_cases [of E ep c]) simp_all

lemma addDefaut_lookup:
  "n \<noteq> DefaultClusterName (cl_default_backend E) \<Longrightarrow>
     mget (table (addDefautBackend E ep c)) n = mget (table c) n \<and>
     mget (gslb (addDefautBackend E ep c)) n = mget (gslb c) n"
  by (cases rule: addDefautBackend_cases [of E ep c]) simp_all

lemma filled_pairs:
  assumes "\<forall>p \<in> set (http_paths ing). ib_service (hp_backend p) \<noteq> None"
  shows "R (ingress2Cluster (cl_filled E ing balance services eps c)) =
    R (ingress2Cluster c) \<union>
      {(NamespacedName (ing_namespace ing) (ing_name ing), cluster_name ing p) | p. p \<in> set (http_paths ing)}"
  using add_paths_pairs [OF assms] by (simp add: cl_filled_def addDefaut_pairs Let_def)

lemma filled_lookup:
  "n \<noteq> DefaultClusterName (cl_default_backend E) \<Longrightarrow>
     mget (table (cl_filled E ing balance services eps c)) n =
       mget (table (fold (add_path_ok E ing balance services eps) (http_paths ing) c)) n \<and>
     mget (gslb (cl_filled E ing balance services eps c)) n =
       mget (gslb (fold (add_path_ok E ing balance services eps) (http_paths ing) c)) n"
  using addDefaut_lookup by (simp add: cl_filled_def Let_def)

lemma cluster_name_owner:
  assumes "CHR ''_'' \<notin> set (NamespacedName (ing_namespace ing) (ing_name ing))"
    and "ib_service (hp_backend p) \<noteq> None"
  shows "owner (cluster_name ing p) = NamespacedName (ing_namespace ing) (ing_name ing)"
proof -
  obtain b n where "ib_service (hp_backend p) = Some b"
    "ClusterName (NamespacedName (ing_namespace ing) (ing_name ing)) (Some b) = Some n"
    using assms(2) by (auto simp: ClusterName_def)
  then show ?thesis using owner_cluster_name [OF assms(1)] by (simp add: cluster_name_def)
qed

lemma filled_keeps:
  assumes "\<forall>p \<in> set (http_paths ing). ib_service (hp_backend p) \<noteq> None" and "mget (table c) n \<noteq> None"
  shows "mget (table (cl_filled E ing balance services eps c)) n \<noteq> None"
proof -
  have "mget (table (fold (add_path_ok E ing balance services eps) (http_paths ing) c)) n \<noteq> None"
    using add_paths_lookup [OF assms(1), of n ing E balance services eps c] assms(2) by auto
  moreover have "mget (table c2) n \<noteq> None \<Longrightarrow> mget (table (addDefautBackend E ep c2)) n \<noteq> None" for c2 ep
    by (cases rule: addDefautBackend_cases [of E ep c2]) auto
  ultimately show ?thesis by (simp add: cl_filled_def Let_def)
qed

lemma filled_owned:
  assumes "owned c" and u: "CHR ''_'' \<notin> set (NamespacedName (ing_namespace ing) (ing_name ing))"
    and s: "\<forall>p \<in> set (http_paths ing). ib_service (hp_backend p) \<noteq> None"
  shows "owned (cl_filled E ing balance services eps c)"
  unfolding owned_def filled_pairs [OF s]
proof (intro allI impI)
  fix i n
  assume "(i, n) \<in> R (ingress2Cluster c) \<union> {(NamespacedName (ing_namespace ing) (ing_name ing),
    cluster_name ing p) | p. p \<in> set (http_paths ing)}"
  then show "owner n = i \<and> i \<noteq> [] \<and> mget (table (cl_filled E ing balance services eps c)) n \<noteq> None"
  proof
    assume "(i, n) \<in> R (ingress2Cluster c)"
    then have "owner n = i \<and> i \<noteq> [] \<and> mget (table c) n \<noteq> None" using assms(1) by (simp add: owned_def)
    then show ?thesis using filled_keeps [OF s] by blast
  next
    assume "(i, n) \<in> {(NamespacedName (ing_namespace ing) (ing_name ing), cluster_name ing p) | p.
      p \<in> set (http_paths ing)}"
    then obtain p where p: "p \<in> set (http_paths ing)" "n = cluster_name ing p"
      "i = NamespacedName (ing_namespace ing) (ing_name ing)" by blast
    then have o: "owner n = i" using cluster_name_owner [OF u] s by blast
    then have "n \<noteq> DefaultClusterName (cl_default_backend E)"
      using owner_default [of "cl_default_backend E"] p(3) by auto
    then have "mget (table (cl_filled E ing balance services eps c)) n =
        mget (table (fold (add_path_ok E ing balance services eps) (http_paths ing) c)) n"
      using filled_lookup by blast
    moreover have "mget (table (fold (add_path_ok E ing balance services eps) (http_paths ing) c)) n \<noteq> None"
      using add_paths_lookup [OF s, of n ing E balance services eps c] p by auto
    ultimately show ?thesis using o p(3) by simp
  qed
qed

lemma update_ingress_owned:
  assumes "cl_UpdateIngress E w now ing services eps c = Some (err, c')" and "owned c"
    and u: "CHR ''_'' \<notin> set (NamespacedName (ing_namespace ing) (ing_name ing))"
  shows "owned c'"
  using assms(1)
proof (cases rule: cl_UpdateIngress_cases)
  case none
  then show ?thesis using assms(2) by simp
next
  case (refused e)
  then show ?thesis using filled_owned [OF assms(2) u refused(3)] delete_ingress_owned by simp
next
  case ok
  have "owned (cl_filled E ing (balance_of w ing) services eps c)"
    by (rule filled_owned [OF assms(2) u ok(3)])
  then show ?thesis unfolding ok(6) by (rule owned_keeps) (simp_all add: cl_simps)
qed

text \<open>A successful update removes nothing: the index from services to clusters only grows.\<close>

lemma put_services_grow:
  "R m \<subseteq> R (fold (\<lambda>(service, weight) m. mm_put (cl_strs E) m service n) ws m)"
  by (induction ws rule: rev_induct) (auto simp: put_pairs split: prod.splits)

lemma add_path_services_grow:
  assumes "ib_service (hp_backend p) \<noteq> None"
  shows "R (service2Cluster c) \<subseteq> R (service2Cluster (add_path_ok E ing balance services eps p c))"
proof -
  have "service2Cluster (add_path_ok E ing balance services eps p c) =
      fold (\<lambda>(service, weight) m. mm_put (cl_strs E) m service (cluster_name ing p)) (path_weights ing balance p)
        (service2Cluster c)"
    using assms
    by (auto simp: add_path_ok_def add_path_def ClusterName_def cluster_name_def path_weights_def Let_def cl_simps)
  then show ?thesis using put_services_grow by metis
qed

lemma update_ingress_services_grow:
  assumes "cl_UpdateIngress E w now ing services eps c = Some (None, c')"
  shows "R (service2Cluster c) \<subseteq> R (service2Cluster c')"
  using assms
proof (cases rule: cl_UpdateIngress_cases)
  case ok
  have paths: "R (service2Cluster c) \<subseteq> R (service2Cluster (fold (add_path_ok E ing b services eps) ps c))"
    if "\<forall>p \<in> set ps. ib_service (hp_backend p) \<noteq> None" for b ps
    using that
  proof (induction ps rule: rev_induct)
    case (snoc p ps)
    then show ?case using add_path_services_grow [of p] by fastforce
  qed simp
  have default: "R (service2Cluster d) \<subseteq> R (service2Cluster (addDefautBackend E ep d))" for d ep
    by (cases rule: addDefautBackend_cases [of E ep d]) (auto simp: put_pairs)
  show ?thesis
    using subset_trans [OF paths [OF ok(3)] default] paths [OF ok(3)]
    unfolding ok(6) by (simp add: cl_filled_def Let_def cl_simps)
qed simp_all

text \<open>What a successful update leaves: every path has its cluster, with its weights.\<close>

lemma update_ingress_paths:
  assumes "cl_UpdateIngress E w now ing services eps c = Some (None, c')"
    and u: "CHR ''_'' \<notin> set (NamespacedName (ing_namespace ing) (ing_name ing))"
    and p: "p \<in> set (http_paths ing)"
  shows "(NamespacedName (ing_namespace ing) (ing_name ing), cluster_name ing p) \<in> R (ingress2Cluster c') \<and>
    (\<exists>q \<in> set (http_paths ing). cluster_name ing q = cluster_name ing p \<and>
       mget (table c') (cluster_name ing p) = Some (path_cluster ing (balance_of w ing) services eps q) \<and>
       mget (gslb c') (cluster_name ing p) = Some (path_weights ing (balance_of w ing) q))"
  using assms(1)
proof (cases rule: cl_UpdateIngress_cases)
  case none
  then show ?thesis using p by (simp add: http_paths_def)
next
  case ok
  let ?n = "cluster_name ing p" and ?f = "cl_filled E ing (balance_of w ing) services eps c"
  have "owner ?n = NamespacedName (ing_namespace ing) (ing_name ing)"
    using cluster_name_owner [OF u] ok(3) p by blast
  then have "?n \<noteq> DefaultClusterName (cl_default_backend E)"
    using owner_default [of "cl_default_backend E"] by auto
  then have f: "mget (table ?f) ?n =
      mget (table (fold (add_path_ok E ing (balance_of w ing) services eps) (http_paths ing) c)) ?n"
    "mget (gslb ?f) ?n =
      mget (gslb (fold (add_path_ok E ing (balance_of w ing) services eps) (http_paths ing) c)) ?n"
    using filled_lookup by blast+
  have "(NamespacedName (ing_namespace ing) (ing_name ing), ?n) \<in> R (ingress2Cluster ?f)"
    using filled_pairs [OF ok(3)] p by blast
  moreover have "?n \<in> cluster_name ing ` set (http_paths ing)" using p by blast
  ultimately show ?thesis
    using add_paths_lookup [OF ok(3), of ?n ing E "balance_of w ing" services eps c] f
    unfolding ok(6) by (auto simp: cl_simps)
qed simp

lemma delete_service_owned: "owned c \<Longrightarrow> owned (cl_DeleteService E now ns n c)"
  by (erule owned_keeps) (simp_all add: cl_DeleteService_simps split: if_splits)

lemma update_service_owned:
  assumes "cl_UpdateService E sch now svc ep c = Some (err, c')" and "owned c"
  shows "owned c'"
  using update_service_keeps [OF assms(1)] owned_keeps [OF assms(2)] by blast

end

lemma cluster_mapsI: "multimap (cl_strs E) R \<Longrightarrow> cluster_maps E R"
  by (simp add: cluster_maps_def)

interpretation lcm: cluster_maps
    "\<lparr>cl_strs = list_multimap, cl_default_backend = db, cl_check = ck\<rparr>" set
  by (simp add: cluster_maps_def lmm.multimap_axioms)

end
