(* ===== verification/TLS_Spec.thy ===== *)
theory TLS_Spec
  imports TLS_Config
begin

text \<open>
  What the certificate component promises: the certificate table lists the default certificate
  and the stored ones, every stored certificate was checked against its key and is named by an
  ingress, and certificates no ingress names any more go away with their files.
\<close>

subsection \<open>Lookups\<close>

named_theorems tls_simps

lemma tls_stores [tls_simps]:
  "cert_table (set_cert_table m c) = m" "certs (set_cert_table m c) = certs c"
  "ingress2secret (set_cert_table m c) = ingress2secret c"
  "cert_table (tls_setVersion now c) = cert_table c" "certs (tls_setVersion now c) = certs c"
  "ingress2secret (tls_setVersion now c) = ingress2secret c"
  by (simp_all add: set_cert_table_def tls_setVersion_def)

lemma deleteCert_simps [tls_simps]:
  "cert_table (snd (deleteCert io n c)) = mdel n (cert_table c)"
  "certs (snd (deleteCert io n c)) = mdel n (certs c)"
  "ingress2secret (snd (deleteCert io n c)) = ingress2secret c"
  by (simp_all add: deleteCert_def Let_def tls_simps)

definition cert_removal :: "io_env \<Rightarrow> string \<Rightarrow> effect list" where
  "cert_removal io n = DeleteFile io (getKeyFilePath n) @ DeleteFile io (getCertFilePath n)"

lemma deleteCert_effects:
  "mget (cert_table c) n = Some (cert_files n) \<Longrightarrow> fst (deleteCert io n c) = cert_removal io n"
  by (simp add: deleteCert_def cert_removal_def cert_files_def Let_def)

lemma delete_unused_simps:
  assumes "delete_unused io used names c = (es, upd, c')"
  shows "mget (cert_table c') n = (if n \<in> set names \<and> n \<notin> set used then None else mget (cert_table c) n)"
    and "mget (certs c') n = (if n \<in> set names \<and> n \<notin> set used then None else mget (certs c) n)"
    and "ingress2secret c' = ingress2secret c" and "upd \<longleftrightarrow> \<not> set names \<subseteq> set used"
proof -
  have "mget (cert_table c') n = (if n \<in> set names \<and> n \<notin> set used then None else mget (cert_table c) n) \<and>
    mget (certs c') n = (if n \<in> set names \<and> n \<notin> set used then None else mget (certs c) n) \<and>
    ingress2secret c' = ingress2secret c \<and> (upd \<longleftrightarrow> \<not> set names \<subseteq> set used)"
    using assms
  proof (induction names arbitrary: c es upd)
    case (Cons name names)
    show ?case
    proof (cases "name \<in> set used")
      case True
      then show ?thesis using Cons.IH [of c es upd] Cons.prems by auto
    next
      case False
      obtain es1 c1 where d: "deleteCert io name c = (es1, c1)" by (metis surj_pair)
      obtain es2 u2 where r: "delete_unused io used names c1 = (es2, u2, c')"
        using Cons.prems False d by (auto split: prod.splits)
      have c1: "cert_table c1 = mdel name (cert_table c)" "certs c1 = mdel name (certs c)"
        "ingress2secret c1 = ingress2secret c"
        using deleteCert_simps [of io name c] d by simp_all
      have "upd" using Cons.prems False d r by simp
      then show ?thesis using Cons.IH [OF r] c1 False by auto
    qed
  qed simp
  then show "mget (cert_table c') n = (if n \<in> set names \<and> n \<notin> set used then None else mget (cert_table c) n)"
    and "mget (certs c') n = (if n \<in> set names \<and> n \<notin> set used then None else mget (certs c) n)"
    and "ingress2secret c' = ingress2secret c" and "upd \<longleftrightarrow> \<not> set names \<subseteq> set used"
    by blast+
qed

lemma delete_unused_wf:
  "delete_unused io used names c = (es, upd, c') \<Longrightarrow> wf_map (certs c) \<Longrightarrow> wf_map (certs c')"
proof (induction names arbitrary: c es upd)
  case (Cons name names)
  obtain es1 d1 where d: "deleteCert io name c = (es1, d1)" by (metis surj_pair)
  have "wf_map (certs d1)" using Cons.prems(2) deleteCert_simps(2) [of io name c] d by simp
  then show ?case using Cons.IH Cons.prems d by (auto split: prod.splits if_splits)
qed simp

lemma delete_unused_effects:
  assumes "delete_unused io used names c = (es, upd, c')" and "distinct names"
    and "\<And>n. n \<in> set names \<Longrightarrow> mget (cert_table c) n = Some (cert_files n)"
  shows "es = concat (map (cert_removal io) (filter (\<lambda>n. n \<notin> set used) names))"
  using assms
proof (induction names arbitrary: c es upd)
  case (Cons name names)
  show ?case
  proof (cases "name \<in> set used")
    case True
    then show ?thesis using Cons.IH [of c es upd] Cons.prems by simp
  next
    case False
    obtain es1 c1 where d: "deleteCert io name c = (es1, c1)" by (metis surj_pair)
    obtain es2 u2 where r: "delete_unused io used names c1 = (es2, u2, c')"
      using Cons.prems False d by (auto split: prod.splits)
    have t: "cert_table c1 = mdel name (cert_table c)" using deleteCert_simps [of io name c] d by simp
    have "es2 = concat (map (cert_removal io) (filter (\<lambda>n. n \<notin> set used) names))"
    proof (rule Cons.IH [OF r])
      show "distinct names" using Cons.prems(2) by simp
      show "n \<in> set names \<Longrightarrow> mget (cert_table c1) n = Some (cert_files n)" for n
        using Cons.prems(2) Cons.prems(3) [of n] t by auto
    qed
    moreover have "es1 = cert_removal io name"
      using deleteCert_effects [of c name io] Cons.prems(3) [of name] d by simp
    ultimately show ?thesis using Cons.prems(1) False d r by simp
  qed
qed simp

subsection \<open>The invariant\<close>

definition tls_ok :: "'m tls_env \<Rightarrow> ('m \<Rightarrow> (string \<times> string) set) \<Rightarrow> 'm tls_state \<Rightarrow> bool" where
  "tls_ok E R c \<longleftrightarrow>
     (\<forall>n. mget (cert_table c) n =
        (if n = DefaultCNName \<or> mget (certs c) n \<noteq> None then Some (cert_files n) else None)) \<and>
     mget (certs c) DefaultCNName = None \<and>
     (\<forall>n p. mget (certs c) n = Some p \<longrightarrow>
        tls_key_pair E (cert_pem p) (key_pem p) = None \<and> n \<in> snd ` R (ingress2secret c)) \<and>
     wf_map (certs c)"

lemma tls_okD:
  assumes "tls_ok E R c"
  shows "mget (cert_table c) n =
      (if n = DefaultCNName \<or> mget (certs c) n \<noteq> None then Some (cert_files n) else None)"
    and "mget (certs c) DefaultCNName = None" and "wf_map (certs c)"
    and "mget (certs c) n = Some p \<Longrightarrow>
        tls_key_pair E (cert_pem p) (key_pem p) = None \<and> n \<in> snd ` R (ingress2secret c)"
  using assms unfolding tls_ok_def by blast+

lemma tls_okI:
  assumes "\<And>n. mget (cert_table c) n =
        (if n = DefaultCNName \<or> mget (certs c) n \<noteq> None then Some (cert_files n) else None)"
    and "mget (certs c) DefaultCNName = None" and "wf_map (certs c)"
    and "\<And>n p. mget (certs c) n = Some p \<Longrightarrow>
        tls_key_pair E (cert_pem p) (key_pem p) = None \<and> n \<in> snd ` R (ingress2secret c)"
  shows "tls_ok E R c"
  using assms unfolding tls_ok_def by blast

lemma tls_ok_setVersion: "tls_ok E R (tls_setVersion now c) \<longleftrightarrow> tls_ok E R c"
  by (simp add: tls_ok_def tls_simps)

lemma NamespacedName_not_default: "NamespacedName ns n \<noteq> DefaultCNName"
proof
  assume "NamespacedName ns n = DefaultCNName"
  then have "CHR ''/'' \<in> set DefaultCNName" by (metis NamespacedName_def Un_iff list.set_intros(1) set_append append_Cons)
  then show False by (simp add: DefaultCNName_def)
qed

text \<open>The name a secret is stored under, the pair it holds, and BFE's verdict on the pair.\<close>

definition secret_name :: "secret \<Rightarrow> string" where
  "secret_name sec = NamespacedName (sec_namespace sec) (sec_name sec)"

definition secret_pair :: "secret \<Rightarrow> cert_conf" where
  "secret_pair sec = \<lparr>cert_pem = mget_or [] (sec_data sec) ''tls.crt'', key_pem = mget_or [] (sec_data sec) ''tls.key''\<rparr>"

definition pair_accepted :: "'m tls_env \<Rightarrow> secret \<Rightarrow> bool" where
  "pair_accepted E sec \<longleftrightarrow> tls_key_pair E (cert_pem (secret_pair sec)) (key_pem (secret_pair sec)) = None"

locale tls_certs = multimap "tls_strs E" R
  for E :: "'m tls_env" and R :: "'m \<Rightarrow> (string \<times> string) set"
begin

abbreviation ok :: "'m tls_state \<Rightarrow> bool" where
  "ok \<equiv> tls_ok E R"

lemma new_ok: "ok (NewTLSConfig E v)"
  by (rule tls_okI) (simp_all add: NewTLSConfig_def newServerCertConf_def)

lemma ok_mono:
  assumes "ok c" and "snd ` R (ingress2secret c) \<subseteq> snd ` R m"
  shows "ok (c\<lparr>ingress2secret := m\<rparr>)"
  using assms unfolding tls_ok_def by (auto 4 3)

lemma update_secret_cases:
  obtains (skipped) "tls_UpdateSecret E now sec c = (None, c)"
      "NamespacedName (sec_namespace sec) (sec_name sec) \<notin> snd ` R (ingress2secret c)"
  | (illegal) e where "tls_UpdateSecret E now sec c = (Some e, c)"
  | (stored) c' where "tls_UpdateSecret E now sec c = (None, c')"
      "NamespacedName (sec_namespace sec) (sec_name sec) \<in> snd ` R (ingress2secret c)"
      "tls_key_pair E (mget_or [] (sec_data sec) SecretCrt) (mget_or [] (sec_data sec) SecretKey) = None"
      "cert_table c' = mput (NamespacedName (sec_namespace sec) (sec_name sec))
         (cert_files (NamespacedName (sec_namespace sec) (sec_name sec))) (cert_table c)"
      "certs c' = mput (NamespacedName (sec_namespace sec) (sec_name sec))
         \<lparr>cert_pem = mget_or [] (sec_data sec) SecretCrt, key_pem = mget_or [] (sec_data sec) SecretKey\<rparr>
         (certs c)"
      "ingress2secret c' = ingress2secret c" "bs_version (serverCertConf c') = now"
proof -
  let ?n = "NamespacedName (sec_namespace sec) (sec_name sec)"
  have v: "mm_contains_value (tls_strs E) (ingress2secret c) ?n \<longleftrightarrow> ?n \<in> snd ` R (ingress2secret c)"
    by (force simp: contains_value)
  show thesis
  proof (cases "?n \<in> snd ` R (ingress2secret c)")
    case False
    then show thesis using v by (intro skipped) (simp_all add: tls_UpdateSecret_def Let_def)
  next
    case True
    show thesis
    proof (cases "tls_key_pair E (mget_or [] (sec_data sec) SecretCrt) (mget_or [] (sec_data sec) SecretKey)")
      case (Some e)
      then show thesis using v True by (intro illegal [of e]) (simp add: tls_UpdateSecret_def Let_def)
    next
      case None
      show thesis
        by (rule stored [of "snd (tls_UpdateSecret E now sec c)"])
          (use v True None in \<open>simp_all add: tls_UpdateSecret_def Let_def tls_simps tls_setVersion_def\<close>)
    qed
  qed
qed

lemma update_secret_ok:
  assumes "tls_UpdateSecret E now sec c = (err, c')" and "ok c"
  shows "ok c' \<and> ingress2secret c' = ingress2secret c"
proof (cases rule: update_secret_cases [of now sec c])
  case (stored d)
  let ?n = "NamespacedName (sec_namespace sec) (sec_name sec)"
  have c': "c' = d" using assms(1) stored(1) by simp
  have "ok c'"
  proof (rule tls_okI)
    show "mget (cert_table c') n =
        (if n = DefaultCNName \<or> mget (certs c') n \<noteq> None then Some (cert_files n) else None)" for n
      using tls_okD(1) [OF assms(2), of n] by (auto simp: c' stored(4,5) split: if_splits)
    show "mget (certs c') DefaultCNName = None"
      using tls_okD(2) [OF assms(2)] NamespacedName_not_default by (simp add: c' stored(5))
    show "wf_map (certs c')" using tls_okD(3) [OF assms(2)] by (simp add: c' stored(5))
    show "mget (certs c') n = Some p \<Longrightarrow>
        tls_key_pair E (cert_pem p) (key_pem p) = None \<and> n \<in> snd ` R (ingress2secret c')" for n p
      using tls_okD(4) [OF assms(2), of n p] stored(2,3) by (auto simp: c' stored(5,6) split: if_splits)
  qed
  then show ?thesis using stored(6) c' by simp
qed (use assms in simp_all)

lemma update_secrets_ok:
  "update_secrets E now secs c = (err, c') \<Longrightarrow> ok c \<Longrightarrow> ok c' \<and> ingress2secret c' = ingress2secret c"
proof (induction secs arbitrary: c)
  case (Cons sec secs)
  obtain e1 c1 where 1: "tls_UpdateSecret E now sec c = (e1, c1)" by (metis surj_pair)
  note ok1 = update_secret_ok [OF 1 Cons.prems(2)]
  show ?case
  proof (cases e1)
    case None
    then have "update_secrets E now secs c1 = (err, c')" using Cons.prems(1) 1 by simp
    then show ?thesis using Cons.IH [of c1] ok1 by simp
  next
    case (Some e)
    then have "c' = c1" using Cons.prems(1) 1 by simp
    then show ?thesis using ok1 by simp
  qed
qed simp

lemma put_secrets_pairs:
  "R (fold (\<lambda>sec m. mm_put (tls_strs E) m i (NamespacedName (sec_namespace sec) (sec_name sec))) secs m) =
     R m \<union> {(i, NamespacedName (sec_namespace sec) (sec_name sec)) | sec. sec \<in> set secs}"
proof (induction secs arbitrary: m)
  case (Cons sec secs)
  show ?case by (simp add: Cons put_pairs) blast
qed simp

lemma update_ingress_pairs:
  assumes "tls_UpdateIngress E now ing secs c = (err, c')" and "ok c"
  shows "ok c' \<and> R (ingress2secret c') = R (ingress2secret c) \<union>
    {(NamespacedName (ing_namespace ing) (ing_name ing),
      NamespacedName (sec_namespace sec) (sec_name sec)) | sec. sec \<in> set secs}"
proof -
  let ?i = "NamespacedName (ing_namespace ing) (ing_name ing)"
  let ?m = "fold (\<lambda>sec m. mm_put (tls_strs E) m ?i (NamespacedName (sec_namespace sec) (sec_name sec)))
    secs (ingress2secret c)"
  have u: "update_secrets E now secs (c\<lparr>ingress2secret := ?m\<rparr>) = (err, c')"
    using assms(1) by (simp add: tls_UpdateIngress_def Let_def)
  have "ok (c\<lparr>ingress2secret := ?m\<rparr>)"
    by (rule ok_mono [OF assms(2)]) (auto simp: put_secrets_pairs)
  from update_secrets_ok [OF u this] show ?thesis by (simp add: put_secrets_pairs)
qed

text \<open>
  A loop over secrets that an ingress names ends without error exactly when all their pairs are
  accepted, and then the last secret of each name has its data stored.
\<close>

lemma update_secrets_stores:
  assumes "update_secrets E now secs c = (err, c')"
    and "\<And>sec. sec \<in> set secs \<Longrightarrow> secret_name sec \<in> snd ` R (ingress2secret c)"
  shows "(err = None \<longleftrightarrow> (\<forall>sec \<in> set secs. pair_accepted E sec)) \<and>
    (err = None \<longrightarrow>
      mget (certs c') n = (case find (\<lambda>sec. secret_name sec = n) (rev secs) of
          None \<Rightarrow> mget (certs c) n | Some sec \<Rightarrow> Some (secret_pair sec)) \<and>
      bs_version (serverCertConf c') = (if secs = [] then bs_version (serverCertConf c) else now))"
  using assms
proof (induction secs arbitrary: c)
  case (Cons s secs)
  obtain e1 c1 where 1: "tls_UpdateSecret E now s c = (e1, c1)" by (metis surj_pair)
  have in_s: "secret_name s \<in> snd ` R (ingress2secret c)" using Cons.prems(2) by simp
  show ?case
  proof (cases rule: update_secret_cases [of now s c])
    case skipped
    then show ?thesis using in_s by (simp add: secret_name_def)
  next
    case (illegal e)
    then show ?thesis using Cons.prems(1) in_s by (auto simp: tls_UpdateSecret_def Let_def pair_accepted_def
        secret_pair_def SecretCrt_def SecretKey_def split: if_splits option.splits)
  next
    case (stored d)
    have rest: "update_secrets E now secs d = (err, c')" using Cons.prems(1) stored(1) by simp
    have d: "certs d = mput (secret_name s) (secret_pair s) (certs c)" "pair_accepted E s"
      using stored(3,5) by (simp_all add: secret_name_def secret_pair_def pair_accepted_def SecretCrt_def SecretKey_def)
    have "secret_name sec \<in> snd ` R (ingress2secret d)" if "sec \<in> set secs" for sec
      using Cons.prems(2) that stored(6) by simp
    from Cons.IH [OF rest this] show ?thesis
      using d stored(7) by (auto simp: find_append_new split: option.split)
  qed
qed simp

lemma update_ingress_stores:
  assumes "tls_UpdateIngress E now ing secs c = (err, c')"
  shows "(err = None \<longleftrightarrow> (\<forall>sec \<in> set secs. pair_accepted E sec)) \<and>
    (err = None \<longrightarrow>
      mget (certs c') n = (case find (\<lambda>sec. secret_name sec = n) (rev secs) of
          None \<Rightarrow> mget (certs c) n | Some sec \<Rightarrow> Some (secret_pair sec)) \<and>
      bs_version (serverCertConf c') = (if secs = [] then bs_version (serverCertConf c) else now))"
proof -
  let ?i = "NamespacedName (ing_namespace ing) (ing_name ing)"
  let ?m = "fold (\<lambda>sec m. mm_put (tls_strs E) m ?i (NamespacedName (sec_namespace sec) (sec_name sec)))
    secs (ingress2secret c)"
  have u: "update_secrets E now secs (c\<lparr>ingress2secret := ?m\<rparr>) = (err, c')"
    using assms by (simp add: tls_UpdateIngress_def Let_def)
  have "secret_name sec \<in> snd ` R (ingress2secret (c\<lparr>ingress2secret := ?m\<rparr>))" if "sec \<in> set secs" for sec
  proof -
    have "(?i, secret_name sec) \<in> R ?m" using that unfolding put_secrets_pairs secret_name_def by blast
    then have "snd (?i, secret_name sec) \<in> snd ` R ?m" by (rule imageI)
    then show ?thesis by simp
  qed
  note s = update_secrets_stores [OF u this, of n]
  have "certs (c\<lparr>ingress2secret := ?m\<rparr>) = certs c" "serverCertConf (c\<lparr>ingress2secret := ?m\<rparr>) = serverCertConf c"
    by simp_all
  from s [unfolded this] show ?thesis by blast
qed

lemma delete_secret_ok:
  assumes "tls_DeleteSecret E io now ns n c = (es, c')" and "ok c"
  shows "ok c' \<and> ingress2secret c' = ingress2secret c"
proof (cases "mm_contains_value (tls_strs E) (ingress2secret c) (NamespacedName ns n)")
  case False
  then show ?thesis using assms by (simp add: tls_DeleteSecret_def)
next
  case True
  let ?n = "NamespacedName ns n"
  have c': "c' = tls_setVersion now (snd (deleteCert io ?n c))"
    using assms(1) True by (auto simp: tls_DeleteSecret_def split: prod.splits)
  have "ok (snd (deleteCert io ?n c))"
  proof (rule tls_okI)
    show "mget (cert_table (snd (deleteCert io ?n c))) m =
        (if m = DefaultCNName \<or> mget (certs (snd (deleteCert io ?n c))) m \<noteq> None
         then Some (cert_files m) else None)" for m
      using tls_okD(1) [OF assms(2), of m] NamespacedName_not_default [of ns n]
      by (auto simp: tls_simps)
    show "mget (certs (snd (deleteCert io ?n c))) DefaultCNName = None"
      using tls_okD(2) [OF assms(2)] by (simp add: tls_simps)
    show "wf_map (certs (snd (deleteCert io ?n c)))" using tls_okD(3) [OF assms(2)] by (simp add: tls_simps)
    show "mget (certs (snd (deleteCert io ?n c))) m = Some p \<Longrightarrow>
        tls_key_pair E (cert_pem p) (key_pem p) = None \<and>
        m \<in> snd ` R (ingress2secret (snd (deleteCert io ?n c)))" for m p
      using tls_okD(4) [OF assms(2), of m p] by (auto simp: tls_simps split: if_splits)
  qed
  then show ?thesis by (simp add: c' tls_ok_setVersion tls_simps)
qed

text \<open>Deleting an ingress: the certificates that stay are those still named.\<close>

lemma delete_ingress_certs:
  assumes d: "tls_DeleteIngress E io sch now ns n c = (es, c')" and ok: "ok c"
    and key: "mm_contains_key (tls_strs E) (ingress2secret c) (NamespacedName ns n)"
  shows "R (ingress2secret c') = {p \<in> R (ingress2secret c). fst p \<noteq> NamespacedName ns n}"
    and "mget (certs c') m = (if m \<in> snd ` R (ingress2secret c') then mget (certs c) m else None)"
    and "mget (cert_table c') m =
      (if m = DefaultCNName \<or> m \<in> snd ` R (ingress2secret c') then mget (cert_table c) m else None)"
    and "set es = {e. \<exists>m. mget (certs c) m \<noteq> None \<and> m \<notin> snd ` R (ingress2secret c') \<and>
      e \<in> set (cert_removal io m)}"
proof -
  let ?c1 = "c\<lparr>ingress2secret := mm_remove_all (tls_strs E) (ingress2secret c) (NamespacedName ns n)\<rparr>"
  let ?used = "mm_values (tls_strs E) (ingress2secret ?c1)"
  let ?names = "shuffle sch (map fst (certs ?c1))"
  obtain upd c2 where u: "delete_unused io ?used ?names ?c1 = (es, upd, c2)"
    "c' = (if upd then tls_setVersion now c2 else c2)"
    using d key by (auto simp: tls_DeleteIngress_def Let_def split: prod.splits)
  have c': "mget (cert_table c') = mget (cert_table c2)" "mget (certs c') = mget (certs c2)"
    "ingress2secret c' = ingress2secret c2"
    using u(2) by (simp_all add: tls_simps)
  note l = delete_unused_simps [OF u(1)]
  show R: "R (ingress2secret c') = {p \<in> R (ingress2secret c). fst p \<noteq> NamespacedName ns n}"
    using l(3) c'(3) by (simp add: remove_all_pairs)
  have used: "set ?used = snd ` R (ingress2secret c')"
    using R by (simp add: values_set remove_all_pairs)
  have names: "m \<in> set ?names \<longleftrightarrow> mget (certs c) m \<noteq> None" for m
    using mget_None_iff [of "certs c" m] by auto
  show "mget (certs c') m = (if m \<in> snd ` R (ingress2secret c') then mget (certs c) m else None)"
    using l(2) [of m] names [of m] used c'(2) by auto
  show "mget (cert_table c') m =
      (if m = DefaultCNName \<or> m \<in> snd ` R (ingress2secret c') then mget (cert_table c) m else None)"
    using l(1) [of m] names [of m] used c'(1) tls_okD(1) [OF ok, of m] tls_okD(2) [OF ok] by auto
  have "es = concat (map (cert_removal io) (filter (\<lambda>n. n \<notin> set ?used) ?names))"
  proof (rule delete_unused_effects [OF u(1)])
    show "distinct ?names" using tls_okD(3) [OF ok] by (simp add: wf_map_def)
    show "m \<in> set ?names \<Longrightarrow> mget (cert_table ?c1) m = Some (cert_files m)" for m
      using names [of m] tls_okD(1) [OF ok, of m] by simp
  qed
  then have "set es = (\<Union>m \<in> {m. m \<in> set ?names \<and> m \<notin> set ?used}. set (cert_removal io m))"
    by (simp add: Collect_conj_eq Int_commute)
  then show "set es = {e. \<exists>m. mget (certs c) m \<noteq> None \<and> m \<notin> snd ` R (ingress2secret c') \<and>
      e \<in> set (cert_removal io m)}"
    unfolding names used by blast
qed

lemma delete_ingress_ok:
  assumes d: "tls_DeleteIngress E io sch now ns n c = (es, c')" and ok: "ok c"
  shows "ok c'"
proof (cases "mm_contains_key (tls_strs E) (ingress2secret c) (NamespacedName ns n)")
  case False
  then show ?thesis using d ok by (simp add: tls_DeleteIngress_def)
next
  case True
  note l = delete_ingress_certs [OF d ok True]
  show ?thesis
  proof (rule tls_okI)
    show "mget (cert_table c') m =
        (if m = DefaultCNName \<or> mget (certs c') m \<noteq> None then Some (cert_files m) else None)" for m
      using tls_okD(1) [OF ok, of m] l(2) [of m] l(3) [of m] by auto
    show "mget (certs c') DefaultCNName = None" using tls_okD(2) [OF ok] l(2) [of DefaultCNName] by simp
    show "mget (certs c') m = Some p \<Longrightarrow>
        tls_key_pair E (cert_pem p) (key_pem p) = None \<and> m \<in> snd ` R (ingress2secret c')" for m p
      using tls_okD(4) [OF ok, of m p] l(2) [of m] by (auto split: if_splits)
    obtain used names es1 upd c2 where u:
      "delete_unused io used names
         (c\<lparr>ingress2secret := mm_remove_all (tls_strs E) (ingress2secret c) (NamespacedName ns n)\<rparr>) =
         (es1, upd, c2)" "certs c' = certs c2"
      using d True by (auto simp: tls_DeleteIngress_def Let_def tls_simps split: prod.splits)
    show "wf_map (certs c')"
      using delete_unused_wf [OF u(1)] tls_okD(3) [OF ok] by (simp add: u(2))
  qed
qed

end

interpretation ltc: tls_certs "\<lparr>tls_strs = list_multimap, tls_key_pair = kp\<rparr>" set
  by (simp add: tls_certs_def lmm.multimap_axioms)

end
