(* ===== verification/Builder_Spec.thy ===== *)
theory Builder_Spec
  imports Config_Builder Route_Table_Spec Cluster_Owner TLS_Spec
begin

text \<open>
  Runs of the controller on its configuration: a step relation with one rule per operation of
  the builder, the states reachable from the initial one, and the invariants of the three
  components together with the link between them.
\<close>

subsection \<open>Steps\<close>

text \<open>Names of Kubernetes objects are DNS names: no underscore occurs in them.\<close>

definition kube_named :: "ingress \<Rightarrow> bool" where
  "kube_named ing \<longleftrightarrow> CHR ''_'' \<notin> set (NamespacedName (ing_namespace ing) (ing_name ing))"

inductive cb_step :: "('m, 'n) cb_env \<Rightarrow> ('m, 'n) builder \<Rightarrow> ('m, 'n) builder \<Rightarrow> bool"
  for E :: "('m, 'n) cb_env" where
  update_ingress: "cb_UpdateIngress E ch ing services eps secs c = Some (err, c') \<Longrightarrow> kube_named ing \<Longrightarrow>
    cb_step E c c'"
| delete_ingress: "cb_DeleteIngress E io ch namespace name c = (es, c') \<Longrightarrow> cb_step E c c'"
| update_service: "cb_UpdateService E ch svc ep c = Some c' \<Longrightarrow> cb_step E c c'"
| delete_service: "cb_step E c (cb_DeleteService E ch namespace name c)"
| update_secret: "cb_UpdateSecret E ch sec c = (err, c') \<Longrightarrow> cb_step E c c'"
| delete_secret: "cb_DeleteSecret E io ch namespace name c = (es, c') \<Longrightarrow> cb_step E c c'"
| tick: "cb_reload mj sch io c h = (out, c') \<Longrightarrow> cb_step E c c'"

inductive reachable :: "('m, 'n) cb_env \<Rightarrow> ('m, 'n) builder \<Rightarrow> bool" for E where
  start: "reachable E (NewConfigBuilder E)"
| step: "reachable E c \<Longrightarrow> cb_step E c c' \<Longrightarrow> reachable E c'"

subsection \<open>Cached rules and their clusters\<close>

lemma rule_in_view:
  assumes "wf_rule_map m" and "r \<in> set (rules_at m h p)"
  shows "route_view m (h, p, cond_of (r_annots r)) = Some r"
proof -
  have d: "distinct (map (\<lambda>r. cond_of (r_annots r)) (rules_at m h p))" by (rule group_distinct [OF assms(1)])
  have "distinct (map f xs) \<Longrightarrow> r \<in> set xs \<Longrightarrow> find (\<lambda>x. f x = f r) xs = Some r"
    for f :: "http_rule \<Rightarrow> string \<times> string" and xs
    by (induction xs) (auto simp: image_iff)
  from this [OF d assms(2)] show ?thesis by (simp only: route_view_triple)
qed

lemma set_paths_of: "snd ` set (paths_of ing) = set (http_paths ing)"
  by (force simp: paths_of_def http_paths_def split: option.splits)

lemma rules_for_cluster:
  assumes "r \<in> set (rules_for n ing)"
  shows "r_ingress r = ingress_name ing \<and> (\<exists>p \<in> set (http_paths ing). r_cluster r = cluster_name ing p)"
proof -
  obtain x where x: "x \<in> set (List.enumerate n (paths_of ing))" "r = rule_for ing x"
    using assms by (auto simp: rules_for_def)
  obtain a h p where a: "x = (a, h, p)" by (metis surj_pair)
  have "snd x \<in> set (map snd (List.enumerate n (paths_of ing)))" using x(1) by (simp only: set_map imageI)
  then have "(h, p) \<in> set (paths_of ing)" using a by simp
  then have "p \<in> set (http_paths ing)" using set_paths_of [of ing] by force
  moreover have "r_cluster r = cluster_name ing p"
    by (simp add: x(2) a rule_for_def NewHttpRule_def cluster_name_def ingress_name_def)
  ultimately show ?thesis using x(2) by auto
qed

text \<open>A rule of an ingress comes from one of its paths.\<close>

lemma rules_for_path:
  assumes "r \<in> set (rules_for n ing)"
  shows "r_ingress r = ingress_name ing \<and> (\<exists>x \<in> set (paths_of ing). r_host r = rule_host (fst x) \<and>
    r_path r = rule_path (snd x) \<and> r_cluster r = cluster_name ing (snd x))"
proof -
  obtain y where y: "y \<in> set (List.enumerate n (paths_of ing))" "r = rule_for ing y"
    using assms by (auto simp: rules_for_def)
  have "snd y \<in> set (map snd (List.enumerate n (paths_of ing)))" using y(1) by (simp only: set_map imageI)
  then have "snd y \<in> set (paths_of ing)" by simp
  moreover have "r_cluster r = cluster_name ing (snd (snd y))"
    by (simp add: y(2) rule_for_def NewHttpRule_def cluster_name_def ingress_name_def split: prod.split)
  ultimately show ?thesis using y(2) by auto
qed

subsection \<open>The invariant of the builder\<close>

locale builder_maps =
  sd: server_rules "cb_sd E" R1 + cl: cluster_maps "cb_cl E" R2 + tls: tls_certs "cb_tls E" R2
  for E :: "('m, 'n) cb_env" and R1 :: "'m \<Rightarrow> (string \<times> http_rule) set"
    and R2 :: "'n \<Rightarrow> (string \<times> string) set"
begin

text \<open>The link: the cluster of a cached rule is filed under the ingress of the rule.\<close>

definition linked :: "'m server_data \<Rightarrow> 'n cluster_state \<Rightarrow> bool" where
  "linked s k \<longleftrightarrow> (\<forall>key r. sd_view_of s key = Some r \<longrightarrow> (r_ingress r, r_cluster r) \<in> R2 (ingress2Cluster k))"

definition cb_ok :: "('m, 'n) builder \<Rightarrow> bool" where
  "cb_ok c \<longleftrightarrow> wf_cache R1 (routeRuleCache (serverDataConf c)) \<and> weights_ok (clusterConf c) \<and>
     cl.owned (clusterConf c) \<and> tls_ok (cb_tls E) R2 (tlsConf c) \<and>
     linked (serverDataConf c) (clusterConf c)"

lemma linkedD: "linked s k \<Longrightarrow> sd_view_of s key = Some r \<Longrightarrow> (r_ingress r, r_cluster r) \<in> R2 (ingress2Cluster k)"
  unfolding linked_def by blast

lemma linked_mono:
  assumes "linked s k" and "\<And>key r. sd_view_of s' key = Some r \<Longrightarrow> sd_view_of s key = Some r"
    and "R2 (ingress2Cluster k) \<subseteq> R2 (ingress2Cluster k')"
  shows "linked s' k'"
  using assms unfolding linked_def by blast

lemma new_ok: "cb_ok (NewConfigBuilder E)"
proof -
  have "sd_view_of (NewServerDataConfig (cb_sd E) v) key = None" for v key
    by (cases key) (simp add: NewServerDataConfig_def NewRouteRuleCache_def route_view_def rules_at_def rules_find_def)
  moreover have "weights_ok (NewClusterConfig (cb_cl E) v)" for v
    by (simp add: weights_ok_def NewClusterConfig_def)
  ultimately show ?thesis
    using sd.new_wf cl.new_owned tls.new_ok
    by (simp add: cb_ok_def NewConfigBuilder_def linked_def)
qed

text \<open>Removing an ingress from the rules and from the clusters keeps the link.\<close>

lemma linked_delete:
  assumes "linked s k" and "wf_cache R1 (routeRuleCache s)"
  shows "linked (sd_DeleteIngress (cb_sd E) ch ns n s) (cl_DeleteIngress (cb_cl E) now ns n k)"
  unfolding linked_def sd.delete_ingress_view [OF assms(2)] cl.delete_ingress_pairs
proof (intro allI impI)
  fix key r
  assume "without (NamespacedName ns n) (sd_view_of s) key = Some r"
  then have "sd_view_of s key = Some r" "r_ingress r \<noteq> NamespacedName ns n"
    unfolding without_Some by auto
  then show "(r_ingress r, r_cluster r) \<in> {p \<in> R2 (ingress2Cluster k). fst p \<noteq> NamespacedName ns n}"
    using linkedD [OF assms(1)] by simp
qed

text \<open>
  After a successful update of the rules, the new clusters are the only ones the old index may
  lack.
\<close>

lemma linked_update:
  assumes u: "sd_UpdateIngress (cb_sd E) ch ing s = Some (None, s')"
    and wf: "wf_cache R1 (routeRuleCache s)" and l: "linked s k"
    and k': "R2 (ingress2Cluster k) \<union> {(ingress_name ing, cluster_name ing p) | p. p \<in> set (http_paths ing)}
      \<subseteq> R2 (ingress2Cluster k')"
  shows "linked s' k'"
proof (cases "ing_rules ing = []")
  case True
  then have "s' = s" using u by (simp add: sd_UpdateIngress_def)
  then show ?thesis using l k' by (auto simp: linked_def)
next
  case False
  have v: "spec_puts (rules_for (sd_next_addr s) ing) (without (ingress_name ing) (sd_view_of s)) =
      (None, sd_view_of s')"
    using sd.update_ok_view [OF u wf False] by blast
  show ?thesis unfolding linked_def
  proof (intro allI impI)
    fix key r
    assume "sd_view_of s' key = Some r"
    then have "snd (spec_puts (rules_for (sd_next_addr s) ing) (without (ingress_name ing) (sd_view_of s)))
        key = Some r" by (simp only: v snd_conv)
    from spec_puts_source [OF this]
    show "(r_ingress r, r_cluster r) \<in> R2 (ingress2Cluster k')"
    proof
      assume "without (ingress_name ing) (sd_view_of s) key = Some r"
      then have "sd_view_of s key = Some r" unfolding without_Some by blast
      then show ?thesis using linkedD [OF l] k' by blast
    next
      assume "r \<in> set (rules_for (sd_next_addr s) ing)"
      from rules_for_cluster [OF this] show ?thesis using k' by auto
    qed
  qed
qed

lemma cl_update_pairs:
  assumes "cl_UpdateIngress (cb_cl E) w now ing services eps k = Some (err, k')"
  shows "err = None \<Longrightarrow> R2 (ingress2Cluster k') = R2 (ingress2Cluster k) \<union>
      {(ingress_name ing, cluster_name ing p) | p. p \<in> set (http_paths ing)}"
    and "err \<noteq> None \<Longrightarrow> R2 (ingress2Cluster k') =
      {p \<in> R2 (ingress2Cluster k). fst p \<noteq> ingress_name ing}"
proof -
  have "(err = None \<longrightarrow> R2 (ingress2Cluster k') = R2 (ingress2Cluster k) \<union>
      {(ingress_name ing, cluster_name ing p) | p. p \<in> set (http_paths ing)}) \<and>
    (err \<noteq> None \<longrightarrow> R2 (ingress2Cluster k') = {p \<in> R2 (ingress2Cluster k). fst p \<noteq> ingress_name ing})"
    using assms
  proof (cases rule: cl_UpdateIngress_cases)
    case none
    then show ?thesis by (simp add: http_paths_def)
  next
    case (refused e)
    show ?thesis
      unfolding refused(2,5) cl.delete_ingress_pairs cl.filled_pairs [OF refused(3)]
      by (auto simp: ingress_name_def)
  next
    case ok
    show ?thesis
      unfolding ok(2,6) cl_setVersion_simps cl.filled_pairs [OF ok(3)] by (simp add: ingress_name_def)
  qed
  then show "err = None \<Longrightarrow> R2 (ingress2Cluster k') = R2 (ingress2Cluster k) \<union>
      {(ingress_name ing, cluster_name ing p) | p. p \<in> set (http_paths ing)}"
    and "err \<noteq> None \<Longrightarrow> R2 (ingress2Cluster k') =
      {p \<in> R2 (ingress2Cluster k). fst p \<noteq> ingress_name ing}" by blast+
qed

lemma linked_refused:
  assumes u: "sd_UpdateIngress (cb_sd E) ch ing s = Some (None, s1)"
    and wf: "wf_cache R1 (routeRuleCache s)" and l: "linked s k"
    and k': "{p \<in> R2 (ingress2Cluster k). fst p \<noteq> ingress_name ing} \<subseteq> R2 (ingress2Cluster k')"
  shows "linked (sd_DeleteIngress (cb_sd E) ch' (ing_namespace ing) (ing_name ing) s1) k'"
  unfolding linked_def
proof (intro allI impI)
  fix key r
  have wf1: "wf_cache R1 (routeRuleCache s1)" by (rule sd.update_wf [OF u wf])
  assume "sd_view_of (sd_DeleteIngress (cb_sd E) ch' (ing_namespace ing) (ing_name ing) s1) key = Some r"
  then have r: "sd_view_of s1 key = Some r" "r_ingress r \<noteq> ingress_name ing"
    unfolding sd.delete_ingress_view [OF wf1] without_Some ingress_name_def by auto
  have "sd_view_of s key = Some r"
  proof (cases "ing_rules ing = []")
    case True
    then have "s1 = s" using u by (simp add: sd_UpdateIngress_def)
    then show ?thesis using r by simp
  next
    case False
    have v: "spec_puts (rules_for (sd_next_addr s) ing) (without (ingress_name ing) (sd_view_of s)) =
        (None, sd_view_of s1)"
      using sd.update_ok_view [OF u wf False] by blast
    have "snd (spec_puts (rules_for (sd_next_addr s) ing) (without (ingress_name ing) (sd_view_of s)))
        key = Some r" by (simp only: v snd_conv r)
    from spec_puts_source [OF this] show ?thesis
      using rules_for_cluster r(2) unfolding without_Some by blast
  qed
  then show "(r_ingress r, r_cluster r) \<in> R2 (ingress2Cluster k')" using linkedD [OF l] r(2) k' by fastforce
qed

text \<open>Every operation keeps the invariant.\<close>

lemma update_ingress_ok:
  assumes u: "cb_UpdateIngress E ch ing services eps secs c = Some (err, c')" and ok: "cb_ok c"
    and named: "kube_named ing"
  shows "cb_ok c'"
proof -
  have wf: "wf_cache R1 (routeRuleCache (serverDataConf c))" and w: "weights_ok (clusterConf c)"
    and o: "cl.owned (clusterConf c)" and t: "tls_ok (cb_tls E) R2 (tlsConf c)"
    and l: "linked (serverDataConf c) (clusterConf c)" using ok by (simp_all add: cb_ok_def)
  note nm = named [unfolded kube_named_def] and wf1 = sd.update_wf [OF _ wf]
  note wf2 = sd.delete_ingress_wf [OF wf1]
  from u show ?thesis
  proof (cases rule: cb_UpdateIngress_cases)
    case (server_refused e s1)
    have "linked s1 (clusterConf c)"
      by (rule linked_mono [OF l]) (use sd.update_error [OF server_refused(2) wf] in auto)
    then show ?thesis using wf1 [OF server_refused(2)] w o t by (simp add: cb_ok_def server_refused(3))
  next
    case (clusters_refused e s1 k1)
    note k = update_ingress_weights_ok [OF clusters_refused(3) w] cl.update_ingress_owned [OF clusters_refused(3) o nm]
    have "linked (sd_DeleteIngress (cb_sd E) (cc_sd_undo ch) (ing_namespace ing) (ing_name ing) s1) k1"
      by (rule linked_refused [OF clusters_refused(2) wf l]) (use cl_update_pairs(2) [OF clusters_refused(3)] in simp)
    then show ?thesis using wf2 [OF clusters_refused(2)] k t by (simp add: cb_ok_def clusters_refused(4))
  next
    case (certs_refused e s1 k1 t1)
    note k = update_ingress_weights_ok [OF certs_refused(3) w] cl.update_ingress_owned [OF certs_refused(3) o nm]
    have "linked (sd_DeleteIngress (cb_sd E) (cc_sd_undo ch) (ing_namespace ing) (ing_name ing) s1)
        (cl_DeleteIngress (cb_cl E) (cc_cl_undo_now ch) (ing_namespace ing) (ing_name ing) k1)"
      by (rule linked_refused [OF certs_refused(2) wf l])
        (auto simp: cl.delete_ingress_pairs cl_update_pairs(1) [OF certs_refused(3) refl] ingress_name_def)
    moreover have "tls_ok (cb_tls E) R2 t1" using tls.update_ingress_pairs [OF certs_refused(4) t] by blast
    ultimately show ?thesis
      using wf2 [OF certs_refused(2)] delete_ingress_weights_ok [OF k(1)] cl.delete_ingress_owned [OF k(2)]
      by (simp add: cb_ok_def certs_refused(5))
  next
    case (updated s1 k1 t1)
    note k = update_ingress_weights_ok [OF updated(3) w] cl.update_ingress_owned [OF updated(3) o nm]
    have "linked s1 k1"
      by (rule linked_update [OF updated(2) wf l]) (simp add: cl_update_pairs(1) [OF updated(3) refl])
    moreover have "tls_ok (cb_tls E) R2 t1" using tls.update_ingress_pairs [OF updated(4) t] by blast
    ultimately show ?thesis using wf1 [OF updated(2)] k by (simp add: cb_ok_def updated(5))
  qed
qed

lemma delete_ingress_ok:
  assumes "cb_DeleteIngress E io ch ns n c = (es, c')" and ok: "cb_ok c"
  shows "cb_ok c'"
proof -
  obtain es1 t1 where t: "tls_DeleteIngress (cb_tls E) io (cc_sched ch) (cc_tls_now ch) ns n (tlsConf c) = (es1, t1)"
    by (metis surj_pair)
  have c': "c' = c\<lparr>serverDataConf := sd_DeleteIngress (cb_sd E) (cc_sd ch) ns n (serverDataConf c),
      clusterConf := cl_DeleteIngress (cb_cl E) (cc_cl_now ch) ns n (clusterConf c), tlsConf := t1\<rparr>"
    using assms(1) t by (simp add: cb_DeleteIngress_def Let_def)
  show ?thesis
    using ok tls.delete_ingress_ok [OF t]
    by (simp add: cb_ok_def c' sd.delete_ingress_wf delete_ingress_weights_ok cl.delete_ingress_owned
        linked_delete)
qed

lemma linked_same:
  "linked s k \<Longrightarrow> routeRuleCache s' = routeRuleCache s \<Longrightarrow> ingress2Cluster k' = ingress2Cluster k \<Longrightarrow> linked s' k'"
  by (simp add: linked_def)

lemma step_ok:
  assumes "cb_step E c c'" and ok: "cb_ok c"
  shows "cb_ok c'"
  using assms(1)
proof cases
  case (update_ingress ch ing services eps secs err)
  then show ?thesis using update_ingress_ok [OF _ ok] by blast
next
  case (delete_ingress io ch ns n es)
  then show ?thesis using delete_ingress_ok [OF _ ok] by blast
next
  case (update_service ch svc ep)
  then obtain e k where k: "cl_UpdateService (cb_cl E) (cc_sched ch) (cc_cl_now ch) svc ep (clusterConf c) =
      Some (e, k)" "c' = c\<lparr>clusterConf := k\<rparr>" by (auto simp: cb_UpdateService_def)
  then show ?thesis
    using ok update_service_weights_ok [OF k(1)] cl.update_service_owned [OF k(1)]
      update_service_keeps [OF k(1)] linked_same
    by (auto simp: cb_ok_def)
next
  case (delete_service ch ns n)
  then show ?thesis
    using ok
    by (auto simp: cb_ok_def cb_DeleteService_def cl_DeleteService_simps delete_service_weights_ok
        cl.delete_service_owned intro: linked_same)
next
  case (update_secret ch sec err)
  then obtain t where t: "tls_UpdateSecret (cb_tls E) (cc_tls_now ch) sec (tlsConf c) = (err, t)"
    "c' = c\<lparr>tlsConf := t\<rparr>" by (auto simp: cb_UpdateSecret_def split: prod.splits)
  then show ?thesis using ok tls.update_secret_ok [OF t(1)] by (simp add: cb_ok_def)
next
  case (delete_secret io ch ns n es)
  then obtain t where t: "tls_DeleteSecret (cb_tls E) io (cc_tls_now ch) ns n (tlsConf c) = (es, t)"
    "c' = c\<lparr>tlsConf := t\<rparr>" by (auto simp: cb_DeleteSecret_def split: prod.splits)
  then show ?thesis using ok tls.delete_secret_ok [OF t(1)] by (simp add: cb_ok_def)
next
  case (tick mj sch io h out)
  have v: "cb_view c' = cb_view c" by (rule cbr.reload_view [OF tick])
  have k: "weights_ok (clusterConf c') = weights_ok (clusterConf c)"
    using v by (simp add: cb_view_def cl_view_def weights_ok_def)
  have t: "tls_ok (cb_tls E) R2 (tlsConf c') = tls_ok (cb_tls E) R2 (tlsConf c)"
    using v by (simp add: cb_view_def tls_view_def tls_ok_def)
  show ?thesis using ok v k t
    by (simp add: cb_ok_def cb_view_def sd_view_def cl_view_def cl.owned_def linked_def)
qed

lemma reachable_ok: "reachable E c \<Longrightarrow> cb_ok c"
  by (induction rule: reachable.induct) (auto intro: new_ok step_ok)

text \<open>What reachable states have in common, in terms of the components.\<close>

lemma cached_rule_has_cluster:
  assumes "reachable E c" and "r \<in> set (rules_at (ruleMap (routeRuleCache (serverDataConf c))) h p)"
  shows "mget (table (clusterConf c)) (r_cluster r) \<noteq> None"
proof -
  have ok: "cb_ok c" by (rule reachable_ok [OF assms(1)])
  then have "wf_rule_map (ruleMap (routeRuleCache (serverDataConf c)))"
    by (simp add: cb_ok_def wf_cache_def)
  from rule_in_view [OF this assms(2)]
  have "(r_ingress r, r_cluster r) \<in> R2 (ingress2Cluster (clusterConf c))"
    using ok linkedD unfolding cb_ok_def by blast
  then show ?thesis using ok unfolding cb_ok_def cl.owned_def by blast
qed

end

lemma builder_mapsI:
  "multimap (sd_rules (cb_sd E)) R1 \<Longrightarrow> multimap (cl_strs (cb_cl E)) R2 \<Longrightarrow>
     multimap (tls_strs (cb_tls E)) R2 \<Longrightarrow> builder_maps E R1 R2"
  by (simp add: builder_maps_def server_rules_def rule_multimap_def cluster_maps_def tls_certs_def)

interpretation lbm: builder_maps
    "\<lparr>cb_sd = \<lparr>sd_rules = list_multimap, sd_default_backend = db, sd_convert = cv\<rparr>,
      cb_cl = \<lparr>cl_strs = list_multimap, cl_default_backend = db, cl_check = ck\<rparr>,
      cb_tls = \<lparr>tls_strs = list_multimap, tls_key_pair = kp\<rparr>\<rparr>" set set
  by (rule builder_mapsI) (simp_all add: lmm.multimap_axioms)

end
