(* ===== verification/Version_Spec.thy ===== *)
theory Version_Spec
  imports Builder_Spec
begin

text \<open>
  What a handler does to the versions: it leaves a generated configuration as it is or gives it the
  clock reading of the call, and never touches the versions BFE has confirmed. This is what makes
  comparing two versions enough for the reload loop.
\<close>

subsection \<open>Server data\<close>

definition sd_refreshed :: "string set \<Rightarrow> 'm server_data \<Rightarrow> 'm server_data \<Rightarrow> bool" where
  "sd_refreshed T s s' \<longleftrightarrow>
     hostTableConf s' = hostTableConf s \<and> hostTableVersion s' = hostTableVersion s \<and>
     routeTableVersion s' = routeTableVersion s \<and> bfeClusterConfVersion s' = bfeClusterConfVersion s \<and>
     (routeTableFile s' = routeTableFile s \<or> rt_version (routeTableFile s') \<in> T) \<and>
     (bfeClusterConf s' = bfeClusterConf s \<or> bc_version (bfeClusterConf s') \<in> T)"

named_theorems refreshed

lemma sd_refreshed_tables [refreshed]: "sd_tables s' = sd_tables s \<Longrightarrow> sd_refreshed T s s'"
  by (simp add: sd_refreshed_def sd_tables_def)

lemma sd_refreshed_trans [trans]: "sd_refreshed T s s' \<Longrightarrow> sd_refreshed T s' s'' \<Longrightarrow> sd_refreshed T s s''"
  unfolding sd_refreshed_def by metis

lemma updateRouteTable_refreshed: "updateRouteTable E w now s = (err, s') \<Longrightarrow> now \<in> T \<Longrightarrow> sd_refreshed T s s'"
  by (auto simp: updateRouteTable_def sd_refreshed_def newRouteTableConfFile_def Let_def
      split: prod.splits sum.splits option.splits)

lemma updateBfeClusterConf_refreshed: "now \<in> T \<Longrightarrow> sd_refreshed T s (updateBfeClusterConf E w now s)"
  by (auto simp: updateBfeClusterConf_def sd_refreshed_def newBfeClusterConf_def Let_def split: prod.splits)

lemma sd_delete_refreshed [refreshed]:
  assumes "ch_table_now ch \<in> T" and "ch_conf_now ch \<in> T"
  shows "sd_refreshed T s (sd_DeleteIngress E ch ns n s)"
proof (cases "ContainsIngress (sd_rules E) (NamespacedName ns n) (routeRuleCache s)")
  case True
  have "sd_refreshed T s (sd_delete_rules E (ch_delete ch) (NamespacedName ns n) s)" by (simp add: refreshed)
  also have "sd_refreshed T \<dots> (snd (updateRouteTable E (ch_table ch) (ch_table_now ch) \<dots>))"
    by (rule updateRouteTable_refreshed [OF surjective_pairing assms(1)])
  also have "sd_refreshed T \<dots> (updateBfeClusterConf E (ch_conf ch) (ch_conf_now ch) \<dots>)"
    by (rule updateBfeClusterConf_refreshed [OF assms(2)])
  finally show ?thesis using True by (simp add: sd_DeleteIngress_def Let_def)
qed (simp add: sd_DeleteIngress_def refreshed)

lemma sd_update_refreshed:
  assumes "sd_UpdateIngress E ch ing s = Some (err, s')" and "ch_table_now ch \<in> T" and "ch_conf_now ch \<in> T"
  shows "sd_refreshed T s s'"
  using assms(1)
proof (cases rule: sd_UpdateIngress_cases)
  case (ok s2 s3)
  have "sd_refreshed T s s2" using updateCache_frame [OF ok(3)] by (simp add: refreshed)
  also have "sd_refreshed T s2 s3" by (rule updateRouteTable_refreshed [OF ok(4) assms(2)])
  also have "sd_refreshed T s3 s'" unfolding ok(5) by (rule updateBfeClusterConf_refreshed [OF assms(3)])
  finally show ?thesis .
qed (use updateCache_frame in \<open>fastforce intro: refreshed\<close>)+

subsection \<open>Clusters\<close>

definition cl_versions :: "'m cluster_state \<Rightarrow> string \<times> string" where
  "cl_versions k = (gslbVersion k, clusterTableVersion k)"

definition cl_refreshed :: "string set \<Rightarrow> 'm cluster_state \<Rightarrow> 'm cluster_state \<Rightarrow> bool" where
  "cl_refreshed T k k' \<longleftrightarrow>
     cl_versions k' = cl_versions k \<and>
     (gslbConf k' = gslbConf k \<and> clusterTableConf k' = clusterTableConf k \<or>
      gc_ts (gslbConf k') \<in> T \<and> ct_version (clusterTableConf k') \<in> T)"

lemma cl_refreshed_refl [refreshed]: "cl_refreshed T k k"
  by (simp add: cl_refreshed_def)

lemma cl_refreshed_trans: "cl_refreshed T k k' \<Longrightarrow> cl_refreshed T k' k'' \<Longrightarrow> cl_refreshed T k k''"
  unfolding cl_refreshed_def by metis

lemma cl_refreshed_set: "cl_versions k' = cl_versions k \<Longrightarrow> now \<in> T \<Longrightarrow> cl_refreshed T k (cl_setVersion now k')"
  by (simp add: cl_refreshed_def cl_setVersion_def cl_versions_def)

named_theorems cl_kept

lemma cl_versions_stores [cl_kept]:
  "cl_versions (set_table m k) = cl_versions k" "cl_versions (set_gslb w k) = cl_versions k"
  "cl_versions (k\<lparr>ingress2Cluster := a\<rparr>) = cl_versions k" "cl_versions (k\<lparr>service2Cluster := a\<rparr>) = cl_versions k"
  "cl_versions (cl_setVersion now k) = cl_versions k"
  by (simp_all add: cl_versions_def set_table_def set_gslb_def cl_setVersion_def)

lemma delete_cluster_kept [cl_kept]: "cl_versions (delete_cluster E n k) = cl_versions k"
  by (simp add: delete_cluster_def Let_def cl_kept)

lemma delete_clusters_kept [cl_kept]: "cl_versions (fold (delete_cluster E) ns k) = cl_versions k"
  by (induction ns arbitrary: k) (simp_all add: cl_kept)

lemma delDefautBackend_kept [cl_kept]: "cl_versions (delDefautBackend E k) = cl_versions k"
  by (simp add: delDefautBackend_def Let_def cl_kept)

lemma addDefautBackend_kept [cl_kept]: "cl_versions (addDefautBackend E ep k) = cl_versions k"
  by (simp add: addDefautBackend_def Let_def cl_kept split: option.split)

lemma delete_service_in_kept [cl_kept]: "cl_versions (delete_service_in s n k) = cl_versions k"
  by (simp add: delete_service_in_def Let_def cl_kept split: option.split)

lemma delete_services_kept [cl_kept]: "cl_versions (fold (delete_service_in s) ns k) = cl_versions k"
  by (induction ns arbitrary: k) (simp_all add: cl_kept)

lemma add_path_ok_kept:
  "ib_service (hp_backend p) \<noteq> None \<Longrightarrow> cl_versions (add_path_ok E ing b svcs eps p k) = cl_versions k"
  by (auto simp: add_path_ok_def add_path_def ClusterName_def Let_def cl_kept split: option.split)

lemma cl_filled_kept:
  assumes "\<forall>p \<in> set (http_paths ing). ib_service (hp_backend p) \<noteq> None"
  shows "cl_versions (cl_filled E ing b svcs eps k) = cl_versions k"
proof -
  have "\<forall>p \<in> set ps. ib_service (hp_backend p) \<noteq> None \<Longrightarrow>
      cl_versions (fold (add_path_ok E ing b svcs eps) ps k) = cl_versions k" for ps
    by (induction ps arbitrary: k) (simp_all add: add_path_ok_kept)
  then show ?thesis using assms by (simp add: cl_filled_def Let_def cl_kept)
qed

lemma cl_delete_versioned:
  assumes "snd (mm_get (cl_strs E) (ingress2Cluster k) (NamespacedName ns n))"
  shows "\<exists>k0. cl_DeleteIngress E now ns n k = cl_setVersion now k0 \<and> cl_versions k0 = cl_versions k"
  using assms by (auto simp: cl_DeleteIngress_def Let_def cl_kept split: prod.splits)

lemma cl_delete_refreshed [refreshed]:
  assumes "now \<in> T"
  shows "cl_refreshed T k (cl_DeleteIngress E now ns n k)"
proof (cases "snd (mm_get (cl_strs E) (ingress2Cluster k) (NamespacedName ns n))")
  case True
  from cl_delete_versioned [OF this] show ?thesis using cl_refreshed_set [OF _ assms] by metis
qed (auto simp: cl_DeleteIngress_def Let_def refreshed split: prod.splits)

lemma cl_delete_service_refreshed [refreshed]: "now \<in> T \<Longrightarrow> cl_refreshed T k (cl_DeleteService E now ns n k)"
  by (simp add: cl_DeleteService_def Let_def cl_refreshed_set cl_kept)

lemma update_service_in_kept: "update_service_in E now svc ep n k = Some (err, k') \<Longrightarrow> cl_versions k' = cl_versions k"
  by (auto simp: update_service_in_def cl_DeleteService_def Let_def cl_kept split: if_splits option.splits)

lemma each_go_error:
  "each_go f xs s = Some (Some e, s') \<Longrightarrow> \<exists>x t. x \<in> set xs \<and> f x t = Some (Some e, s')"
  by (induction xs arbitrary: s) (fastforce split: option.splits)+

lemma cl_update_service_refreshed:
  assumes "cl_UpdateService E sch now svc ep k = Some (err, k')" and "now \<in> T"
  shows "cl_refreshed T k k'"
proof -
  have go: "cl_versions d = cl_versions k" if "each_go (update_service_in E now svc ep) xs k = Some (e, d)" for xs e d
    by (rule each_go_invariant [where P = "\<lambda>d. cl_versions d = cl_versions k", OF that])
      (simp_all add: update_service_in_kept)
  obtain clusters found where g: "mm_get (cl_strs E) (service2Cluster k)
      (NamespacedName (svc_namespace svc) (svc_name svc)) = (clusters, found)" by (metis surj_pair)
  show ?thesis
  proof (cases found)
    case False
    then show ?thesis using assms(1) g by (simp add: cl_UpdateService_def refreshed)
  next
    case True
    then obtain e d where d: "each_go (update_service_in E now svc ep) (shuffle sch clusters) k = Some (e, d)"
      using assms(1) g by (auto simp: cl_UpdateService_def split: option.splits)
    show ?thesis
    proof (cases e)
      case None
      then show ?thesis using assms g True d cl_refreshed_set [OF go [OF d] assms(2)] by (simp add: cl_UpdateService_def)
    next
      case (Some x)
      then have k': "k' = d" using assms(1) g True d by (simp add: cl_UpdateService_def)
      obtain n t where "update_service_in E now svc ep n t = Some (Some x, d)"
        using each_go_error d Some by metis
      then obtain t' where "d = cl_setVersion now t'"
        by (auto simp: update_service_in_def cl_DeleteService_def Let_def split: if_splits option.splits)
      then show ?thesis using go [OF d] cl_refreshed_set [of t' k now T] assms(2) k' by (simp add: cl_kept)
    qed
  qed
qed

text \<open>
  Kubernetes allows no empty list of paths. Without that, a refused ingress could leave a default
  backend under the old version.
\<close>

definition kube_paths :: "ingress \<Rightarrow> bool" where
  "kube_paths ing \<longleftrightarrow> (\<forall>rule \<in> set (ing_rules ing). ir_http rule \<noteq> Some [])"

lemma kube_paths_some:
  assumes "kube_paths ing" and "ing_rules ing \<noteq> []" and "\<forall>rule \<in> set (ing_rules ing). ir_http rule \<noteq> None"
  shows "http_paths ing \<noteq> []"
proof -
  obtain rule where r: "rule \<in> set (ing_rules ing)" using assms(2) list.set_sel(1) by blast
  then obtain ps where "ir_http rule = Some ps" "ps \<noteq> []" using assms(1,3) by (auto simp: kube_paths_def)
  then show ?thesis using r by (auto simp: http_paths_def split: option.splits)
qed

lemma cl_update_refreshed:
  assumes "multimap (cl_strs E) R" and "cl_UpdateIngress E w now ing svcs eps k = Some (err, k')"
    and "now \<in> T" and "kube_paths ing"
  shows "cl_refreshed T k k'"
  using assms(2)
proof (cases rule: cl_UpdateIngress_cases)
  case (refused e)
  let ?f = "cl_filled E ing (balance_of w ing) svcs eps k"
  obtain p where "p \<in> set (http_paths ing)"
    using kube_paths_some [OF assms(4) refused(1,4)] list.set_sel(1) by blast
  then have "\<exists>v. (NamespacedName (ing_namespace ing) (ing_name ing), v) \<in> R (ingress2Cluster ?f)"
    unfolding cluster_maps.filled_pairs [OF cluster_mapsI [OF assms(1)] refused(3)] by blast
  then have "snd (mm_get (cl_strs E) (ingress2Cluster ?f) (NamespacedName (ing_namespace ing) (ing_name ing)))"
    using multimap.get_found [OF assms(1)] by blast
  from cl_delete_versioned [OF this] show ?thesis
    unfolding refused(5) using cl_refreshed_set [OF _ assms(3)] cl_filled_kept [OF refused(3)] by metis
next
  case ok
  show ?thesis unfolding ok(6) by (rule cl_refreshed_set [OF cl_filled_kept [OF ok(3)] assms(3)])
qed (simp add: refreshed)

subsection \<open>Certificates\<close>

definition tls_versions :: "'m tls_state \<Rightarrow> string \<times> string" where
  "tls_versions t = (serverCertVersion t, tlsRuleVersion t)"

text \<open>New certificates come under a new version, and so does every removed file.\<close>

definition tls_refreshed :: "string set \<Rightarrow> effect list \<Rightarrow> 'm tls_state \<Rightarrow> 'm tls_state \<Rightarrow> bool" where
  "tls_refreshed T es t t' \<longleftrightarrow>
     tls_versions t' = tls_versions t \<and>
     (serverCertConf t' = serverCertConf t \<and> tlsRuleConf t' = tlsRuleConf t \<and> certs t' = certs t \<and> es = [] \<or>
      bs_version (serverCertConf t') \<in> T \<and> tr_version (tlsRuleConf t') \<in> T)"

lemma tls_refreshed_refl [refreshed]: "tls_refreshed T [] t t"
  by (simp add: tls_refreshed_def)

lemma tls_refreshed_trans: "tls_refreshed T [] t t' \<Longrightarrow> tls_refreshed T [] t' t'' \<Longrightarrow> tls_refreshed T [] t t''"
  unfolding tls_refreshed_def by metis

lemma tls_refreshed_set: "tls_versions t' = tls_versions t \<Longrightarrow> now \<in> T \<Longrightarrow> tls_refreshed T es t (tls_setVersion now t')"
  by (simp add: tls_refreshed_def tls_setVersion_def tls_versions_def)

lemma tls_update_secret_refreshed:
  "tls_UpdateSecret E now sec t = (err, t') \<Longrightarrow> now \<in> T \<Longrightarrow> tls_refreshed T [] t t'"
  by (auto simp: tls_UpdateSecret_def Let_def tls_versions_def set_cert_table_def
      intro!: refreshed tls_refreshed_set split: if_splits option.splits)

lemma update_secrets_refreshed:
  "update_secrets E now secs t = (err, t') \<Longrightarrow> now \<in> T \<Longrightarrow> tls_refreshed T [] t t'"
proof (induction secs arbitrary: t)
  case (Cons sec secs)
  obtain e t1 where 1: "tls_UpdateSecret E now sec t = (e, t1)" by (metis surj_pair)
  note r = tls_update_secret_refreshed [OF 1 Cons.prems(2)]
  show ?case
  proof (cases e)
    case None
    then have "update_secrets E now secs t1 = (err, t')" using Cons.prems(1) 1 by simp
    from tls_refreshed_trans [OF r Cons.IH [OF this Cons.prems(2)]] show ?thesis .
  next
    case (Some x)
    then show ?thesis using Cons.prems(1) 1 r by simp
  qed
qed (simp add: refreshed)

lemma tls_update_refreshed:
  assumes "tls_UpdateIngress E now ing secs t = (err, t')" and "now \<in> T"
  shows "tls_refreshed T [] t t'"
proof -
  obtain m where "update_secrets E now secs (t\<lparr>ingress2secret := m\<rparr>) = (err, t')"
    using assms(1) by (simp add: tls_UpdateIngress_def Let_def)
  from update_secrets_refreshed [OF this assms(2)]
  show ?thesis by (simp add: tls_refreshed_def tls_versions_def)
qed

lemma deleteCert_kept: "deleteCert io n t = (es, t') \<Longrightarrow> tls_versions t' = tls_versions t"
  by (auto simp: deleteCert_def Let_def tls_versions_def set_cert_table_def)

lemma delete_unused_kept:
  "delete_unused io used names t = (es, upd, t') \<Longrightarrow>
     tls_versions t' = tls_versions t \<and> (\<not> upd \<longrightarrow> es = [] \<and> t' = t)"
proof (induction names arbitrary: t es upd t')
  case (Cons n names)
  show ?case
  proof (cases "n \<in> set used")
    case False
    obtain es1 t1 where d: "deleteCert io n t = (es1, t1)" by (metis surj_pair)
    obtain es2 u2 t2 where r: "delete_unused io used names t1 = (es2, u2, t2)" by (metis prod.exhaust)
    show ?thesis using Cons.prems False d r Cons.IH [OF r] deleteCert_kept [OF d] by auto
  qed (use Cons in simp)
qed simp

lemma tls_delete_refreshed:
  assumes "tls_DeleteIngress E io sch now ns n t = (es, t')" and "now \<in> T"
  shows "tls_refreshed T es t t'"
proof (cases "mm_contains_key (tls_strs E) (ingress2secret t) (NamespacedName ns n)")
  case True
  let ?t1 = "t\<lparr>ingress2secret := mm_remove_all (tls_strs E) (ingress2secret t) (NamespacedName ns n)\<rparr>"
  obtain es2 upd t2 where d: "delete_unused io (mm_values (tls_strs E) (ingress2secret ?t1))
      (shuffle sch (map fst (certs ?t1))) ?t1 = (es2, upd, t2)" by (metis prod.exhaust)
  have t': "es = es2" "t' = (if upd then tls_setVersion now t2 else t2)"
    using assms(1) True d by (simp_all add: tls_DeleteIngress_def Let_def)
  show ?thesis
  proof (cases upd)
    case True
    show ?thesis unfolding t'(2) using True delete_unused_kept [OF d]
      by (auto intro!: tls_refreshed_set assms(2) simp: tls_versions_def)
  next
    case False
    then show ?thesis using delete_unused_kept [OF d] t' by (simp add: tls_refreshed_def tls_versions_def)
  qed
qed (use assms(1) in \<open>simp add: tls_DeleteIngress_def refreshed\<close>)

lemma tls_delete_secret_refreshed:
  assumes "tls_DeleteSecret E io now ns n t = (es, t')" and "now \<in> T"
  shows "tls_refreshed T es t t'"
proof (cases "mm_contains_value (tls_strs E) (ingress2secret t) (NamespacedName ns n)")
  case True
  obtain es1 t1 where d: "deleteCert io (NamespacedName ns n) t = (es1, t1)" by (metis surj_pair)
  then show ?thesis using assms True tls_refreshed_set [OF deleteCert_kept [OF d] assms(2)]
    by (simp add: tls_DeleteSecret_def)
qed (use assms(1) in \<open>simp add: tls_DeleteSecret_def refreshed\<close>)

subsection \<open>The builder\<close>

text \<open>The clock readings of a call.\<close>

definition readings :: "cb_choice \<Rightarrow> string set" where
  "readings ch = {ch_table_now (cc_sd ch), ch_conf_now (cc_sd ch), ch_table_now (cc_sd_undo ch),
     ch_conf_now (cc_sd_undo ch), cc_cl_now ch, cc_cl_undo_now ch, cc_tls_now ch}"

lemma readings_in [simp]:
  "ch_table_now (cc_sd ch) \<in> readings ch" "ch_conf_now (cc_sd ch) \<in> readings ch"
  "ch_table_now (cc_sd_undo ch) \<in> readings ch" "ch_conf_now (cc_sd_undo ch) \<in> readings ch"
  "cc_cl_now ch \<in> readings ch" "cc_cl_undo_now ch \<in> readings ch" "cc_tls_now ch \<in> readings ch"
  by (simp_all add: readings_def)

definition cb_refreshed :: "string set \<Rightarrow> effect list \<Rightarrow> ('m, 'n) builder \<Rightarrow> ('m, 'n) builder \<Rightarrow> bool" where
  "cb_refreshed T es c c' \<longleftrightarrow> sd_refreshed T (serverDataConf c) (serverDataConf c') \<and>
     cl_refreshed T (clusterConf c) (clusterConf c') \<and> tls_refreshed T es (tlsConf c) (tlsConf c')"

lemma sd_refreshed_refl [refreshed]: "sd_refreshed T s s"
  by (simp add: refreshed)

lemma cb_update_refreshed:
  assumes "multimap (cl_strs (cb_cl E)) R" and "cb_UpdateIngress E ch ing svcs eps secs c = Some (err, c')"
    and "kube_paths ing"
  shows "cb_refreshed (readings ch) [] c c'"
  using assms(2)
proof (cases rule: cb_UpdateIngress_cases)
  case (server_refused e s1)
  show ?thesis
    using sd_update_refreshed [OF server_refused(2)] by (simp add: cb_refreshed_def server_refused(3) refreshed)
next
  case (clusters_refused e s1 k1)
  show ?thesis
    using sd_refreshed_trans [OF sd_update_refreshed [OF clusters_refused(2)] sd_delete_refreshed]
      cl_update_refreshed [OF assms(1) clusters_refused(3) _ assms(3)]
    by (simp add: cb_refreshed_def clusters_refused(4) refreshed)
next
  case (certs_refused e s1 k1 t1)
  show ?thesis
    using sd_refreshed_trans [OF sd_update_refreshed [OF certs_refused(2)] sd_delete_refreshed]
      cl_refreshed_trans [OF cl_update_refreshed [OF assms(1) certs_refused(3) _ assms(3)] cl_delete_refreshed]
      tls_update_refreshed [OF certs_refused(4)]
    by (simp add: cb_refreshed_def certs_refused(5))
next
  case (updated s1 k1 t1)
  show ?thesis
    using sd_update_refreshed [OF updated(2)] cl_update_refreshed [OF assms(1) updated(3) _ assms(3)]
      tls_update_refreshed [OF updated(4)]
    by (simp add: cb_refreshed_def updated(5))
qed

lemma cb_delete_refreshed:
  assumes "cb_DeleteIngress E io ch ns n c = (es, c')"
  shows "cb_refreshed (readings ch) es c c'"
proof -
  obtain es1 t1 where t: "tls_DeleteIngress (cb_tls E) io (cc_sched ch) (cc_tls_now ch) ns n (tlsConf c) = (es1, t1)"
    by (metis surj_pair)
  show ?thesis using assms t tls_delete_refreshed [OF t]
    by (auto simp: cb_DeleteIngress_def Let_def cb_refreshed_def refreshed)
qed

lemma cb_update_service_refreshed:
  assumes "cb_UpdateService E ch svc ep c = Some c'"
  shows "cb_refreshed (readings ch) [] c c'"
  using assms cl_update_service_refreshed
  by (fastforce simp: cb_UpdateService_def cb_refreshed_def refreshed)

lemma cb_delete_service_refreshed: "cb_refreshed (readings ch) [] c (cb_DeleteService E ch ns n c)"
  by (simp add: cb_DeleteService_def cb_refreshed_def refreshed)

lemma cb_update_secret_refreshed:
  "cb_UpdateSecret E ch sec c = (err, c') \<Longrightarrow> cb_refreshed (readings ch) [] c c'"
  using tls_update_secret_refreshed
  by (fastforce simp: cb_UpdateSecret_def cb_refreshed_def refreshed split: prod.splits)

lemma cb_delete_secret_refreshed:
  "cb_DeleteSecret E io ch ns n c = (es, c') \<Longrightarrow> cb_refreshed (readings ch) es c c'"
  using tls_delete_secret_refreshed
  by (fastforce simp: cb_DeleteSecret_def cb_refreshed_def refreshed split: prod.splits)

end
