(* ===== verification/Reload_Spec.thy ===== *)
theory Reload_Spec
  imports Builder_Spec
begin

text \<open>
  What a successful reload has written, and when a reload succeeds: the effects an operation is
  sure to have (\<open>does\<close>), the operations that cannot fail (\<open>total\<close>), and the reload loop as the
  ticks of the contract \<open>reloadable\<close>.
\<close>

subsection \<open>Effects of an operation that succeeds\<close>

definition does :: "io_op \<Rightarrow> (effect \<Rightarrow> bool) \<Rightarrow> bool" where
  "does a Q \<longleftrightarrow> (\<forall>h h'. a h = (None, h') \<longrightarrow> (\<exists>e \<in> set (drop (length h) h'). Q e))"

lemma doesD: "does a Q \<Longrightarrow> a h = (None, h') \<Longrightarrow> \<exists>e \<in> set (drop (length h) h'). Q e"
  unfolding does_def by blast

lemma does_then_first:
  assumes "does a Q" and "extends b"
  shows "does (io_then a b) Q"
  unfolding does_def io_then_None
proof (intro allI impI, elim exE conjE)
  fix h h1 h'
  assume a: "a h = (None, h1)" and b: "b h1 = (None, h')"
  obtain es where "h' = h1 @ es" using extendsE [OF assms(2) b] by blast
  then show "\<exists>e \<in> set (drop (length h) h'). Q e" using doesD [OF assms(1) a] by auto
qed

lemma does_then_second:
  assumes "does b Q" and "extends a"
  shows "does (io_then a b) Q"
  unfolding does_def io_then_None
proof (intro allI impI, elim exE conjE)
  fix h h1 h'
  assume a: "a h = (None, h1)" and b: "b h1 = (None, h')"
  obtain es where h1: "h1 = h @ es" using extendsE [OF assms(2) a] by blast
  then have "set (drop (length h1) h') \<subseteq> set (drop (length h) h')"
    by (intro set_drop_subset_set_drop) simp
  then show "\<exists>e \<in> set (drop (length h) h'). Q e" using doesD [OF assms(1) b] by blast
qed

lemma does_seq:
  assumes "does a Q" and "a \<in> set as" and "\<And>b. b \<in> set as \<Longrightarrow> extends b"
  shows "does (io_seq as) Q"
  using assms(2,3)
proof (induction as)
  case (Cons b as)
  have x: "extends (io_seq as)" by (rule extends_seq) (use Cons.prems(2) in simp)
  show ?case
  proof (cases "a = b")
    case True
    with does_then_first [OF assms(1) x] show ?thesis by simp
  next
    case False
    then have "does (io_seq as) Q" using Cons by simp
    then show ?thesis using does_then_second Cons.prems(2) by simp
  qed
qed simp

lemma does_when: "c \<Longrightarrow> does a Q \<Longrightarrow> does (io_when c a) Q"
  by (simp add: io_when_def)

lemma does_wrap: "does a Q \<Longrightarrow> does (wrap_error what a) Q"
  by (auto simp: does_def wrap_error_def split: prod.splits)

text \<open>The file is written, with the text its object is encoded to.\<close>

definition written :: "io_env \<Rightarrow> string \<times> (error + string) \<Rightarrow> effect \<Rightarrow> bool" where
  "written io fm e \<longleftrightarrow> (\<exists>t. snd fm = Inr t \<and> e = Write_File (io_config_path io @ fst fm) t)"

lemma does_DumpFile: "does (DumpFile io f d) (written io (f, Inr d))"
  by (auto simp: does_def DumpFile_def Let_def written_def)

text \<open>A dump depends on its object through the text alone.\<close>

definition dump_text :: "io_env \<Rightarrow> string \<Rightarrow> error + string \<Rightarrow> io_op" where
  "dump_text io f r = DumpBfeConf io (\<lambda>_::unit. r) f ()"

lemma DumpBfeConf_text: "DumpBfeConf io m f obj = dump_text io f (m obj)"
  by (rule ext) (simp add: dump_text_def DumpBfeConf_def)

lemma does_dump_text: "does (dump_text io f r) (written io (f, r))"
  using does_DumpFile by (auto simp: does_def dump_text_def DumpBfeConf_def split: sum.splits)

lemma extends_dump_text: "extends (dump_text io f r)"
  unfolding dump_text_def by (rule extends_DumpBfeConf)

subsection \<open>The files of a reload\<close>

text \<open>Every file of a configuration that changed, with its text.\<close>

definition sd_files :: "sd_marshal \<Rightarrow> 'm server_data \<Rightarrow> (string \<times> (error + string)) list" where
  "sd_files mj s =
     (if ht_version (hostTableConf s) \<noteq> hostTableVersion s then [(HostRuleData, mj_host mj (hostTableConf s))] else []) @
     (if rt_version (routeTableFile s) \<noteq> routeTableVersion s then [(RouteRuleData, mj_route mj (routeTableFile s))] else []) @
     (if bc_version (bfeClusterConf s) \<noteq> bfeClusterConfVersion s then [(ClusterConfData, mj_cluster mj (bfeClusterConf s))] else [])"

definition cl_files :: "cl_marshal \<Rightarrow> 'm cluster_state \<Rightarrow> (string \<times> (error + string)) list" where
  "cl_files mj c =
     (if gc_ts (gslbConf c) \<noteq> gslbVersion c then [(GslbData, mj_gslb mj (gslbConf c))] else []) @
     (if ct_version (clusterTableConf c) \<noteq> clusterTableVersion c
      then [(ClusterTableData, mj_table mj (clusterTableConf c))] else [])"

definition cert_files_of :: "'m tls_state \<Rightarrow> (string \<times> (error + string)) list" where
  "cert_files_of c = concat (map (\<lambda>(name, cert).
     (let pair = mget_or \<lparr>cert_pem = [], key_pem = []\<rparr> (certs c) name
      in if name = DefaultCNName then []
         else [(sc_cert_file cert, Inr (cert_pem pair)), (sc_key_file cert, Inr (key_pem pair))]))
     (cert_table c))"

definition tls_files :: "tls_marshal \<Rightarrow> 'm tls_state \<Rightarrow> (string \<times> (error + string)) list" where
  "tls_files mj c =
     (if bs_version (serverCertConf c) \<noteq> serverCertVersion c
      then (ServerCertData, mj_cert mj (serverCertConf c)) # cert_files_of c else []) @
     (if tr_version (tlsRuleConf c) \<noteq> tlsRuleVersion c then [(TLSRuleData, mj_rule mj (tlsRuleConf c))] else [])"

lemma sd_dumps_write: "fm \<in> set (sd_files mj s) \<Longrightarrow> does (sd_dumps mj io s) (written io fm)"
  unfolding sd_dumps_def sd_files_def DumpBfeConf_text
  by (auto split: if_splits)
    ((rule does_then_first, rule does_when [OF TrueI], rule does_wrap, rule does_dump_text)
      | rule does_then_second io_extends extends_dump_text)+

lemma cl_dumps_write: "fm \<in> set (cl_files mj s) \<Longrightarrow> does (cl_dumps mj io s) (written io fm)"
  unfolding cl_dumps_def cl_files_def DumpBfeConf_text
  by (auto split: if_splits)
    ((rule does_then_first, rule does_when [OF TrueI], rule does_wrap, rule does_dump_text)
      | rule does_then_second io_extends extends_dump_text)+

lemma dump_certs_write:
  assumes "fm \<in> set (cert_files_of c)"
  shows "does (io_seq (map (dump_cert io c) (shuffle sch (cert_table c)))) (written io fm)"
proof -
  obtain name cert where n: "(name, cert) \<in> set (cert_table c)" "name \<noteq> DefaultCNName"
    and fm: "fm = (sc_cert_file cert, Inr (cert_pem (mget_or \<lparr>cert_pem = [], key_pem = []\<rparr> (certs c) name))) \<or>
      fm = (sc_key_file cert, Inr (key_pem (mget_or \<lparr>cert_pem = [], key_pem = []\<rparr> (certs c) name)))"
    using assms by (auto simp: cert_files_of_def Let_def split: if_splits)
  have "does (dump_cert io c (name, cert)) (written io fm)"
    using n(2) fm by (auto simp: dump_cert_def Let_def intro: does_then_first does_then_second does_DumpFile io_extends)
  then show ?thesis
    by (rule does_seq) (use n(1) in \<open>auto intro: extends_dump_cert\<close>)
qed

lemma extends_dump_certs: "extends (io_seq (map (dump_cert io c) xs))"
  by (rule extends_seq) (auto intro: extends_dump_cert)

lemma tls_dumps_write: "fm \<in> set (tls_files mj s) \<Longrightarrow> does (tls_dumps mj sch io s) (written io fm)"
  unfolding tls_dumps_def tls_files_def DumpBfeConf_text
  by (auto split: if_splits)
    ((rule does_then_first, rule does_when [OF TrueI], rule does_wrap, rule does_dump_text)
      | (rule does_then_first, rule does_when [OF TrueI], rule does_then_first, rule does_wrap, rule does_dump_text)
      | (rule does_then_first, rule does_when [OF TrueI], rule does_then_second, erule dump_certs_write)
      | rule does_then_second io_extends extends_dump_text extends_dump_certs)+

subsection \<open>What a reload does, and nothing else\<close>

text \<open>Every effect of an operation satisfies \<open>P\<close>.\<close>

definition only :: "io_op \<Rightarrow> (effect \<Rightarrow> bool) \<Rightarrow> bool" where
  "only a P \<longleftrightarrow> (\<forall>h r h'. a h = (r, h') \<longrightarrow> (\<exists>es. h' = h @ es \<and> (\<forall>e \<in> set es. P e)))"

lemma onlyD: "only a P \<Longrightarrow> a h = (r, h') \<Longrightarrow> \<exists>es. h' = h @ es \<and> (\<forall>e \<in> set es. P e)"
  unfolding only_def by blast

lemma only_skip: "only io_skip P"
  by (simp add: only_def io_skip_def)

lemma only_when: "(c \<Longrightarrow> only a P) \<Longrightarrow> only (io_when c a) P"
  by (simp add: io_when_def only_skip)

lemma only_wrap: "only a P \<Longrightarrow> only (wrap_error what a) P"
  unfolding only_def wrap_error_def by (auto split: prod.splits)

lemma only_then:
  assumes "only a P" and "only b P"
  shows "only (io_then a b) P"
  unfolding only_def
proof (intro allI impI)
  fix h r h'
  assume ab: "io_then a b h = (r, h')"
  obtain r1 h1 where a: "a h = (r1, h1)" by (metis surj_pair)
  obtain es1 where 1: "h1 = h @ es1" "\<forall>e \<in> set es1. P e" using onlyD [OF assms(1) a] by blast
  show "\<exists>es. h' = h @ es \<and> (\<forall>e \<in> set es. P e)"
  proof (cases r1)
    case None
    then have "b h1 = (r, h')" using ab a by (simp add: io_then_def)
    then obtain es2 where "h' = h1 @ es2" "\<forall>e \<in> set es2. P e" using onlyD [OF assms(2)] by blast
    then have "h' = h @ (es1 @ es2) \<and> (\<forall>e \<in> set (es1 @ es2). P e)" using 1 by auto
    then show ?thesis by blast
  next
    case (Some e)
    then show ?thesis using ab a 1 by (auto simp: io_then_def)
  qed
qed

lemma only_seq: "(\<And>a. a \<in> set as \<Longrightarrow> only a P) \<Longrightarrow> only (io_seq as) P"
  by (induction as) (simp_all add: only_skip only_then)

text \<open>Making directories and writing files of the list, with their texts.\<close>

definition writes_of :: "io_env \<Rightarrow> (string \<times> (error + string)) list \<Rightarrow> effect \<Rightarrow> bool" where
  "writes_of io fms e \<longleftrightarrow> (\<exists>p. e = Make_Dir p) \<or> (\<exists>fm \<in> set fms. written io fm e)"

lemma only_DumpFile: "(f, Inr d) \<in> set fms \<Longrightarrow> only (DumpFile io f d) (writes_of io fms)"
  unfolding only_def DumpFile_def Let_def writes_of_def written_def by force

lemma only_dump_text: "(f, r) \<in> set fms \<Longrightarrow> only (dump_text io f r) (writes_of io fms)"
  using only_DumpFile [of f _ fms io] unfolding only_def dump_text_def DumpBfeConf_def by (auto split: sum.splits)

lemma sd_dumps_only: "only (sd_dumps mj io s) (writes_of io (sd_files mj s))"
  unfolding sd_dumps_def DumpBfeConf_text
  by (rule only_seq) (auto intro!: only_when only_wrap only_dump_text simp: sd_files_def)

lemma cl_dumps_only: "only (cl_dumps mj io s) (writes_of io (cl_files mj s))"
  unfolding cl_dumps_def DumpBfeConf_text
  by (rule only_seq) (auto intro!: only_when only_wrap only_dump_text simp: cl_files_def)

lemma dump_cert_only:
  assumes "x \<in> set (cert_table c)" and "set (cert_files_of c) \<subseteq> set fms"
  shows "only (dump_cert io c x) (writes_of io fms)"
proof (cases "fst x = DefaultCNName")
  case False
  let ?pair = "mget_or \<lparr>cert_pem = [], key_pem = []\<rparr> (certs c) (fst x)"
  have "(sc_cert_file (snd x), Inr (cert_pem ?pair)) \<in> set (cert_files_of c)"
    "(sc_key_file (snd x), Inr (key_pem ?pair)) \<in> set (cert_files_of c)"
    using assms(1) False by (force simp: cert_files_of_def Let_def)+
  then show ?thesis
    using assms(2) False by (auto simp: dump_cert_def Let_def case_prod_beta intro!: only_then only_DumpFile)
qed (simp add: dump_cert_def Let_def case_prod_beta only_skip)

lemma tls_dumps_only: "only (tls_dumps mj sch io s) (writes_of io (tls_files mj s))"
  unfolding tls_dumps_def DumpBfeConf_text
  by (rule only_seq)
    (auto intro!: only_when only_wrap only_dump_text only_then only_seq dump_cert_only simp: tls_files_def)

text \<open>
  A configuration with changed files has all of them written, nothing else written, and BFE asked for it
  once, after that; a configuration without changed files is left alone.
\<close>

definition told :: "io_env \<Rightarrow> string \<Rightarrow> (string \<times> (error + string)) list \<Rightarrow> effect list \<Rightarrow> bool" where
  "told io name fms es \<longleftrightarrow>
     (if fms = [] then es = []
      else \<exists>ws. es = ws @ [Http_Get (io_reload_url io @ name)] \<and>
        (\<forall>fm \<in> set fms. \<exists>e \<in> set ws. written io fm e) \<and> (\<forall>e \<in> set ws. writes_of io fms e))"

lemma reload_with_told:
  assumes "reload_with changed dumps (ReloadBfe io n) commit s h = ((None, h'), s')"
    and "changed \<longleftrightarrow> fms \<noteq> []" and "only dumps (writes_of io fms)"
    and "\<And>fm. fm \<in> set fms \<Longrightarrow> does dumps (written io fm)" and "\<not> changed \<Longrightarrow> dumps = io_skip"
  shows "\<exists>es. h' = h @ es \<and> told io n fms es"
proof (cases changed)
  case True
  have "io_then dumps (ReloadBfe io n) h = (None, h')"
    using assms(1) True by (auto simp: reload_with_def io_when_def split: prod.splits option.splits)
  then obtain h1 where h1: "dumps h = (None, h1)" "ReloadBfe io n h1 = (None, h')" by (auto simp: io_then_None)
  obtain ws where ws: "h1 = h @ ws" "\<forall>e \<in> set ws. writes_of io fms e" using onlyD [OF assms(3) h1(1)] by blast
  have "h' = h1 @ [Http_Get (io_reload_url io @ n)]" using h1(2) by (simp add: ReloadBfe_def Let_def)
  moreover have "\<exists>e \<in> set ws. written io fm e" if "fm \<in> set fms" for fm
    using doesD [OF assms(4) [OF that] h1(1)] ws(1) by simp
  ultimately have "h' = h @ (ws @ [Http_Get (io_reload_url io @ n)]) \<and>
      told io n fms (ws @ [Http_Get (io_reload_url io @ n)])"
    using ws True assms(2) by (simp add: told_def)
  then show ?thesis by blast
next
  case False
  then have "h' = h" using assms(1,5) by (simp add: reload_with_idle)
  then show ?thesis using False assms(2) by (simp add: told_def)
qed

lemma sd_files_pending: "sd_pending s \<longleftrightarrow> sd_files mj s \<noteq> []"
  by (simp add: sd_pending_def sd_files_def)

lemma cl_files_pending: "cl_pending s \<longleftrightarrow> cl_files mj s \<noteq> []"
  by (simp add: cl_pending_def cl_files_def)

lemma tls_files_pending: "tls_pending s \<longleftrightarrow> tls_files mj s \<noteq> []"
  by (simp add: tls_pending_def tls_files_def)

lemma reload_told:
  assumes "cb_reload mj sch io c h = ((None, h'), c')"
  shows "\<exists>es1 es2 es3. h' = h @ es1 @ es2 @ es3 \<and>
    told io ConfigNameServerData (sd_files (mj_sd mj) (serverDataConf c)) es1 \<and>
    told io ConfigNameclusterConf (cl_files (mj_cl mj) (clusterConf c)) es2 \<and>
    told io ConfigNameTLSConf (tls_files (mj_tls mj) (tlsConf c)) es3"
  using assms
proof (cases rule: cb_reload_parts)
  case (tls s1 h1 k1 h2 t1)
  note 1 = reload_with_told [OF tls(1) [unfolded sd_Reload_def] sd_files_pending sd_dumps_only sd_dumps_write sd_dumps_idle]
  note 2 = reload_with_told [OF tls(2) [unfolded cl_Reload_def] cl_files_pending cl_dumps_only cl_dumps_write cl_dumps_idle]
  note 3 = reload_with_told [OF tls(3) [unfolded tls_Reload_def] tls_files_pending tls_dumps_only tls_dumps_write tls_dumps_idle]
  show ?thesis using 1 2 3 by fastforce
qed simp_all

text \<open>A changed file of the server data is written before BFE is asked for the server data.\<close>

lemma told_first:
  assumes "cb_reload mj sch io c h = ((None, h @ es), c')" and "(f, m) \<in> set (sd_files (mj_sd mj) (serverDataConf c))"
  shows "\<exists>ws rest t. es = ws @ Http_Get (io_reload_url io @ ConfigNameServerData) # rest \<and>
    Write_File (io_config_path io @ f) t \<in> set ws \<and> m = Inr t"
proof -
  obtain es1 es2 es3 where es: "es = es1 @ es2 @ es3"
    "told io ConfigNameServerData (sd_files (mj_sd mj) (serverDataConf c)) es1"
    using reload_told [OF assms(1)] by auto
  obtain ws where ws: "es1 = ws @ [Http_Get (io_reload_url io @ ConfigNameServerData)]"
    "\<forall>fm \<in> set (sd_files (mj_sd mj) (serverDataConf c)). \<exists>e \<in> set ws. written io fm e"
    using es(2) assms(2) by (auto simp: told_def split: if_splits)
  obtain e where "e \<in> set ws" "written io (f, m) e" using ws(2) assms(2) by blast
  then have "\<exists>t. Write_File (io_config_path io @ f) t \<in> set ws \<and> m = Inr t" by (auto simp: written_def)
  then show ?thesis using es(1) ws(1) by auto
qed

subsection \<open>Reloads that cannot fail\<close>

definition total :: "io_op \<Rightarrow> bool" where
  "total a \<longleftrightarrow> (\<forall>h. fst (a h) = None)"

definition writable :: "io_env \<Rightarrow> bool" where
  "writable io \<longleftrightarrow> (\<forall>h f d. io_write io h f d = None)"

definition bfe_accepts :: "io_env \<Rightarrow> bool" where
  "bfe_accepts io \<longleftrightarrow> (\<forall>h u. \<exists>body. io_get io h u = Inr (200, body))"

lemma total_skip: "total io_skip"
  by (simp add: total_def io_skip_def)

lemma total_then: "total a \<Longrightarrow> total b \<Longrightarrow> total (io_then a b)"
  by (auto simp: total_def io_then_def split: prod.splits option.splits) (metis fst_conv option.distinct(1))+

lemma total_when: "total a \<Longrightarrow> total (io_when c a)"
  by (simp add: io_when_def total_skip)

lemma total_wrap: "total a \<Longrightarrow> total (wrap_error what a)"
  by (simp add: total_def wrap_error_def case_prod_beta)

lemma total_seq: "(\<And>a. a \<in> set as \<Longrightarrow> total a) \<Longrightarrow> total (io_seq as)"
  by (induction as) (simp_all add: total_skip total_then)

lemma total_DumpFile: "writable io \<Longrightarrow> total (DumpFile io f d)"
  by (simp add: total_def DumpFile_def writable_def Let_def)

lemma total_DumpBfeConf: "writable io \<Longrightarrow> m obj = Inr t \<Longrightarrow> total (DumpBfeConf io m f obj)"
  using total_DumpFile by (simp add: total_def DumpBfeConf_def)

lemma total_ReloadBfe: "bfe_accepts io \<Longrightarrow> total (ReloadBfe io n)"
  unfolding total_def ReloadBfe_def bfe_accepts_def Let_def
  by (metis (mono_tags, lifting) case_prod_conv fst_conv sum.case(2))

lemma reload_with_total:
  assumes "total dumps" and "total tell"
  shows "\<exists>h' s'. reload_with changed dumps tell commit s h = ((None, h'), s')"
proof -
  have "fst (io_then dumps (io_when changed tell) h) = None"
    using total_then [OF assms(1) total_when [OF assms(2)]] unfolding total_def by blast
  then show ?thesis by (cases "io_then dumps (io_when changed tell) h") (simp add: reload_with_def)
qed

text \<open>
  The contract with a promise of progress: in a good environment a reload succeeds.
\<close>

locale live_reload = reloadable pending view names reload
  for pending :: "'s \<Rightarrow> bool" and view :: "'s \<Rightarrow> 'v" and names
    and reload :: "'x \<Rightarrow> io_env \<Rightarrow> 's \<Rightarrow> trace \<Rightarrow> (error option \<times> trace) \<times> 's" +
  fixes good :: "'x \<Rightarrow> io_env \<Rightarrow> 's \<Rightarrow> bool"
  assumes reload_good: "good x io s \<Longrightarrow> \<exists>h' s'. reload x io s h = ((None, h'), s')"
    and good_view: "view s' = view s \<Longrightarrow> good x io s' \<longleftrightarrow> good x io s"
begin

text \<open>One good tick is enough, whatever the ticks before and after it find.\<close>

lemma ticks_converge:
  assumes "(x, io) \<in> set ws" and "good x io s" and "ticks ws s h = (h', s')"
  shows "\<not> pending s'"
proof -
  obtain as bs where ws: "ws = as @ (x, io) # bs" using assms(1) by (meson split_list)
  obtain h1 s1 where as: "ticks as s h = (h1, s1)" by (metis surj_pair)
  have "good x io s1" using assms(2) good_view [OF ticks_view [OF as]] by simp
  then obtain h2 s2 where r: "reload x io s1 h1 = ((None, h2), s2)" using reload_good by blast
  have "s' = s2" using ticks_until_success [OF as r] assms(3) ws by simp
  then show ?thesis using reload_ok [OF r] by simp
qed

end

definition encodes :: "('obj \<Rightarrow> error + string) \<Rightarrow> 'obj \<Rightarrow> bool" where
  "encodes m x \<longleftrightarrow> (case m x of Inr _ \<Rightarrow> True | Inl _ \<Rightarrow> False)"

definition cb_good :: "cb_marshal \<Rightarrow> schedule \<Rightarrow> io_env \<Rightarrow> ('m, 'n) builder \<Rightarrow> bool" where
  "cb_good mj sch io c \<longleftrightarrow> writable io \<and> bfe_accepts io \<and>
     encodes (mj_host (mj_sd mj)) (hostTableConf (serverDataConf c)) \<and>
     encodes (mj_route (mj_sd mj)) (routeTableFile (serverDataConf c)) \<and>
     encodes (mj_cluster (mj_sd mj)) (bfeClusterConf (serverDataConf c)) \<and>
     encodes (mj_gslb (mj_cl mj)) (gslbConf (clusterConf c)) \<and>
     encodes (mj_table (mj_cl mj)) (clusterTableConf (clusterConf c)) \<and>
     encodes (mj_cert (mj_tls mj)) (serverCertConf (tlsConf c)) \<and>
     encodes (mj_rule (mj_tls mj)) (tlsRuleConf (tlsConf c))"

lemma encodes_total: "writable io \<Longrightarrow> encodes m x \<Longrightarrow> total (DumpBfeConf io m f x)"
  unfolding encodes_def by (auto split: sum.splits intro: total_DumpBfeConf)

lemma cb_good_total:
  assumes "cb_good mj sch io c"
  shows "total (sd_dumps (mj_sd mj) io (serverDataConf c))"
    and "total (cl_dumps (mj_cl mj) io (clusterConf c))"
    and "total (tls_dumps (mj_tls mj) sch io (tlsConf c))"
    and "total (ReloadBfe io n)"
proof -
  have w: "writable io" using assms by (simp add: cb_good_def)
  have cert: "total (dump_cert io (tlsConf c) x)" for x
    by (simp add: dump_cert_def Let_def total_skip total_then total_DumpFile [OF w] split: prod.split)
  note t = encodes_total [OF w] total_when total_wrap
  show "total (sd_dumps (mj_sd mj) io (serverDataConf c))"
    unfolding sd_dumps_def by (rule total_seq) (use assms in \<open>auto simp: cb_good_def intro!: t\<close>)
  show "total (cl_dumps (mj_cl mj) io (clusterConf c))"
    unfolding cl_dumps_def by (rule total_seq) (use assms in \<open>auto simp: cb_good_def intro!: t\<close>)
  show "total (tls_dumps (mj_tls mj) sch io (tlsConf c))"
    unfolding tls_dumps_def
    by (rule total_seq) (use assms cert in \<open>auto simp: cb_good_def intro!: t total_then total_seq\<close>)
  show "total (ReloadBfe io n)" using assms total_ReloadBfe by (simp add: cb_good_def)
qed

lemma cb_reload_good:
  assumes "cb_good mj sch io c"
  shows "\<exists>h' c'. cb_reload mj sch io c h = ((None, h'), c')"
proof -
  note g = cb_good_total [OF assms]
  obtain h1 s1 where 1: "sd_Reload (mj_sd mj) io (serverDataConf c) h = ((None, h1), s1)"
    unfolding sd_Reload_def by (meson reload_with_total [OF g(1,4)])
  obtain h2 k1 where 2: "cl_Reload (mj_cl mj) io (clusterConf c) h1 = ((None, h2), k1)"
    unfolding cl_Reload_def by (meson reload_with_total [OF g(2,4)])
  obtain h3 t1 where 3: "tls_Reload (mj_tls mj) sch io (tlsConf c) h2 = ((None, h3), t1)"
    unfolding tls_Reload_def by (meson reload_with_total [OF g(3,4)])
  show ?thesis using 1 2 3 by (simp add: cb_reload_def)
qed

interpretation cbl: live_reload cb_pending cb_view
    "{ConfigNameServerData, ConfigNameclusterConf, ConfigNameTLSConf}" "cb_reload mj" "cb_good mj"
proof
  fix x io and s s' :: "('m, 'n) builder" and h
  show "cb_good mj x io s \<Longrightarrow> \<exists>h' s'. cb_reload mj x io s h = ((None, h'), s')"
    by (rule cb_reload_good)
  show "cb_view s' = cb_view s \<Longrightarrow> cb_good mj x io s' \<longleftrightarrow> cb_good mj x io s"
    by (simp add: cb_view_def sd_view_def cl_view_def tls_view_def cb_good_def)
qed

subsection \<open>The loop\<close>

text \<open>The ticks before the context is done.\<close>

fun ticks_of :: "reload_event list \<Rightarrow> (schedule \<times> io_env) list" where
  "ticks_of [] = []"
| "ticks_of (Tick sch io # es) = (sch, io) # ticks_of es"
| "ticks_of (Ctx_Done # es) = []"

lemma InitReload_ticks: "InitReload mj es c h = reloadable.ticks (cb_reload mj) (ticks_of es) c h"
  by (induction mj es c h rule: InitReload.induct) (auto split: prod.splits)

end
