(* ===== verification/Disk_Spec.thy ===== *)
theory Disk_Spec
  imports Version_Spec Reload_Spec
begin

text \<open>
  The files on disk. A write that succeeds gives the file its text, a write that fails may leave
  anything in that file, a removal may fail. Operations are described by what they are sure to
  store in a file (\<open>stores\<close>) and by the files they leave alone (\<open>keeps\<close>). Paths are taken as
  strings: the names in them hold no dots that would make two of them the same file.
\<close>

subsection \<open>Effects on the disk\<close>

type_synonym disk = "string \<Rightarrow> string option"

inductive disk_step :: "io_env \<Rightarrow> trace \<Rightarrow> effect \<Rightarrow> disk \<Rightarrow> disk \<Rightarrow> bool" for io h where
  made: "disk_step io h (Make_Dir p) d d"
| asked: "disk_step io h (Http_Get u) d d"
| wrote: "io_write io h p t = None \<Longrightarrow> disk_step io h (Write_File p t) d (d(p \<mapsto> t))"
| spoiled: "io_write io h p t = Some e \<Longrightarrow> \<forall>q. q \<noteq> p \<longrightarrow> d' q = d q \<Longrightarrow> disk_step io h (Write_File p t) d d'"
| removed: "disk_step io h (Remove_File p) d (d(p := None))"
| not_removed: "disk_step io h (Remove_File p) d d"

inductive_cases disk_stepE: "disk_step io h e d d'"

inductive disk_run :: "io_env \<Rightarrow> trace \<Rightarrow> effect list \<Rightarrow> disk \<Rightarrow> disk \<Rightarrow> bool" for io where
  none: "disk_run io h [] d d"
| one: "disk_step io h e d d1 \<Longrightarrow> disk_run io (h @ [e]) es d1 d2 \<Longrightarrow> disk_run io h (e # es) d d2"

inductive_simps disk_run_Nil [simp]: "disk_run io h [] d d'"
inductive_simps disk_run_Cons: "disk_run io h (e # es) d d'"

lemma disk_run_append:
  "disk_run io h (es @ es') d d' \<longleftrightarrow> (\<exists>d1. disk_run io h es d d1 \<and> disk_run io (h @ es) es' d1 d')"
proof (induction es arbitrary: h d)
  case (Cons e es)
  show ?case by (auto simp: disk_run_Cons Cons.IH)
qed simp

lemma disk_run_exists: "\<exists>d'. disk_run io h es d d'"
proof (induction es arbitrary: h d)
  case (Cons e es)
  have "\<exists>d1. disk_step io h e d d1"
  proof (cases e)
    case (Write_File p t)
    then show ?thesis by (cases "io_write io h p t") (auto intro: disk_step.intros)
  qed (auto intro: disk_step.intros)
  then show ?case using Cons unfolding disk_run_Cons by blast
qed auto

text \<open>The file an effect is about.\<close>

fun touches :: "effect \<Rightarrow> string \<Rightarrow> bool" where
  "touches (Write_File p _) q = (q = p)"
| "touches (Remove_File p) q = (q = p)"
| "touches (Make_Dir _) q = False"
| "touches (Http_Get _) q = False"

lemma disk_step_untouched: "disk_step io h e d d' \<Longrightarrow> \<not> touches e q \<Longrightarrow> d' q = d q"
  by (erule disk_stepE) auto

lemma disk_run_untouched: "disk_run io h es d d' \<Longrightarrow> \<forall>e \<in> set es. \<not> touches e q \<Longrightarrow> d' q = d q"
  by (induction rule: disk_run.induct) (auto dest: disk_step_untouched)

subsection \<open>What an operation does to a file\<close>

definition keeps :: "io_env \<Rightarrow> io_op \<Rightarrow> string \<Rightarrow> bool" where
  "keeps io a q \<longleftrightarrow> (\<forall>h r es. a h = (r, h @ es) \<longrightarrow> (\<forall>e \<in> set es. \<not> touches e q))"

text \<open>The content of a file is the text of an encoding that succeeded.\<close>

definition holds :: "error + string \<Rightarrow> string option \<Rightarrow> bool" where
  "holds r x \<longleftrightarrow> (\<exists>t. r = Inr t \<and> x = Some t)"

definition stores :: "io_env \<Rightarrow> io_op \<Rightarrow> string \<Rightarrow> error + string \<Rightarrow> bool" where
  "stores io a q t \<longleftrightarrow> (\<forall>h es d d'. a h = (None, h @ es) \<longrightarrow> disk_run io h es d d' \<longrightarrow> holds t (d' q))"

named_theorems disk_rules

lemma keepsD: "keeps io a q \<Longrightarrow> a h = (r, h @ es) \<Longrightarrow> disk_run io h es d d' \<Longrightarrow> d' q = d q"
  unfolding keeps_def using disk_run_untouched by blast

lemma storesD: "stores io a q t \<Longrightarrow> a h = (None, h @ es) \<Longrightarrow> disk_run io h es d d' \<Longrightarrow> holds t (d' q)"
  unfolding stores_def by blast

lemma keeps_skip [disk_rules]: "keeps io io_skip q"
  by (simp add: keeps_def io_skip_def)

lemma keeps_when [disk_rules]: "(c \<Longrightarrow> keeps io a q) \<Longrightarrow> keeps io (io_when c a) q"
  by (simp add: io_when_def keeps_skip)

lemma keeps_wrap [disk_rules]: "keeps io a q \<Longrightarrow> keeps io (wrap_error what a) q"
  by (auto simp: keeps_def wrap_error_def split: prod.splits)

lemma keeps_tell [disk_rules]: "keeps io (ReloadBfe io n) q"
  by (auto simp: keeps_def ReloadBfe_def Let_def)

lemma keeps_DumpFile [disk_rules]: "q \<noteq> io_config_path io @ f \<Longrightarrow> keeps io (DumpFile io f t) q"
  by (auto simp: keeps_def DumpFile_def Let_def split: if_splits)

lemma keeps_dump_text [disk_rules]: "q \<noteq> io_config_path io @ f \<Longrightarrow> keeps io (dump_text io f r) q"
  using keeps_DumpFile [of q io f] by (auto simp: keeps_def dump_text_def DumpBfeConf_def split: sum.splits)

text \<open>A sequence of two operations, either of which may have failed.\<close>

lemma io_then_split:
  assumes "io_then a b h = (r, h @ es)" and "extends a" and "extends b"
  shows "(\<exists>e. r = Some e \<and> a h = (Some e, h @ es)) \<or>
    (\<exists>es1 es2. es = es1 @ es2 \<and> a h = (None, h @ es1) \<and> b (h @ es1) = (r, h @ es1 @ es2))"
proof -
  obtain r1 es1 where a: "a h = (r1, h @ es1)" using assms(2) by (metis extends_def prod.collapse)
  show ?thesis
  proof (cases r1)
    case (Some e)
    then show ?thesis using assms(1) a by (auto simp: io_then_def)
  next
    case None
    then have b: "b (h @ es1) = (r, h @ es)" using assms(1) a by (simp add: io_then_def)
    obtain es2 where "h @ es = (h @ es1) @ es2" using extendsE [OF assms(3) b] by blast
    then show ?thesis using a b None by simp
  qed
qed

lemma keeps_then [disk_rules]:
  assumes "keeps io a q" and "keeps io b q" and "extends a" and "extends b"
  shows "keeps io (io_then a b) q"
  unfolding keeps_def
proof (intro allI impI)
  fix h r es
  assume "io_then a b h = (r, h @ es)"
  from io_then_split [OF this assms(3,4)] show "\<forall>e \<in> set es. \<not> touches e q"
    using assms(1,2) unfolding keeps_def by (metis append.assoc Un_iff set_append)
qed

lemma keeps_seq [disk_rules]:
  "(\<And>a. a \<in> set as \<Longrightarrow> keeps io a q \<and> extends a) \<Longrightarrow> keeps io (io_seq as) q"
  by (induction as) (simp_all add: keeps_skip keeps_then extends_seq)

lemma stores_then_first:
  assumes "stores io a q t" and "keeps io b q" and "extends a" and "extends b"
  shows "stores io (io_then a b) q t"
  unfolding stores_def
proof (intro allI impI)
  fix h es d d'
  assume ab: "io_then a b h = (None, h @ es)" and run: "disk_run io h es d d'"
  obtain es1 es2 where es: "es = es1 @ es2" "a h = (None, h @ es1)" "b (h @ es1) = (None, (h @ es1) @ es2)"
    using io_then_split [OF ab assms(3,4)] by auto
  obtain d1 where d1: "disk_run io h es1 d d1" "disk_run io (h @ es1) es2 d1 d'"
    using run unfolding es(1) disk_run_append by blast
  show "holds t (d' q)"
    using storesD [OF assms(1) es(2) d1(1)] keepsD [OF assms(2) es(3) d1(2)] by simp
qed

lemma stores_then_second:
  assumes "stores io b q t" and "extends a" and "extends b"
  shows "stores io (io_then a b) q t"
  unfolding stores_def
proof (intro allI impI)
  fix h es d d'
  assume ab: "io_then a b h = (None, h @ es)" and run: "disk_run io h es d d'"
  obtain es1 es2 where es: "es = es1 @ es2" "a h = (None, h @ es1)" "b (h @ es1) = (None, (h @ es1) @ es2)"
    using io_then_split [OF ab assms(2,3)] by auto
  obtain d1 where d1: "disk_run io h es1 d d1" "disk_run io (h @ es1) es2 d1 d'"
    using run unfolding es(1) disk_run_append by blast
  show "holds t (d' q)" by (rule storesD [OF assms(1) es(3) d1(2)])
qed

text \<open>A sequence stores a text if one operation does and every later one stores it again or keeps the file.\<close>

lemma stores_seq:
  assumes "\<exists>a \<in> set as. stores io a q t" and "\<forall>a \<in> set as. (stores io a q t \<or> keeps io a q) \<and> extends a"
  shows "stores io (io_seq as) q t"
  using assms
proof (induction as)
  case (Cons a as)
  have x: "extends a" "extends (io_seq as)" using Cons.prems(2) by (auto intro: extends_seq)
  show ?case
  proof (cases "\<exists>b \<in> set as. stores io b q t")
    case True
    then have "stores io (io_seq as) q t" using Cons by simp
    then show ?thesis using stores_then_second x by simp
  next
    case False
    then have "stores io a q t" "keeps io (io_seq as) q"
      using Cons.prems by (auto intro: keeps_seq)
    then show ?thesis using stores_then_first x by simp
  qed
qed simp

lemma stores_when: "c \<Longrightarrow> stores io a q t \<Longrightarrow> stores io (io_when c a) q t"
  by (simp add: io_when_def)

lemma stores_wrap: "stores io a q t \<Longrightarrow> stores io (wrap_error what a) q t"
  by (auto simp: stores_def wrap_error_def split: prod.splits)

lemma stores_DumpFile: "stores io (DumpFile io f t) (io_config_path io @ f) (Inr t)"
  by (auto simp: stores_def holds_def DumpFile_def Let_def disk_run_append disk_run_Cons
      elim!: disk_stepE split: if_splits)

lemma stores_dump_text: "stores io (dump_text io f r) (io_config_path io @ f) r"
proof (cases r)
  case (Inl e)
  then show ?thesis by (simp add: stores_def dump_text_def DumpBfeConf_def)
next
  case (Inr t)
  then show ?thesis using stores_DumpFile [of io f t] by (simp add: stores_def dump_text_def DumpBfeConf_def)
qed

end
