(* ===== verification/Disk_Files.thy ===== *)
theory Disk_Files
  imports Disk_Spec
begin

text \<open>
  The files of the three configurations, each with the flag that says whether its version is
  confirmed: what a reload stores, and what it leaves alone. The locale \<open>tracked_config\<close> extends the
  contract of a reload by the promise that confirmed files are on disk.
\<close>

subsection \<open>The contract\<close>

type_synonym tracked = "(bool \<times> string \<times> (error + string)) list"

text \<open>A confirmed file has its text on disk.\<close>

definition on_disk :: "string \<Rightarrow> disk \<Rightarrow> tracked \<Rightarrow> bool" where
  "on_disk root d xs \<longleftrightarrow> (\<forall>f r. (True, f, r) \<in> set xs \<longrightarrow> holds r (d (root @ f)))"

definition confirm :: "tracked \<Rightarrow> tracked" where
  "confirm xs = map (\<lambda>(b, x). (True, x)) xs"

lemma set_confirm: "(b, x) \<in> set (confirm xs) \<longleftrightarrow> b \<and> (\<exists>b'. (b', x) \<in> set xs)"
  by (force simp: confirm_def)

lemma on_disk_append [simp]: "on_disk root d (xs @ ys) \<longleftrightarrow> on_disk root d xs \<and> on_disk root d ys"
  by (auto simp: on_disk_def)

lemma on_disk_cong:
  assumes "on_disk root d xs" and "\<And>f r. (True, f, r) \<in> set ys \<Longrightarrow> (True, f, r) \<in> set xs \<and> d' (root @ f) = d (root @ f)"
  shows "on_disk root d' ys"
  using assms unfolding on_disk_def by metis

text \<open>No confirmed file of the one is an unconfirmed file of the other.\<close>

definition apart :: "tracked \<Rightarrow> tracked \<Rightarrow> bool" where
  "apart xs ys \<longleftrightarrow> (\<forall>f r r'. (True, f, r) \<in> set xs \<longrightarrow> (False, f, r') \<notin> set ys)"

locale tracked_config = dumped_config pending view name dumps commit reload
  for pending :: "'s \<Rightarrow> bool" and view :: "'s \<Rightarrow> 'v" and name and dumps :: "'x \<Rightarrow> io_env \<Rightarrow> 's \<Rightarrow> io_op"
    and commit and reload +
  fixes files :: "'s \<Rightarrow> tracked" and wf :: "'s \<Rightarrow> bool"
  assumes files_keep: "wf s \<Longrightarrow> \<forall>r. (False, f, r) \<notin> set (files s) \<Longrightarrow>
      keeps io (dumps x io s) (io_config_path io @ f)"
    and files_store: "wf s \<Longrightarrow> (False, f, r) \<in> set (files s) \<Longrightarrow>
      stores io (dumps x io s) (io_config_path io @ f) r"
    and files_apart: "wf s \<Longrightarrow> (True, f, r) \<in> set (files s) \<Longrightarrow> (False, f, r') \<notin> set (files s)"
    and files_commit: "files (commit s) = confirm (files s)"
    and files_pending: "\<not> pending s \<Longrightarrow> (False, f, r) \<notin> set (files s)"
begin

lemma dumps_then_tell:
  assumes "reload x io s h = ((r, h @ es), s')"
  shows "\<exists>e. io_then (dumps x io s) (io_when (pending s) (ReloadBfe io name)) h = (e, h @ es) \<and>
    (r = None \<longleftrightarrow> e = None)"
  using assms by (auto simp: reload_shape reload_with_def split: prod.splits option.splits)

lemma reload_keeps:
  assumes "wf s" and "reload x io s h = ((r, h @ es), s')" and "disk_run io h es d d'"
    and "\<forall>r. (False, f, r) \<notin> set (files s)"
  shows "d' (io_config_path io @ f) = d (io_config_path io @ f)"
proof -
  have k: "keeps io (io_then (dumps x io s) (io_when (pending s) (ReloadBfe io name))) (io_config_path io @ f)"
    by (intro keeps_then files_keep [OF assms(1,4)] disk_rules dumps_extend io_extends)
  obtain e where "io_then (dumps x io s) (io_when (pending s) (ReloadBfe io name)) h = (e, h @ es)"
    using dumps_then_tell [OF assms(2)] by blast
  from keepsD [OF k this assms(3)] show ?thesis .
qed

lemma reload_stores:
  assumes "wf s" and "reload x io s h = ((None, h @ es), s')" and "disk_run io h es d d'"
    and "(False, f, r) \<in> set (files s)"
  shows "holds r (d' (io_config_path io @ f))"
proof -
  have k: "stores io (io_then (dumps x io s) (io_when (pending s) (ReloadBfe io name))) (io_config_path io @ f) r"
    by (intro stores_then_first files_store [OF assms(1,4)] disk_rules dumps_extend io_extends)
  have "io_then (dumps x io s) (io_when (pending s) (ReloadBfe io name)) h = (None, h @ es)"
    using dumps_then_tell [OF assms(2)] by auto
  from storesD [OF k this assms(3)] show ?thesis .
qed

lemma reload_spares:
  assumes "wf s" and "reload x io s h = ((r, h @ es), s')" and "disk_run io h es d d'"
    and "on_disk (io_config_path io) d ys" and "apart ys (files s)"
  shows "on_disk (io_config_path io) d' ys"
  by (rule on_disk_cong [OF assms(4)]) (use assms(5) reload_keeps [OF assms(1-3)] in \<open>auto simp: apart_def\<close>)

text \<open>A reload, whether it succeeds or not, keeps the confirmed files on disk.\<close>

lemma reload_on_disk:
  assumes "wf s" and "reload x io s h = ((r, h @ es), s')" and "disk_run io h es d d'"
    and "on_disk (io_config_path io) d (files s)"
  shows "on_disk (io_config_path io) d' (files s')"
proof (cases r)
  case (Some e)
  then have s': "s' = s" using shape_cases [OF assms(2)] by simp
  have "apart (files s) (files s)" using files_apart [OF assms(1)] by (simp add: apart_def)
  then show ?thesis unfolding s' by (rule reload_spares [OF assms])
next
  case None
  have "holds t (d' (io_config_path io @ f))" if "(b, f, t) \<in> set (files s)" for b f t
  proof (cases b)
    case True
    then have t: "(True, f, t) \<in> set (files s)" using that by simp
    then have "holds t (d (io_config_path io @ f))" using assms(4) by (simp add: on_disk_def)
    moreover have "d' (io_config_path io @ f) = d (io_config_path io @ f)"
      using reload_keeps [OF assms(1-3)] files_apart [OF assms(1) t] by blast
    ultimately show ?thesis by simp
  next
    case False
    then show ?thesis using reload_stores [OF assms(1) _ assms(3)] assms(2) that None by simp
  qed
  moreover have "set (files s') \<subseteq> set (confirm (files s))"
  proof (cases "pending s")
    case True
    then show ?thesis using shape_cases [OF assms(2)] None by (simp add: files_commit)
  next
    case False
    have "(b, y) \<in> set (confirm (files s))" if "(b, y) \<in> set (files s)" for b y
      using that files_pending [OF False] by (cases b; cases y) (auto simp: set_confirm)
    then show ?thesis using shape_cases [OF assms(2)] None False by auto
  qed
  ultimately show ?thesis unfolding on_disk_def using set_confirm by blast
qed

end

subsection \<open>Server data\<close>

definition sd_tracked :: "sd_marshal \<Rightarrow> 'm server_data \<Rightarrow> tracked" where
  "sd_tracked mj s =
     [(ht_version (hostTableConf s) = hostTableVersion s, HostRuleData, mj_host mj (hostTableConf s)),
      (rt_version (routeTableFile s) = routeTableVersion s, RouteRuleData, mj_route mj (routeTableFile s)),
      (bc_version (bfeClusterConf s) = bfeClusterConfVersion s, ClusterConfData, mj_cluster mj (bfeClusterConf s))]"

lemmas sd_names = HostRuleData_def RouteRuleData_def ClusterConfData_def

lemma sd_dumps_keep:
  "\<forall>r. (False, f, r) \<notin> set (sd_tracked mj s) \<Longrightarrow> keeps io (sd_dumps mj io s) (io_config_path io @ f)"
  unfolding sd_dumps_def DumpBfeConf_text
  by (intro keeps_seq) (auto simp: sd_tracked_def intro!: disk_rules io_extends extends_dump_text)

lemma sd_dumps_store:
  "(False, f, r) \<in> set (sd_tracked mj s) \<Longrightarrow> stores io (sd_dumps mj io s) (io_config_path io @ f) r"
  unfolding sd_dumps_def DumpBfeConf_text
  by (intro stores_seq)
    (auto simp: sd_tracked_def sd_names intro!: disk_rules io_extends extends_dump_text
      intro: stores_when stores_wrap stores_dump_text)

interpretation sdt: tracked_config sd_pending sd_view ConfigNameServerData
    "\<lambda>_::schedule. sd_dumps mj" sd_commit "\<lambda>_. sd_Reload mj" "sd_tracked mj" "\<lambda>_. True"
proof
  fix s :: "'m server_data" and f r r' io
  show "\<forall>r. (False, f, r) \<notin> set (sd_tracked mj s) \<Longrightarrow> keeps io (sd_dumps mj io s) (io_config_path io @ f)"
    by (rule sd_dumps_keep)
  show "(False, f, r) \<in> set (sd_tracked mj s) \<Longrightarrow> stores io (sd_dumps mj io s) (io_config_path io @ f) r"
    by (rule sd_dumps_store)
  show "(True, f, r) \<in> set (sd_tracked mj s) \<Longrightarrow> (False, f, r') \<notin> set (sd_tracked mj s)"
    by (auto simp: sd_tracked_def sd_names)
  show "sd_tracked mj (sd_commit s) = confirm (sd_tracked mj s)"
    by (simp add: sd_tracked_def sd_commit_def confirm_def)
  show "\<not> sd_pending s \<Longrightarrow> (False, f, r) \<notin> set (sd_tracked mj s)"
    by (auto simp: sd_tracked_def sd_pending_def)
qed

subsection \<open>Clusters\<close>

definition cl_tracked :: "cl_marshal \<Rightarrow> 'm cluster_state \<Rightarrow> tracked" where
  "cl_tracked mj c =
     [(gc_ts (gslbConf c) = gslbVersion c, GslbData, mj_gslb mj (gslbConf c)),
      (ct_version (clusterTableConf c) = clusterTableVersion c, ClusterTableData, mj_table mj (clusterTableConf c))]"

lemmas cl_names = GslbData_def ClusterTableData_def

lemma cl_dumps_keep:
  "\<forall>r. (False, f, r) \<notin> set (cl_tracked mj c) \<Longrightarrow> keeps io (cl_dumps mj io c) (io_config_path io @ f)"
  unfolding cl_dumps_def DumpBfeConf_text
  by (intro keeps_seq) (auto simp: cl_tracked_def intro!: disk_rules io_extends extends_dump_text)

lemma cl_dumps_store:
  "(False, f, r) \<in> set (cl_tracked mj c) \<Longrightarrow> stores io (cl_dumps mj io c) (io_config_path io @ f) r"
  unfolding cl_dumps_def DumpBfeConf_text
  by (intro stores_seq)
    (auto simp: cl_tracked_def cl_names intro!: disk_rules io_extends extends_dump_text
      intro: stores_when stores_wrap stores_dump_text)

interpretation clt: tracked_config cl_pending cl_view ConfigNameclusterConf
    "\<lambda>_::schedule. cl_dumps mj" cl_commit "\<lambda>_. cl_Reload mj" "cl_tracked mj" "\<lambda>_. True"
proof
  fix c :: "'m cluster_state" and f r r' io
  show "\<forall>r. (False, f, r) \<notin> set (cl_tracked mj c) \<Longrightarrow> keeps io (cl_dumps mj io c) (io_config_path io @ f)"
    by (rule cl_dumps_keep)
  show "(False, f, r) \<in> set (cl_tracked mj c) \<Longrightarrow> stores io (cl_dumps mj io c) (io_config_path io @ f) r"
    by (rule cl_dumps_store)
  show "(True, f, r) \<in> set (cl_tracked mj c) \<Longrightarrow> (False, f, r') \<notin> set (cl_tracked mj c)"
    by (auto simp: cl_tracked_def cl_names)
  show "cl_tracked mj (cl_commit c) = confirm (cl_tracked mj c)"
    by (simp add: cl_tracked_def cl_commit_def confirm_def)
  show "\<not> cl_pending c \<Longrightarrow> (False, f, r) \<notin> set (cl_tracked mj c)"
    by (auto simp: cl_tracked_def cl_pending_def)
qed

subsection \<open>Certificates\<close>

text \<open>The paths of certificates and keys.\<close>

lemmas tls_names = ServerCertData_def TLSRuleData_def getCertFilePath_def getKeyFilePath_def CertKeyFilePath_def

lemma cert_paths [simp]:
  "getCertFilePath n = getCertFilePath m \<longleftrightarrow> n = m" "getKeyFilePath n = getKeyFilePath m \<longleftrightarrow> n = m"
  by (simp_all add: tls_names)

lemma cert_not_key [simp]: "getCertFilePath n \<noteq> getKeyFilePath m" "getKeyFilePath m \<noteq> getCertFilePath n"
proof -
  have "last (getCertFilePath n) \<noteq> last (getKeyFilePath m)" by (simp add: tls_names)
  then show "getCertFilePath n \<noteq> getKeyFilePath m" "getKeyFilePath m \<noteq> getCertFilePath n" by metis+
qed

text \<open>Every entry of the certificate table names the files of its secret.\<close>

definition certs_named :: "'m tls_state \<Rightarrow> bool" where
  "certs_named c \<longleftrightarrow> (\<forall>n x. (n, x) \<in> set (cert_table c) \<longrightarrow> x = cert_files n)"

definition tls_tracked :: "tls_marshal \<Rightarrow> 'm tls_state \<Rightarrow> tracked" where
  "tls_tracked mj c =
     (bs_version (serverCertConf c) = serverCertVersion c, ServerCertData, mj_cert mj (serverCertConf c)) #
     map (Pair (bs_version (serverCertConf c) = serverCertVersion c)) (cert_files_of c) @
     [(tr_version (tlsRuleConf c) = tlsRuleVersion c, TLSRuleData, mj_rule mj (tlsRuleConf c))]"

abbreviation cert_pair :: "'m tls_state \<Rightarrow> string \<Rightarrow> cert_conf" where
  "cert_pair c n \<equiv> mget_or \<lparr>cert_pem = [], key_pem = []\<rparr> (certs c) n"

lemma in_cert_files:
  assumes "certs_named c"
  shows "(f, r) \<in> set (cert_files_of c) \<longleftrightarrow>
    (\<exists>n \<in> fst ` set (cert_table c). n \<noteq> DefaultCNName \<and>
       (f = getCertFilePath n \<and> r = Inr (cert_pem (cert_pair c n)) \<or>
        f = getKeyFilePath n \<and> r = Inr (key_pem (cert_pair c n))))"
proof -
  have x: "snd e = cert_files (fst e)" if "e \<in> set (cert_table c)" for e
    using assms that unfolding certs_named_def by (metis prod.collapse)
  have "(f, r) \<in> set (cert_files_of c) \<longleftrightarrow>
    (\<exists>e \<in> set (cert_table c). fst e \<noteq> DefaultCNName \<and>
       (f = sc_cert_file (snd e) \<and> r = Inr (cert_pem (cert_pair c (fst e))) \<or>
        f = sc_key_file (snd e) \<and> r = Inr (key_pem (cert_pair c (fst e)))))"
    by (simp add: cert_files_of_def Let_def case_prod_beta) blast
  then show ?thesis by (simp add: x cert_files_def cong: bex_cong)
qed

lemma cert_files_unique:
  assumes "certs_named c" and "(f, r) \<in> set (cert_files_of c)" and "(f, r') \<in> set (cert_files_of c)"
  shows "r = r'"
  using assms(2,3) unfolding in_cert_files [OF assms(1)] by auto

text \<open>The entry of a secret writes its two files, and no others.\<close>

lemma dump_cert_keeps:
  assumes "n = DefaultCNName \<or> f \<noteq> getCertFilePath n \<and> f \<noteq> getKeyFilePath n"
  shows "keeps io (dump_cert io c (n, cert_files n)) (io_config_path io @ f)"
  using assms by (auto simp: dump_cert_def Let_def cert_files_def intro!: disk_rules io_extends)

lemma dump_cert_stores:
  assumes "n \<noteq> DefaultCNName"
  shows "stores io (dump_cert io c (n, cert_files n)) (io_config_path io @ getCertFilePath n) (Inr (cert_pem (cert_pair c n)))"
    and "stores io (dump_cert io c (n, cert_files n)) (io_config_path io @ getKeyFilePath n) (Inr (key_pem (cert_pair c n)))"
proof -
  have e: "dump_cert io c (n, cert_files n) =
      io_then (DumpFile io (getCertFilePath n) (cert_pem (cert_pair c n)))
        (DumpFile io (getKeyFilePath n) (key_pem (cert_pair c n)))"
    using assms by (simp add: dump_cert_def cert_files_def Let_def)
  show "stores io (dump_cert io c (n, cert_files n)) (io_config_path io @ getCertFilePath n) (Inr (cert_pem (cert_pair c n)))"
    unfolding e by (rule stores_then_first [OF stores_DumpFile keeps_DumpFile]) (simp_all add: io_extends)
  show "stores io (dump_cert io c (n, cert_files n)) (io_config_path io @ getKeyFilePath n) (Inr (key_pem (cert_pair c n)))"
    unfolding e by (rule stores_then_second [OF stores_DumpFile]) (simp_all add: io_extends)
qed

lemma dump_certs_keep:
  assumes "certs_named c" and "\<forall>r. (f, r) \<notin> set (cert_files_of c)"
  shows "keeps io (io_seq (map (dump_cert io c) (shuffle sch (cert_table c)))) (io_config_path io @ f)"
proof (rule keeps_seq)
  fix a assume "a \<in> set (map (dump_cert io c) (shuffle sch (cert_table c)))"
  then obtain n where n: "n \<in> fst ` set (cert_table c)" "a = dump_cert io c (n, cert_files n)"
    using assms(1) unfolding certs_named_def by force
  then have "n = DefaultCNName \<or> f \<noteq> getCertFilePath n \<and> f \<noteq> getKeyFilePath n"
    using assms(2) unfolding in_cert_files [OF assms(1)] by blast
  then show "keeps io a (io_config_path io @ f) \<and> extends a"
    unfolding n(2) using dump_cert_keeps extends_dump_cert by blast
qed

lemma dump_certs_store:
  assumes "certs_named c" and "(f, r) \<in> set (cert_files_of c)"
  shows "stores io (io_seq (map (dump_cert io c) (shuffle sch (cert_table c)))) (io_config_path io @ f) r"
proof (rule stores_seq)
  obtain n where n: "n \<in> fst ` set (cert_table c)" "n \<noteq> DefaultCNName"
    "f = getCertFilePath n \<and> r = Inr (cert_pem (cert_pair c n)) \<or>
     f = getKeyFilePath n \<and> r = Inr (key_pem (cert_pair c n))"
    using assms(2) unfolding in_cert_files [OF assms(1)] by blast
  have s: "stores io (dump_cert io c (n, cert_files n)) (io_config_path io @ f) r"
    using n(3) dump_cert_stores [OF n(2)] by auto
  have "(n, cert_files n) \<in> set (shuffle sch (cert_table c))"
    using n(1) assms(1) unfolding certs_named_def by force
  then show "\<exists>a \<in> set (map (dump_cert io c) (shuffle sch (cert_table c))). stores io a (io_config_path io @ f) r"
    using s by force
  show "\<forall>a \<in> set (map (dump_cert io c) (shuffle sch (cert_table c))).
      (stores io a (io_config_path io @ f) r \<or> keeps io a (io_config_path io @ f)) \<and> extends a"
  proof
    fix a assume "a \<in> set (map (dump_cert io c) (shuffle sch (cert_table c)))"
    then obtain m where m: "a = dump_cert io c (m, cert_files m)"
      using assms(1) unfolding certs_named_def by force
    show "(stores io a (io_config_path io @ f) r \<or> keeps io a (io_config_path io @ f)) \<and> extends a"
    proof (cases "m = n")
      case True
      then show ?thesis using s m extends_dump_cert by blast
    next
      case False
      then have "f \<noteq> getCertFilePath m \<and> f \<noteq> getKeyFilePath m" using n(3) by auto
      then show ?thesis using m dump_cert_keeps extends_dump_cert by blast
    qed
  qed
qed

lemma config_not_cert:
  "getCertFilePath n \<noteq> ServerCertData" "getKeyFilePath n \<noteq> ServerCertData"
  "getCertFilePath n \<noteq> TLSRuleData" "getKeyFilePath n \<noteq> TLSRuleData" "ServerCertData \<noteq> TLSRuleData"
  by (simp_all add: tls_names)

lemma not_cert_file:
  assumes "certs_named c"
  shows "(ServerCertData, r) \<notin> set (cert_files_of c)" "(TLSRuleData, r) \<notin> set (cert_files_of c)"
  using config_not_cert unfolding in_cert_files [OF assms] by metis+

lemma in_tls_tracked:
  "(b, f, r) \<in> set (tls_tracked mj c) \<longleftrightarrow>
     b = (bs_version (serverCertConf c) = serverCertVersion c) \<and>
       (f = ServerCertData \<and> r = mj_cert mj (serverCertConf c) \<or> (f, r) \<in> set (cert_files_of c)) \<or>
     b = (tr_version (tlsRuleConf c) = tlsRuleVersion c) \<and> f = TLSRuleData \<and> r = mj_rule mj (tlsRuleConf c)"
  by (auto simp: tls_tracked_def)

lemma tls_dumps_keep:
  assumes "certs_named c" and "\<forall>r. (False, f, r) \<notin> set (tls_tracked mj c)"
  shows "keeps io (tls_dumps mj sch io c) (io_config_path io @ f)"
proof -
  have certs: "bs_version (serverCertConf c) \<noteq> serverCertVersion c \<Longrightarrow>
      keeps io (io_seq (map (dump_cert io c) (shuffle sch (cert_table c)))) (io_config_path io @ f)"
    by (rule dump_certs_keep [OF assms(1)]) (use assms(2) in \<open>simp add: in_tls_tracked\<close>)
  show ?thesis
    unfolding tls_dumps_def DumpBfeConf_text using assms(2)
    by (intro keeps_seq)
      (auto simp: in_tls_tracked intro!: disk_rules certs io_extends extends_dump_text extends_dump_certs)
qed

lemma tls_dumps_store:
  assumes "certs_named c" and "(False, f, r) \<in> set (tls_tracked mj c)"
  shows "stores io (tls_dumps mj sch io c) (io_config_path io @ f) r"
proof -
  let ?certs = "io_seq (map (dump_cert io c) (shuffle sch (cert_table c)))"
  let ?table = "wrap_error ''dump server_cert_conf: '' (dump_text io ServerCertData (mj_cert mj (serverCertConf c)))"
  let ?rule = "wrap_error ''dump tls_rule_conf: '' (dump_text io TLSRuleData (mj_rule mj (tlsRuleConf c)))"
  let ?first = "io_when (bs_version (serverCertConf c) \<noteq> serverCertVersion c) (io_then ?table ?certs)"
  let ?second = "io_when (tr_version (tlsRuleConf c) \<noteq> tlsRuleVersion c) ?rule"
  have x: "extends ?certs" "extends ?table" "extends ?rule" "extends ?first" "extends ?second"
    by (intro io_extends extends_dump_text extends_dump_certs)+
  have d: "tls_dumps mj sch io c = io_then ?first (io_then ?second io_skip)"
    by (simp add: tls_dumps_def DumpBfeConf_text)
  have x2: "extends (io_then ?second io_skip)" by (intro io_extends x)
  from assms(2) consider (cert) "bs_version (serverCertConf c) \<noteq> serverCertVersion c" "f = ServerCertData" "r = mj_cert mj (serverCertConf c)"
    | (files) "bs_version (serverCertConf c) \<noteq> serverCertVersion c" "(f, r) \<in> set (cert_files_of c)"
    | (rule) "tr_version (tlsRuleConf c) \<noteq> tlsRuleVersion c" "f = TLSRuleData" "r = mj_rule mj (tlsRuleConf c)"
    unfolding in_tls_tracked by blast
  then show ?thesis
  proof cases
    case cert
    have "keeps io ?certs (io_config_path io @ f)"
      by (rule dump_certs_keep [OF assms(1)]) (simp add: cert(2) not_cert_file [OF assms(1)])
    then have "stores io ?first (io_config_path io @ f) r"
      using cert x by (intro stores_when stores_then_first stores_wrap) (simp_all add: stores_dump_text)
    moreover have "keeps io (io_then ?second io_skip) (io_config_path io @ f)"
      by (intro disk_rules x io_extends) (simp add: cert(2) config_not_cert)
    ultimately show ?thesis unfolding d using x(4) x2 by (rule stores_then_first)
  next
    case files
    have "stores io ?first (io_config_path io @ f) r"
      using files(1) x by (intro stores_when stores_then_second dump_certs_store [OF assms(1) files(2)])
    moreover have "keeps io (io_then ?second io_skip) (io_config_path io @ f)"
      by (intro disk_rules x io_extends) (use files(2) not_cert_file [OF assms(1)] in auto)
    ultimately show ?thesis unfolding d using x(4) x2 by (rule stores_then_first)
  next
    case rule
    have "stores io (io_then ?second io_skip) (io_config_path io @ f) r"
      using rule x by (intro stores_then_first stores_when stores_wrap disk_rules io_extends)
        (simp_all add: stores_dump_text extends_dump_text)
    then show ?thesis unfolding d using x(4) x2 by (rule stores_then_second)
  qed
qed

lemma tls_tracked_commit: "tls_tracked mj (tls_commit c) = confirm (tls_tracked mj c)"
  by (simp add: tls_tracked_def tls_commit_def confirm_def cert_files_of_def comp_def)

interpretation tlt: tracked_config tls_pending tls_view ConfigNameTLSConf
    "tls_dumps mj" tls_commit "tls_Reload mj" "tls_tracked mj" certs_named
proof
  fix c :: "'m tls_state" and f r r' io sch
  show "certs_named c \<Longrightarrow> \<forall>r. (False, f, r) \<notin> set (tls_tracked mj c) \<Longrightarrow>
      keeps io (tls_dumps mj sch io c) (io_config_path io @ f)"
    by (rule tls_dumps_keep)
  show "certs_named c \<Longrightarrow> (False, f, r) \<in> set (tls_tracked mj c) \<Longrightarrow>
      stores io (tls_dumps mj sch io c) (io_config_path io @ f) r"
    by (rule tls_dumps_store)
  show "certs_named c \<Longrightarrow> (True, f, r) \<in> set (tls_tracked mj c) \<Longrightarrow> (False, f, r') \<notin> set (tls_tracked mj c)"
    using not_cert_file config_not_cert unfolding in_tls_tracked by metis
  show "tls_tracked mj (tls_commit c) = confirm (tls_tracked mj c)" by (rule tls_tracked_commit)
  show "\<not> tls_pending c \<Longrightarrow> (False, f, r) \<notin> set (tls_tracked mj c)"
    by (auto simp: in_tls_tracked tls_pending_def)
qed

end
