(* ===== verification/Disk_Runs.thy ===== *)
theory Disk_Runs
  imports Disk_Files
begin

text \<open>
  Runs of the builder together with the trace and the disk: every handler and every reload, in an
  arbitrary order. As long as no clock reading repeats a confirmed version, a file whose version
  is confirmed holds the text of the current configuration.
\<close>

subsection \<open>Names of the files\<close>

lemma names_apart:
  "apart (sd_tracked mj s) (cl_tracked mj' k)" "apart (cl_tracked mj' k) (sd_tracked mj s)"
  "certs_named t \<Longrightarrow> apart (sd_tracked mj s) (tls_tracked mj'' t)"
  "certs_named t \<Longrightarrow> apart (tls_tracked mj'' t) (sd_tracked mj s)"
  "certs_named t \<Longrightarrow> apart (cl_tracked mj' k) (tls_tracked mj'' t)"
  "certs_named t \<Longrightarrow> apart (tls_tracked mj'' t) (cl_tracked mj' k)"
  by (auto simp: apart_def sd_tracked_def cl_tracked_def sd_names cl_names in_tls_tracked in_cert_files tls_names)

definition cb_tracked :: "cb_marshal \<Rightarrow> ('m, 'n) builder \<Rightarrow> tracked" where
  "cb_tracked mj c = sd_tracked (mj_sd mj) (serverDataConf c) @ cl_tracked (mj_cl mj) (clusterConf c) @
     tls_tracked (mj_tls mj) (tlsConf c)"

subsection \<open>Certificates keep their names\<close>

lemma certs_named_new: "certs_named (NewTLSConfig E v)"
  by (simp add: certs_named_def NewTLSConfig_def newServerCertConf_def)

lemma certs_named_table: "cert_table t' = cert_table t \<Longrightarrow> certs_named t' = certs_named t"
  by (simp add: certs_named_def)

lemma certs_named_mput: "certs_named t \<Longrightarrow> cert_table t' = mput n (cert_files n) (cert_table t) \<Longrightarrow> certs_named t'"
proof -
  assume n: "certs_named t" "cert_table t' = mput n (cert_files n) (cert_table t)"
  have "e \<in> set (mput n x m) \<Longrightarrow> e = (n, x) \<or> e \<in> set m" for e x and m :: "(string, server_cert_conf) gomap"
    by (induction m) (auto split: if_splits)
  then show ?thesis using n(1) unfolding certs_named_def n(2) by blast
qed

lemma certs_named_mdel: "certs_named t \<Longrightarrow> cert_table t' = mdel n (cert_table t) \<Longrightarrow> certs_named t'"
  by (auto simp: certs_named_def AList.delete_eq)

lemma update_secret_named: "tls_UpdateSecret E now sec t = (err, t') \<Longrightarrow> certs_named t \<Longrightarrow> certs_named t'"
  by (auto simp: tls_UpdateSecret_def Let_def tls_simps intro: certs_named_mput split: if_splits option.splits)

lemma update_secrets_named: "update_secrets E now secs t = (err, t') \<Longrightarrow> certs_named t \<Longrightarrow> certs_named t'"
proof (induction secs arbitrary: t)
  case (Cons sec secs)
  obtain e t1 where 1: "tls_UpdateSecret E now sec t = (e, t1)" by (metis surj_pair)
  show ?case using Cons.prems 1 Cons.IH [of t1] update_secret_named [OF 1 Cons.prems(2)] by (cases e) auto
qed simp

lemma tls_update_named:
  assumes "tls_UpdateIngress E now ing secs t = (err, t')" and "certs_named t"
  shows "certs_named t'"
proof -
  obtain m where m: "update_secrets E now secs (t\<lparr>ingress2secret := m\<rparr>) = (err, t')"
    using assms(1) by (simp add: tls_UpdateIngress_def Let_def)
  show ?thesis by (rule update_secrets_named [OF m]) (use assms(2) in \<open>simp add: certs_named_def\<close>)
qed

text \<open>The files a deletion of certificates removes.\<close>

definition cert_removals :: "io_env \<Rightarrow> effect list \<Rightarrow> bool" where
  "cert_removals io es \<longleftrightarrow> (\<forall>e \<in> set es. \<exists>n.
     e = Remove_File (io_config_path io @ getKeyFilePath n) \<or> e = Remove_File (io_config_path io @ getCertFilePath n))"

lemma deleteCert_named:
  assumes "deleteCert io n t = (es, t')" and "certs_named t"
  shows "certs_named t' \<and> cert_removals io es"
proof -
  have "cert_table t' = mdel n (cert_table t)" using assms(1) by (auto simp: deleteCert_def Let_def tls_simps set_cert_table_def)
  moreover have "x = cert_files n" if "mget (cert_table t) n = Some x" for x
    using assms(2) mget_in_set [OF that] by (simp add: certs_named_def)
  ultimately show ?thesis
    using assms certs_named_mdel
    by (auto simp: deleteCert_def Let_def cert_removals_def DeleteFile_def cert_files_def split: option.splits)
qed

lemma delete_unused_named:
  "delete_unused io used names t = (es, upd, t') \<Longrightarrow> certs_named t \<Longrightarrow> certs_named t' \<and> cert_removals io es"
proof (induction names arbitrary: t es upd t')
  case (Cons n names)
  show ?case
  proof (cases "n \<in> set used")
    case False
    obtain es1 t1 where d: "deleteCert io n t = (es1, t1)" by (metis surj_pair)
    obtain es2 u2 t2 where r: "delete_unused io used names t1 = (es2, u2, t2)" by (metis prod.exhaust)
    show ?thesis
      using Cons.prems False d r deleteCert_named [OF d Cons.prems(2)] Cons.IH [OF r]
      by (auto simp: cert_removals_def)
  qed (use Cons in simp)
qed (simp add: cert_removals_def)

lemma tls_delete_named:
  assumes "tls_DeleteIngress E io sch now ns n t = (es, t')" and "certs_named t"
  shows "certs_named t' \<and> cert_removals io es"
proof (cases "mm_contains_key (tls_strs E) (ingress2secret t) (NamespacedName ns n)")
  case True
  let ?t1 = "t\<lparr>ingress2secret := mm_remove_all (tls_strs E) (ingress2secret t) (NamespacedName ns n)\<rparr>"
  obtain es2 upd t2 where d: "delete_unused io (mm_values (tls_strs E) (ingress2secret ?t1))
      (shuffle sch (map fst (certs ?t1))) ?t1 = (es2, upd, t2)" by (metis prod.exhaust)
  have t1: "certs_named ?t1" using assms(2) by (simp add: certs_named_def)
  show ?thesis
    using assms(1) True d delete_unused_named [OF d t1]
    by (cases upd) (auto simp: tls_DeleteIngress_def Let_def certs_named_def tls_simps)
qed (use assms in \<open>simp add: tls_DeleteIngress_def cert_removals_def\<close>)

lemma tls_delete_secret_named:
  assumes "tls_DeleteSecret E io now ns n t = (es, t')" and "certs_named t"
  shows "certs_named t' \<and> cert_removals io es"
proof (cases "mm_contains_value (tls_strs E) (ingress2secret t) (NamespacedName ns n)")
  case True
  obtain es1 t1 where d: "deleteCert io (NamespacedName ns n) t = (es1, t1)" by (metis surj_pair)
  show ?thesis using assms True d deleteCert_named [OF d assms(2)]
    by (auto simp: tls_DeleteSecret_def certs_named_def tls_simps)
qed (use assms in \<open>simp add: tls_DeleteSecret_def cert_removals_def\<close>)

subsection \<open>Handlers\<close>

text \<open>The versions BFE has confirmed.\<close>

definition confirmed_versions :: "('m, 'n) builder \<Rightarrow> string set" where
  "confirmed_versions c =
     {routeTableVersion (serverDataConf c), bfeClusterConfVersion (serverDataConf c),
      gslbVersion (clusterConf c), clusterTableVersion (clusterConf c),
      serverCertVersion (tlsConf c), tlsRuleVersion (tlsConf c)}"

definition fresh :: "cb_choice \<Rightarrow> ('m, 'n) builder \<Rightarrow> bool" where
  "fresh ch c \<longleftrightarrow> readings ch \<inter> confirmed_versions c = {}"

lemma refreshed_versions: "cb_refreshed T es c c' \<Longrightarrow> confirmed_versions c' = confirmed_versions c"
  by (simp add: cb_refreshed_def sd_refreshed_def cl_refreshed_def tls_refreshed_def cl_versions_def tls_versions_def
      confirmed_versions_def)

lemma fresh_cong: "confirmed_versions c' = confirmed_versions c \<Longrightarrow> fresh ch c' = fresh ch c"
  by (simp add: fresh_def)

text \<open>A confirmed file of the new configuration is a confirmed file of the old one.\<close>

lemma refreshed_confirmed:
  assumes "cb_refreshed T es c c'" and "T \<inter> confirmed_versions c = {}" and "(True, f, r) \<in> set (cb_tracked mj c')"
  shows "(True, f, r) \<in> set (cb_tracked mj c)"
proof -
  have sd: "sd_refreshed T (serverDataConf c) (serverDataConf c')"
    and cl: "cl_refreshed T (clusterConf c) (clusterConf c')"
    and tls: "tls_refreshed T es (tlsConf c) (tlsConf c')"
    using assms(1) by (simp_all add: cb_refreshed_def)
  have new: "v \<notin> confirmed_versions c" if "v \<in> T" for v using assms(2) that by blast
  from assms(3) consider "(True, f, r) \<in> set (sd_tracked (mj_sd mj) (serverDataConf c'))"
    | "(True, f, r) \<in> set (cl_tracked (mj_cl mj) (clusterConf c'))"
    | "(True, f, r) \<in> set (tls_tracked (mj_tls mj) (tlsConf c'))"
    by (auto simp: cb_tracked_def)
  then show ?thesis
  proof cases
    case 1
    then have "(True, f, r) \<in> set (sd_tracked (mj_sd mj) (serverDataConf c))"
      using sd new by (auto simp: sd_tracked_def sd_refreshed_def confirmed_versions_def)
    then show ?thesis by (simp add: cb_tracked_def)
  next
    case 2
    then have "(True, f, r) \<in> set (cl_tracked (mj_cl mj) (clusterConf c))"
      using cl new by (auto simp: cl_tracked_def cl_refreshed_def cl_versions_def confirmed_versions_def)
    then show ?thesis by (simp add: cb_tracked_def)
  next
    case 3
    then have "(True, f, r) \<in> set (tls_tracked (mj_tls mj) (tlsConf c))"
      using tls new
      by (auto simp: in_tls_tracked tls_refreshed_def tls_versions_def confirmed_versions_def cert_files_of_def)
    then show ?thesis by (simp add: cb_tracked_def)
  qed
qed

lemma silent_on_disk:
  assumes "cb_refreshed (readings ch) es c c'" and "fresh ch c" and "on_disk root d (cb_tracked mj c)"
  shows "on_disk root d (cb_tracked mj c')"
  by (rule on_disk_cong [OF assms(3)]) (use refreshed_confirmed [OF assms(1)] assms(2) in \<open>simp add: fresh_def\<close>)

lemma handler_on_disk:
  assumes "cb_refreshed (readings ch) es c c'" and "fresh ch c" and "cert_removals io es"
    and "certs_named (tlsConf c)" and "disk_run io h es d d'" and "on_disk (io_config_path io) d (cb_tracked mj c)"
  shows "on_disk (io_config_path io) d' (cb_tracked mj c')"
proof (rule on_disk_cong [OF assms(6)])
  fix f r assume new: "(True, f, r) \<in> set (cb_tracked mj c')"
  have T: "readings ch \<inter> confirmed_versions c = {}" using assms(2) by (simp add: fresh_def)
  have old: "(True, f, r) \<in> set (cb_tracked mj c)" by (rule refreshed_confirmed [OF assms(1) T new])
  have "d' (io_config_path io @ f) = d (io_config_path io @ f)"
  proof (cases "es = []")
    case False
    then have "bs_version (serverCertConf (tlsConf c')) \<in> readings ch" "tr_version (tlsRuleConf (tlsConf c')) \<in> readings ch"
      and v: "tls_versions (tlsConf c') = tls_versions (tlsConf c)"
      using assms(1) by (auto simp: cb_refreshed_def tls_refreshed_def)
    then have "(True, f, r) \<notin> set (tls_tracked (mj_tls mj) (tlsConf c'))"
      using T v by (auto simp: in_tls_tracked tls_versions_def confirmed_versions_def)
    then have "(True, f, r) \<in> set (sd_tracked (mj_sd mj) (serverDataConf c')) \<or>
        (True, f, r) \<in> set (cl_tracked (mj_cl mj) (clusterConf c'))"
      using new by (simp add: cb_tracked_def)
    then have "f \<noteq> getKeyFilePath n \<and> f \<noteq> getCertFilePath n" for n
      by (auto simp: sd_tracked_def cl_tracked_def sd_names cl_names tls_names)
    then have "\<forall>e \<in> set es. \<not> touches e (io_config_path io @ f)"
      using assms(3) by (fastforce simp: cert_removals_def)
    then show ?thesis by (rule disk_run_untouched [OF assms(5)])
  qed (use assms(5) in simp)
  then show "(True, f, r) \<in> set (cb_tracked mj c) \<and> d' (io_config_path io @ f) = d (io_config_path io @ f)"
    using old by simp
qed

subsection \<open>Reloads\<close>

lemma builder_reload_on_disk:
  assumes "cb_reload mj sch io c h = ((r, h @ es), c')" and "disk_run io h es d d'"
    and "certs_named (tlsConf c)" and "on_disk (io_config_path io) d (cb_tracked mj c)"
  shows "on_disk (io_config_path io) d' (cb_tracked mj c')"
proof -
  note N = names_apart
  have old: "on_disk (io_config_path io) d (sd_tracked (mj_sd mj) (serverDataConf c))"
    "on_disk (io_config_path io) d (cl_tracked (mj_cl mj) (clusterConf c))"
    "on_disk (io_config_path io) d (tls_tracked (mj_tls mj) (tlsConf c))"
    using assms(4) by (simp_all add: cb_tracked_def)
  show ?thesis
    using assms(1)
  proof (cases rule: cb_reload_parts)
    case (sd e s1)
    note keep = sdt.reload_on_disk [OF TrueI sd(2) assms(2) old(1)] sdt.reload_spares [OF TrueI sd(2) assms(2)]
    show ?thesis using keep(1) keep(2) [OF old(2)] keep(2) [OF old(3)] by (simp add: cb_tracked_def sd(3) N assms(3))
  next
    case (cl e s1 h1 k1)
    obtain es1 where h1: "h1 = h @ es1" using sdr.reload_extends [OF cl(2)] by blast
    obtain es2 where es2: "h @ es = h1 @ es2" using clr.reload_extends [OF cl(3)] by blast
    obtain d1 where d1: "disk_run io h es1 d d1" "disk_run io h1 es2 d1 d'"
      using assms(2) es2 by (auto simp: h1 disk_run_append)
    note a = cl(2) [unfolded h1] and b = cl(3) [unfolded es2]
    note keep = sdt.reload_on_disk [OF TrueI a d1(1) old(1)] sdt.reload_spares [OF TrueI a d1(1)]
    have 1: "on_disk (io_config_path io) d1 (cl_tracked (mj_cl mj) (clusterConf c))"
      "on_disk (io_config_path io) d1 (tls_tracked (mj_tls mj) (tlsConf c))"
      using keep(2) [OF old(2)] keep(2) [OF old(3)] by (simp_all add: N assms(3))
    note keep2 = clt.reload_on_disk [OF TrueI b d1(2) 1(1)] clt.reload_spares [OF TrueI b d1(2)]
    show ?thesis using keep2(1) keep2(2) [OF keep(1)] keep2(2) [OF 1(2)]
      by (simp add: cb_tracked_def cl(4) N assms(3))
  next
    case (tls s1 h1 k1 h2 t1)
    obtain es1 where h1: "h1 = h @ es1" using sdr.reload_extends [OF tls(1)] by blast
    obtain es2 where h2: "h2 = h1 @ es2" using clr.reload_extends [OF tls(2)] by blast
    obtain es3 where es3: "h @ es = h2 @ es3" using tlr.reload_extends [OF tls(3)] by blast
    obtain d1 d2 where d: "disk_run io h es1 d d1" "disk_run io h1 es2 d1 d2" "disk_run io h2 es3 d2 d'"
      using assms(2) es3 by (auto simp: h1 h2 disk_run_append)
    note a = tls(1) [unfolded h1] and b = tls(2) [unfolded h2] and c = tls(3) [unfolded es3]
    note keep = sdt.reload_on_disk [OF TrueI a d(1) old(1)] sdt.reload_spares [OF TrueI a d(1)]
    have 1: "on_disk (io_config_path io) d1 (cl_tracked (mj_cl mj) (clusterConf c))"
      "on_disk (io_config_path io) d1 (tls_tracked (mj_tls mj) (tlsConf c))"
      using keep(2) [OF old(2)] keep(2) [OF old(3)] by (simp_all add: N assms(3))
    note keep2 = clt.reload_on_disk [OF TrueI b d(2) 1(1)] clt.reload_spares [OF TrueI b d(2)]
    have 2: "on_disk (io_config_path io) d2 (sd_tracked (mj_sd mj) s1)"
      "on_disk (io_config_path io) d2 (tls_tracked (mj_tls mj) (tlsConf c))"
      using keep2(2) [OF keep(1)] keep2(2) [OF 1(2)] by (simp_all add: N assms(3))
    note keep3 = tlt.reload_on_disk [OF assms(3) c d(3) 2(2)] tlt.reload_spares [OF assms(3) c d(3)]
    show ?thesis using keep3(1) keep3(2) [OF 2(1)] keep3(2) [OF keep2(1)]
      by (simp add: cb_tracked_def tls(4) N assms(3))
  qed
qed

lemma reload_named: "cb_reload mj sch io c h = (out, c') \<Longrightarrow> certs_named (tlsConf c') = certs_named (tlsConf c)"
  using cbr.reload_view [of mj sch io c h out c'] by (simp add: cb_view_def tls_view_def certs_named_def)

lemma reachable_named: "reachable E c \<Longrightarrow> certs_named (tlsConf c)"
proof (induction rule: reachable.induct)
  case (step c c')
  from step.hyps(2) show ?case
  proof cases
    case (update_ingress ch ing svcs eps secs err)
    then show ?thesis
      using step.IH by (cases rule: cb_UpdateIngress_cases) (auto dest: tls_update_named)
  next
    case (delete_ingress io ch ns n es)
    then show ?thesis using step.IH tls_delete_named
      by (fastforce simp: cb_DeleteIngress_def Let_def split: prod.splits)
  next
    case (update_service ch svc ep)
    then show ?thesis using step.IH by (auto simp: cb_UpdateService_def)
  next
    case (update_secret ch sec err)
    then show ?thesis using step.IH by (auto simp: cb_UpdateSecret_def split: prod.splits dest: update_secret_named)
  next
    case (delete_secret io ch ns n es)
    then show ?thesis using step.IH tls_delete_secret_named
      by (fastforce simp: cb_DeleteSecret_def split: prod.splits)
  qed (use step.IH in \<open>auto simp: cb_DeleteService_def dest: reload_named\<close>)
qed (simp add: NewConfigBuilder_def certs_named_new)

text \<open>A reload without error has stored every file of the server data that was not confirmed.\<close>

lemma builder_reload_stores:
  assumes "cb_reload mj sch io c h = ((None, h @ es), c')" and "disk_run io h es d d'"
    and "certs_named (tlsConf c)" and "(False, f, r) \<in> set (sd_tracked (mj_sd mj) (serverDataConf c))"
  shows "holds r (d' (io_config_path io @ f))"
  using assms(1)
proof (cases rule: cb_reload_parts)
  case (tls s1 h1 k1 h2 t1)
  obtain es1 where h1: "h1 = h @ es1" using sdr.reload_extends [OF tls(1)] by blast
  obtain es2 where h2: "h2 = h1 @ es2" using clr.reload_extends [OF tls(2)] by blast
  obtain es3 where es3: "h @ es = h2 @ es3" using tlr.reload_extends [OF tls(3)] by blast
  obtain d1 d2 where d: "disk_run io h es1 d d1" "disk_run io h1 es2 d1 d2" "disk_run io h2 es3 d2 d'"
    using assms(2) es3 by (auto simp: h1 h2 disk_run_append)
  have f: "f \<in> {HostRuleData, RouteRuleData, ClusterConfData}" using assms(4) by (auto simp: sd_tracked_def)
  have cl: "\<forall>r. (False, f, r) \<notin> set (cl_tracked (mj_cl mj) (clusterConf c))"
    and tl: "\<forall>r. (False, f, r) \<notin> set (tls_tracked (mj_tls mj) (tlsConf c))"
    using f by (auto simp: cl_tracked_def sd_names cl_names in_tls_tracked in_cert_files [OF assms(3)] tls_names)
  have "holds r (d1 (io_config_path io @ f))"
    by (rule sdt.reload_stores [OF TrueI tls(1) [unfolded h1] d(1) assms(4)])
  moreover have "d2 (io_config_path io @ f) = d1 (io_config_path io @ f)"
    by (rule clt.reload_keeps [OF TrueI tls(2) [unfolded h2] d(2) cl])
  moreover have "d' (io_config_path io @ f) = d2 (io_config_path io @ f)"
    by (rule tlt.reload_keeps [OF assms(3) tls(3) [unfolded es3] d(3) tl])
  ultimately show ?thesis by simp
qed simp_all

subsection \<open>Runs\<close>

text \<open>
  Nothing is known of the trace and of the disk at the start. Every handler reads a clock that
  shows none of the confirmed versions.
\<close>

inductive disk_reachable ::
  "('m, 'n) cb_env \<Rightarrow> cb_marshal \<Rightarrow> string \<Rightarrow> ('m, 'n) builder \<Rightarrow> trace \<Rightarrow> disk \<Rightarrow> bool"
  for E mj root where
  begins: "disk_reachable E mj root (NewConfigBuilder E) h d"
| updates_ingress: "disk_reachable E mj root c h d \<Longrightarrow> fresh ch c \<Longrightarrow> kube_named ing \<Longrightarrow> kube_paths ing \<Longrightarrow>
    cb_UpdateIngress E ch ing svcs eps secs c = Some (err, c') \<Longrightarrow> disk_reachable E mj root c' h d"
| deletes_ingress: "disk_reachable E mj root c h d \<Longrightarrow> fresh ch c \<Longrightarrow> io_config_path io = root \<Longrightarrow>
    cb_DeleteIngress E io ch ns n c = (es, c') \<Longrightarrow> disk_run io h es d d' \<Longrightarrow> disk_reachable E mj root c' (h @ es) d'"
| updates_service: "disk_reachable E mj root c h d \<Longrightarrow> fresh ch c \<Longrightarrow>
    cb_UpdateService E ch svc ep c = Some c' \<Longrightarrow> disk_reachable E mj root c' h d"
| deletes_service: "disk_reachable E mj root c h d \<Longrightarrow> fresh ch c \<Longrightarrow>
    disk_reachable E mj root (cb_DeleteService E ch ns n c) h d"
| updates_secret: "disk_reachable E mj root c h d \<Longrightarrow> fresh ch c \<Longrightarrow>
    cb_UpdateSecret E ch sec c = (err, c') \<Longrightarrow> disk_reachable E mj root c' h d"
| deletes_secret: "disk_reachable E mj root c h d \<Longrightarrow> fresh ch c \<Longrightarrow> io_config_path io = root \<Longrightarrow>
    cb_DeleteSecret E io ch ns n c = (es, c') \<Longrightarrow> disk_run io h es d d' \<Longrightarrow> disk_reachable E mj root c' (h @ es) d'"
| ticks: "disk_reachable E mj root c h d \<Longrightarrow> io_config_path io = root \<Longrightarrow>
    cb_reload mj sch io c h = ((r, h @ es), c') \<Longrightarrow> disk_run io h es d d' \<Longrightarrow> disk_reachable E mj root c' (h @ es) d'"

lemma disk_reachable_reachable: "disk_reachable E mj root c h d \<Longrightarrow> reachable E c"
proof (induction rule: disk_reachable.induct)
  case begins
  show ?case by (rule reachable.start)
qed (blast intro: reachable.step cb_step.intros)+

lemma new_untracked: "(True, f, r) \<notin> set (cb_tracked mj (NewConfigBuilder E))"
  by (simp add: cb_tracked_def sd_tracked_def cl_tracked_def in_tls_tracked NewConfigBuilder_def
      NewServerDataConfig_def NewClusterConfig_def NewTLSConfig_def newHostTableConf_def newRouteTableConfFile_def
      newBfeClusterConf_def newServerCertConf_def newTlsRuleConf_def)

lemma disk_reachable_ok:
  assumes "multimap (cl_strs (cb_cl E)) R" and "disk_reachable E mj root c h d"
  shows "certs_named (tlsConf c) \<and> on_disk root d (cb_tracked mj c)"
  using assms(2)
proof (induction rule: disk_reachable.induct)
  case (begins h d)
  show ?case using new_untracked by (auto simp: on_disk_def NewConfigBuilder_def certs_named_new)
next
  case (updates_ingress c h d ch ing svcs eps secs err c')
  have "certs_named (tlsConf c')"
    using updates_ingress.hyps(5) updates_ingress.IH
    by (cases rule: cb_UpdateIngress_cases) (auto dest: tls_update_named)
  then show ?case
    using silent_on_disk [OF cb_update_refreshed [OF assms(1) updates_ingress.hyps(5,4)] updates_ingress.hyps(2)]
      updates_ingress.IH by simp
next
  case (deletes_ingress c h d ch io ns n es c' d')
  obtain t where t: "tls_DeleteIngress (cb_tls E) io (cc_sched ch) (cc_tls_now ch) ns n (tlsConf c) = (es, t)" "tlsConf c' = t"
    using deletes_ingress.hyps(4) by (auto simp: cb_DeleteIngress_def Let_def split: prod.splits)
  have k: "certs_named (tlsConf c') \<and> cert_removals io es"
    using tls_delete_named [OF t(1)] t(2) deletes_ingress.IH by simp
  then show ?case
    using handler_on_disk [OF cb_delete_refreshed [OF deletes_ingress.hyps(4)] deletes_ingress.hyps(2) _ _ deletes_ingress.hyps(5)]
      deletes_ingress.IH deletes_ingress.hyps(3) by simp
next
  case (updates_service c h d ch svc ep c')
  have "tlsConf c' = tlsConf c" using updates_service.hyps(3) by (auto simp: cb_UpdateService_def)
  then show ?case
    using silent_on_disk [OF cb_update_service_refreshed [OF updates_service.hyps(3)] updates_service.hyps(2)]
      updates_service.IH by simp
next
  case (deletes_service c h d ch ns n)
  have "tlsConf (cb_DeleteService E ch ns n c) = tlsConf c" by (simp add: cb_DeleteService_def)
  then show ?case
    using silent_on_disk [OF cb_delete_service_refreshed deletes_service.hyps(2)] deletes_service.IH by simp
next
  case (updates_secret c h d ch sec err c')
  have "certs_named (tlsConf c')"
    using updates_secret.hyps(3) updates_secret.IH
    by (auto simp: cb_UpdateSecret_def split: prod.splits dest: update_secret_named)
  then show ?case
    using silent_on_disk [OF cb_update_secret_refreshed [OF updates_secret.hyps(3)] updates_secret.hyps(2)]
      updates_secret.IH by simp
next
  case (deletes_secret c h d ch io ns n es c' d')
  obtain t where t: "tls_DeleteSecret (cb_tls E) io (cc_tls_now ch) ns n (tlsConf c) = (es, t)" "tlsConf c' = t"
    using deletes_secret.hyps(4) by (auto simp: cb_DeleteSecret_def split: prod.splits)
  have k: "certs_named (tlsConf c') \<and> cert_removals io es"
    using tls_delete_secret_named [OF t(1)] t(2) deletes_secret.IH by simp
  then show ?case
    using handler_on_disk [OF cb_delete_secret_refreshed [OF deletes_secret.hyps(4)] deletes_secret.hyps(2) _ _ deletes_secret.hyps(5)]
      deletes_secret.IH deletes_secret.hyps(3) by simp
next
  case (ticks c h d io sch r es c' d')
  show ?case
    using builder_reload_on_disk [OF ticks.hyps(3,4)] reload_named [OF ticks.hyps(3)] ticks.IH ticks.hyps(2) by simp
qed

end
