(* ===== verification/Ctl_Options.thy ===== *)
theory Ctl_Options
  imports Util_IO
begin

text \<open>
  \<^verbatim>\<open>internal/option\<close> and the flags of \<^verbatim>\<open>cmd/ingress-controller\<close>: the options, their defaults,
  their check and the variables the command line sets.
\<close>

subsection \<open>Options\<close>

record ingress_options =
  EnableIngress :: bool
  IngressClass :: string
  ControllerName :: string
  ReloadAddr :: string
  ReloadUrl :: string
  BfeBinary :: string
  ConfigPath :: string
  FilePerm :: int
  ReloadInterval :: int
  DefaultBackend :: string

record options =
  OptClusterName :: string
  Namespaces :: string
  NamespaceList :: "string list"
  MetricsAddr :: string
  HealthProbeAddr :: string
  Ingress :: ingress_options

definition NewIngressOptions :: ingress_options where
  "NewIngressOptions =
     \<lparr>EnableIngress = True, IngressClass = ''bfe'',
      ControllerName = ''bfe-networks.com/ingress-controller'',
      ReloadAddr = ''localhost:8421'', ReloadUrl = [], BfeBinary = ''/bfe/bin/bfe'',
      ConfigPath = ''/bfe/conf/'', FilePerm = 484, ReloadInterval = 3000000000,
      DefaultBackend = []\<rparr>"

definition NamespaceAll :: string where
  "NamespaceAll = []"

definition NewOptions :: options where
  "NewOptions =
     \<lparr>OptClusterName = ''default'', Namespaces = NamespaceAll, NamespaceList = [],
      MetricsAddr = '':9080'', HealthProbeAddr = '':9081'', Ingress = NewIngressOptions\<rparr>"

text \<open>
  \<^verbatim>\<open>Check\<close> updates the options in place; an error leaves them as they are. The file mode 0744 is
  484, and three seconds are counted in nanoseconds.
\<close>

definition Check :: "ingress_options \<Rightarrow> error option \<times> ingress_options" where
  "Check opts =
     (if \<not> EnableIngress opts then (None, opts)
      else if length (DefaultBackend opts) > 0 \<and>
              length (split_on (CHR ''/'') (DefaultBackend opts)) \<noteq> 2
      then (Some (Illegal_Default_Backend (DefaultBackend opts)), opts)
      else
        (let o1 = (if length (BfeBinary opts) > 0
                   then opts\<lparr>ConfigPath := path_dir (path_dir (BfeBinary opts)) @ ''/conf''\<rparr> else opts);
             o2 = (if \<not> has_suffix (ConfigPath o1) ''/''
                   then o1\<lparr>ConfigPath := ConfigPath o1 @ ''/''\<rparr> else o1)
         in (None, o2\<lparr>ReloadUrl := ''http://'' @ ReloadAddr o2 @ ''/reload/''\<rparr>)))"

text \<open>The new value of the global \<^verbatim>\<open>Opts\<close>, unless the check fails.\<close>

definition SetOptions :: "options \<Rightarrow> error + options" where
  "SetOptions opt =
     (case Check (Ingress opt) of
        (Some e, _) \<Rightarrow> Inl e
      | (None, ing) \<Rightarrow>
          Inr (opt\<lparr>Ingress := ing, NamespaceList := split_on (CHR '','') (Namespaces opt)\<rparr>))"

subsection \<open>Command line\<close>

record command_line =
  cmd_help :: bool
  cmd_version :: bool
  cmd_opts :: options

definition initial_command_line :: command_line where
  "initial_command_line = \<lparr>cmd_help = False, cmd_version = False, cmd_opts = NewOptions\<rparr>"

abbreviation set_ingress :: "(ingress_options \<Rightarrow> ingress_options) \<Rightarrow> options \<Rightarrow> options" where
  "set_ingress f opt \<equiv> opt\<lparr>Ingress := f (Ingress opt)\<rparr>"

text \<open>
  \<^verbatim>\<open>initFlags\<close> binds every flag to a variable; the package \<^verbatim>\<open>flag\<close> stores the values it reads.
\<close>

definition set_bool_flag :: "string \<Rightarrow> bool \<Rightarrow> command_line \<Rightarrow> command_line option" where
  "set_bool_flag name v c =
     (if name \<in> {''help'', ''h''} then Some (c\<lparr>cmd_help := v\<rparr>)
      else if name \<in> {''version'', ''v''} then Some (c\<lparr>cmd_version := v\<rparr>)
      else None)"

definition set_string_flag :: "string \<Rightarrow> string \<Rightarrow> command_line \<Rightarrow> command_line option" where
  "set_string_flag name v c =
     map_option (\<lambda>f. c\<lparr>cmd_opts := f (cmd_opts c)\<rparr>)
       (if name \<in> {''namespace'', ''n''} then Some (\<lambda>opt. opt\<lparr>Namespaces := v\<rparr>)
        else if name = ''metrics-bind-address'' then Some (\<lambda>opt. opt\<lparr>MetricsAddr := v\<rparr>)
        else if name = ''health-probe-bind-address'' then Some (\<lambda>opt. opt\<lparr>HealthProbeAddr := v\<rparr>)
        else if name = ''k8s-cluster-name'' then Some (\<lambda>opt. opt\<lparr>OptClusterName := v\<rparr>)
        else if name \<in> {''bfe-config-path'', ''c''} then Some (set_ingress (\<lambda>i. i\<lparr>ConfigPath := v\<rparr>))
        else if name \<in> {''bfe-binary'', ''b''} then Some (set_ingress (\<lambda>i. i\<lparr>BfeBinary := v\<rparr>))
        else if name = ''bfe-reload-address'' then Some (set_ingress (\<lambda>i. i\<lparr>ReloadAddr := v\<rparr>))
        else if name = ''ingress-class'' then Some (set_ingress (\<lambda>i. i\<lparr>IngressClass := v\<rparr>))
        else if name = ''default-backend'' then Some (set_ingress (\<lambda>i. i\<lparr>DefaultBackend := v\<rparr>))
        else None)"


end
