(* ===== verification/Event_Filter.thy ===== *)
theory Event_Filter
  imports Ctl_Options Kube_Types
begin

text \<open>
  \<^verbatim>\<open>internal/controllers/filter\<close> and \<^verbatim>\<open>internal/controllers/event\<close>: which objects the controller
  handles, and the reasons of the events it records.
\<close>

definition SyncSucceed :: string where
  "SyncSucceed = ''SyncSucceed''"

definition SyncFailed :: string where
  "SyncFailed = ''SyncFailed''"

text \<open>Does a class of this controller admit an ingress that names \<open>className\<close> (or no class)?\<close>

definition class_admits :: "options \<Rightarrow> string option \<Rightarrow> ingress_class \<Rightarrow> bool" where
  "class_admits opts className c \<longleftrightarrow>
     ic_controller c = ControllerName (Ingress opts) \<and>
     (case className of
        Some n \<Rightarrow> n = ic_name c
      | None \<Rightarrow> equal_fold (ann_get (ic_annots c) IsDefaultIngressClass) ''true'')"

text \<open>
  The two lists are what the API server answers for \<^verbatim>\<open>networking.k8s.io/v1\<close> and \<^verbatim>\<open>v1beta1\<close>.
\<close>

definition IngressClassFilter ::
  "options \<Rightarrow> error + ingress_class list \<Rightarrow> error + ingress_class list \<Rightarrow> annots \<Rightarrow> string option \<Rightarrow> bool" where
  "IngressClassFilter opts listV1 listV1Beta1 a className =
     (if ann_get a IngressClassKey = IngressClass (Ingress opts) then True
      else if (case listV1 of Inl _ \<Rightarrow> False | Inr cs \<Rightarrow> list_ex (class_admits opts className) cs) then True
      else (case listV1Beta1 of
              Inl _ \<Rightarrow> False
            | Inr cs \<Rightarrow> list_ex (class_admits opts className) cs))"

definition NamespaceFilter :: "options \<Rightarrow> string \<Rightarrow> bool" where
  "NamespaceFilter opts ns =
     (if length (NamespaceList opts) = 1 \<and> NamespaceList opts ! 0 = NamespaceAll then True
      else list_ex (\<lambda>n. n = ns) (NamespaceList opts))"

end
