(* ===== verification/Ingress_Controller.thy ===== *)
theory Ingress_Controller
  imports Config_Builder Event_Filter
begin

text \<open>
  \<^verbatim>\<open>internal/controllers/ingress/netv1/ingress_controller.go\<close>: reconciling one ingress. The
  objects are read from the API server, the configuration is updated, and the outcome is
  written back as an annotation and as an event.
\<close>

subsection \<open>The API server\<close>

text \<open>
  The answers one reconcile reads: the same object read twice in one call is the same (the
  client reads a cache).
\<close>

record kube =
  get_ingress :: "string \<Rightarrow> string \<Rightarrow> error + ingress"
  get_service :: "string \<Rightarrow> string \<Rightarrow> error + service"
  get_endpoints :: "string \<Rightarrow> string \<Rightarrow> error + endpoints"
  get_secret :: "string \<Rightarrow> string \<Rightarrow> error + secret"
  list_classes_v1 :: "error + ingress_class list"
  list_classes_v1beta1 :: "error + ingress_class list"

text \<open>What a reconcile sends: a patch (the ingress before and after) or an event.\<close>

datatype 'i kube_effect =
    Patch 'i 'i
  | Warning 'i string string
  | Normal 'i string string

subsection \<open>Reading the backends\<close>

definition getEndpoint :: "kube \<Rightarrow> string \<Rightarrow> string \<Rightarrow> error + endpoints" where
  "getEndpoint r namespace name =
     (case get_endpoints r namespace name of
        Inl e \<Rightarrow> Inl e
      | Inr ep \<Rightarrow>
          (case ep_subsets ep of
             [] \<Rightarrow> Inl (No_Endpoint namespace name)
           | s # _ \<Rightarrow> if length (es_ports s) = 0 then Inl (No_Endpoint namespace name) else Inr ep))"

definition port_selected :: "service_backend_port \<Rightarrow> service_port \<Rightarrow> bool" where
  "port_selected port p \<longleftrightarrow>
     (bp_number port > 0 \<and> sp_port p = bp_number port) \<or>
     (length (bp_name port) > 0 \<and> sp_name p = bp_name port)"

definition getService :: "kube \<Rightarrow> string \<Rightarrow> string \<Rightarrow> service_backend_port \<Rightarrow> error + service" where
  "getService r namespace name port =
     (case get_service r namespace name of
        Inl e \<Rightarrow> Inl e
      | Inr svc \<Rightarrow>
          if list_ex (port_selected port) (svc_ports svc) then Inr svc
          else Inl (Service_Port_Not_Found name (bp_number port) (bp_name port)))"

text \<open>\<open>None\<close>: the index 1 of a name without a slash is out of range.\<close>

definition getDefaultBackends :: "kube \<Rightarrow> string \<Rightarrow> (error + service \<times> endpoints) option" where
  "getDefaultBackends r name =
     (case split_on (CHR ''/'') name of
        n0 # n1 # _ \<Rightarrow>
          Some (case get_service r n0 n1 of
             Inl e \<Rightarrow> Inl e
           | Inr svc \<Rightarrow>
               if length (svc_ports svc) = 0 then Inl (Service_Not_Found n0 n1)
               else (case getEndpoint r n0 n1 of Inl e \<Rightarrow> Inl e | Inr ep \<Rightarrow> Inr (svc, ep)))
      | _ \<Rightarrow> None)"

type_synonym backends = "(string, service) gomap \<times> (string, endpoints) gomap"

text \<open>The body of the innermost loop: the service and the endpoints of one name.\<close>

definition read_backend ::
  "kube \<Rightarrow> string \<Rightarrow> service_backend_port \<Rightarrow> string \<Rightarrow> backends \<Rightarrow> (error option \<times> backends) option" where
  "read_backend r namespace port name b =
     Some (case getService r namespace name port of
        Inl e \<Rightarrow> (Some e, b)
      | Inr svc \<Rightarrow>
          (let b1 = (mput (NamespacedName namespace name) svc (fst b), snd b)
           in case getEndpoint r namespace name of
                Inl e \<Rightarrow> (Some e, b1)
              | Inr ep \<Rightarrow> (None, (fst b1, mput (NamespacedName namespace name) ep (snd b1)))))"

definition backend_names :: "schedule \<Rightarrow> Balance option \<Rightarrow> string \<Rightarrow> string list" where
  "backend_names sch balance name =
     (case bal_find balance name of
        Some v \<Rightarrow> shuffle sch (map fst v)
      | None \<Rightarrow> [name])"

definition read_path ::
  "kube \<Rightarrow> schedule \<Rightarrow> string \<Rightarrow> Balance option \<Rightarrow> http_ingress_path \<Rightarrow> backends \<Rightarrow>
     (error option \<times> backends) option" where
  "read_path r sch namespace balance p b =
     (case ib_service (hp_backend p) of
        None \<Rightarrow> None
      | Some s \<Rightarrow> each_go (read_backend r namespace (sb_port s)) (backend_names sch balance (sb_name s)) b)"

text \<open>The schedules of the loops over weights are given per rule and path, by their positions.\<close>

definition read_rule ::
  "kube \<Rightarrow> (nat \<Rightarrow> schedule) \<Rightarrow> string \<Rightarrow> Balance option \<Rightarrow> ingress_rule \<Rightarrow> backends \<Rightarrow>
     (error option \<times> backends) option" where
  "read_rule r sch namespace balance rule b =
     (case ir_http rule of
        None \<Rightarrow> None
      | Some paths \<Rightarrow> each_go (\<lambda>(j, p). read_path r (sch j) namespace balance p) (List.enumerate 0 paths) b)"

definition getIngressBackends ::
  "options \<Rightarrow> kube \<Rightarrow> order \<Rightarrow> (nat \<Rightarrow> nat \<Rightarrow> schedule) \<Rightarrow> ingress \<Rightarrow> (error + backends) option" where
  "getIngressBackends opts r w sch ing =
     (let db = DefaultBackend (Ingress opts)
      in case (if length db > 0 then map_option Some (getDefaultBackends r db) else Some None) of
           None \<Rightarrow> None
         | Some found \<Rightarrow>
             (let b0 = (case found of
                          Some (Inr (svc, ep)) \<Rightarrow> ([(db, svc)], [(db, ep)])
                        | _ \<Rightarrow> ([], []))
              in case GetBalance w (ing_annots ing) of
                   Inl e \<Rightarrow> Some (Inl e)
                 | Inr balance \<Rightarrow>
                     (case each_go (\<lambda>(i, rule). read_rule r (sch i) (ing_namespace ing) balance rule)
                             (List.enumerate 0 (ing_rules ing)) b0 of
                        None \<Rightarrow> None
                      | Some (Some e, _) \<Rightarrow> Some (Inl e)
                      | Some (None, b) \<Rightarrow> Some (Inr b))))"

text \<open>\<^verbatim>\<open>getIngressSecret\<close>, with \<^verbatim>\<open>getSecret\<close> for each entry.\<close>

definition getSecret :: "kube \<Rightarrow> string \<Rightarrow> string \<Rightarrow> error + secret" where
  "getSecret r namespace name = (case get_secret r namespace name of Inr s \<Rightarrow> Inr s | Inl e \<Rightarrow> Inl e)"

fun read_secrets :: "kube \<Rightarrow> string \<Rightarrow> ingress_tls list \<Rightarrow> error + secret list" where
  "read_secrets r namespace [] = Inr []"
| "read_secrets r namespace (t # ts) =
     (case getSecret r namespace (tls_secret t) of
        Inl e \<Rightarrow> Inl e
      | Inr s \<Rightarrow> (case read_secrets r namespace ts of Inl e \<Rightarrow> Inl e | Inr ss \<Rightarrow> Inr (s # ss)))"

definition getIngressSecret :: "kube \<Rightarrow> ingress \<Rightarrow> error + secret list" where
  "getIngressSecret r ing = read_secrets r (ing_namespace ing) (ing_tls ing)"

definition setDefautBackend :: "options \<Rightarrow> service option \<Rightarrow> ingress \<Rightarrow> ingress option" where
  "setDefautBackend opts svc ing =
     (let db = DefaultBackend (Ingress opts)
      in case svc of
           None \<Rightarrow> Some ing
         | Some s \<Rightarrow>
             (if length db = 0 then Some ing
              else case svc_ports s of
                     [] \<Rightarrow> Some ing
                   | p # _ \<Rightarrow>
                       (case split_on (CHR ''/'') db of
                          _ # n1 # _ \<Rightarrow>
                            Some (ing\<lparr>ing_default := Some \<lparr>ib_service = Some
                              \<lparr>sb_name = n1, sb_port = \<lparr>bp_name = sp_name p, bp_number = sp_port p\<rparr>\<rparr>\<rparr>\<rparr>)
                        | _ \<Rightarrow> None)))"

subsection \<open>Updating the configuration\<close>

text \<open>The choices of a reconcile: those of each call to the builder and of the reads.\<close>

record rec_choice =
  rc_update :: cb_choice
  rc_delete :: cb_choice
  rc_balance :: order
  rc_names :: "nat \<Rightarrow> nat \<Rightarrow> schedule"

text \<open>
  The result: the effects on files, the error, the builder and the ingress (whose default
  backend may have been set).
\<close>

definition fail_and_delete ::
  "('m, 'n) cb_env \<Rightarrow> io_env \<Rightarrow> rec_choice \<Rightarrow> ingress \<Rightarrow> ('m, 'n) builder \<Rightarrow> error \<Rightarrow>
     effect list \<times> error option \<times> ('m, 'n) builder \<times> ingress" where
  "fail_and_delete E io ch ing c e =
     (case cb_DeleteIngress E io (rc_delete ch) (ing_namespace ing) (ing_name ing) c of
        (es, c1) \<Rightarrow> (es, Some e, c1, ing))"

definition ReconcileV1Ingress ::
  "('m, 'n) cb_env \<Rightarrow> options \<Rightarrow> io_env \<Rightarrow> kube \<Rightarrow> rec_choice \<Rightarrow> ingress \<Rightarrow> ('m, 'n) builder \<Rightarrow>
     (effect list \<times> error option \<times> ('m, 'n) builder \<times> ingress) option" where
  "ReconcileV1Ingress E opts io r ch ing c =
     (case getIngressBackends opts r (rc_balance ch) (rc_names ch) ing of
        None \<Rightarrow> None
      | Some (Inl e) \<Rightarrow> Some (fail_and_delete E io ch ing c e)
      | Some (Inr (services, eps)) \<Rightarrow>
          (case (if length (DefaultBackend (Ingress opts)) > 0
                 then setDefautBackend opts (mget services (DefaultBackend (Ingress opts))) ing
                 else Some ing) of
             None \<Rightarrow> None
           | Some ing1 \<Rightarrow>
               (case getIngressSecret r ing1 of
                  Inl e \<Rightarrow> Some (fail_and_delete E io ch ing1 c e)
                | Inr secs \<Rightarrow>
                    (case cb_UpdateIngress E (rc_update ch) ing1 services eps secs c of
                       None \<Rightarrow> None
                     | Some (Some e, c1) \<Rightarrow> Some (fail_and_delete E io ch ing1 c1 e)
                     | Some (None, c1) \<Rightarrow> Some ([], None, c1, ing1)))))"

subsection \<open>The status annotation\<close>

definition err_text :: "(json_error \<Rightarrow> string) \<Rightarrow> error option \<Rightarrow> string option" where
  "err_text jt err = map_option (error_text jt) err"

text \<open>A nil annotation map is made before it is written to.\<close>

definition status_written :: "string option \<Rightarrow> annots \<Rightarrow> annots" where
  "status_written err a =
     Some (mput StatusAnnotationKey (GenErrorMsg err) (case a of None \<Rightarrow> [] | Some m \<Rightarrow> m))"

definition setStatus :: "string option \<Rightarrow> ingress \<Rightarrow> ingress kube_effect list \<times> ingress" where
  "setStatus err ing =
     (if CompareStatus err (ann_get (ing_annots ing) StatusAnnotationKey) = 0 then ([], ing)
      else (let ing1 = ing\<lparr>ing_annots := status_written err (ing_annots ing)\<rparr>
            in ([Patch ing ing1], ing1)))"

subsection \<open>Reconcile\<close>

definition record_event :: "string option \<Rightarrow> 'i \<Rightarrow> 'i kube_effect" where
  "record_event err ing =
     (case err of
        Some m \<Rightarrow> Warning ing SyncFailed m
      | None \<Rightarrow> Normal ing SyncSucceed ''Synced'')"

definition Reconcile ::
  "(json_error \<Rightarrow> string) \<Rightarrow> ('m, 'n) cb_env \<Rightarrow> options \<Rightarrow> io_env \<Rightarrow> kube \<Rightarrow> rec_choice \<Rightarrow>
     string \<Rightarrow> string \<Rightarrow> ('m, 'n) builder \<Rightarrow>
     (effect list \<times> ingress kube_effect list \<times> error option \<times> ('m, 'n) builder) option" where
  "Reconcile jt E opts io r ch namespace name c =
     (case get_ingress r namespace name of
        Inl _ \<Rightarrow>
          (case cb_DeleteIngress E io (rc_delete ch) namespace name c of
             (es, c1) \<Rightarrow> Some (es, [], None, c1))
      | Inr ing \<Rightarrow>
          if \<not> IngressClassFilter opts (list_classes_v1 r) (list_classes_v1beta1 r)
                 (ing_annots ing) (ing_class ing)
          then Some ([], [], None, c)
          else
            (case ReconcileV1Ingress E opts io r ch ing c of
               None \<Rightarrow> None
             | Some (es, err, c1, ing1) \<Rightarrow>
                 (case setStatus (err_text jt err) ing1 of
                    (ks, ing2) \<Rightarrow> Some (es, ks @ [record_event (err_text jt err) ing2], err, c1))))"

subsection \<open>Services and secrets\<close>

text \<open>
  \<^verbatim>\<open>service_controller.go\<close> and \<^verbatim>\<open>secret_controller.go\<close>. A service or secret that cannot be read,
  a deleted one included, changes nothing; the error of \<^verbatim>\<open>UpdateSecret\<close> is dropped.
\<close>

definition service_Reconcile ::
  "('m, 'n) cb_env \<Rightarrow> kube \<Rightarrow> cb_choice \<Rightarrow> string \<Rightarrow> string \<Rightarrow> ('m, 'n) builder \<Rightarrow>
     ('m, 'n) builder option" where
  "service_Reconcile E r ch namespace name c =
     (case get_service r namespace name of
        Inl _ \<Rightarrow> Some c
      | Inr svc \<Rightarrow>
          (case get_endpoints r namespace name of
             Inl _ \<Rightarrow> Some c
           | Inr ep \<Rightarrow> cb_UpdateService E ch svc (Some ep) c))"

definition secret_Reconcile ::
  "('m, 'n) cb_env \<Rightarrow> kube \<Rightarrow> cb_choice \<Rightarrow> string \<Rightarrow> string \<Rightarrow> ('m, 'n) builder \<Rightarrow> ('m, 'n) builder" where
  "secret_Reconcile E r ch namespace name c =
     (case get_secret r namespace name of
        Inl _ \<Rightarrow> c
      | Inr sec \<Rightarrow> snd (cb_UpdateSecret E ch sec c))"

end
