(* ===== verification/Beta_Ingress.thy ===== *)
theory Beta_Ingress
  imports Ingress_Controller
begin

text \<open>
  The types of the older API versions, which the packages \<^verbatim>\<open>netv1beta1\<close> and \<^verbatim>\<open>extv1beta1\<close> share, the
  backend literal both \<^verbatim>\<open>convert\<close> functions build, and the versions of the ingress API with
  their order.
\<close>

subsection \<open>The old API types\<close>

record beta_backend =
  bb_service :: string
  bb_port :: int_or_string

record beta_path =
  bt_path :: string
  bt_type :: "string option"
  bt_backend :: beta_backend

record beta_rule =
  br_host :: string
  br_http :: "beta_path list option"

record beta_ingress =
  bi_namespace :: string
  bi_name :: string
  bi_resource_version :: string
  bi_annots :: annots
  bi_created :: int
  bi_class :: "string option"
  bi_default :: "beta_backend option"
  bi_tls :: "ingress_tls list"
  bi_rules :: "beta_rule list"

datatype api = NetV1 | NetV1beta1 | ExtV1beta1

subsection \<open>The backend of a path\<close>

definition convert_backend :: "beta_backend \<Rightarrow> ingress_backend" where
  "convert_backend b =
     \<lparr>ib_service = Some \<lparr>sb_name = bb_service b,
        sb_port = \<lparr>bp_name = ios_str (bb_port b), bp_number = ios_int (bb_port b)\<rparr>\<rparr>\<rparr>"

subsection \<open>The order of the API versions\<close>

text \<open>Older versions are smaller.\<close>

primrec api_age :: "api \<Rightarrow> nat" where
  "api_age ExtV1beta1 = 0"
| "api_age NetV1beta1 = 1"
| "api_age NetV1 = 2"

lemma api_age_inj: "api_age v = api_age w \<Longrightarrow> v = w"
  by (cases v; cases w) simp_all

instantiation api :: linorder
begin

definition less_eq_api :: "api \<Rightarrow> api \<Rightarrow> bool" where
  "less_eq_api v w = (api_age v \<le> api_age w)"

definition less_api :: "api \<Rightarrow> api \<Rightarrow> bool" where
  "less_api v w = (api_age v < api_age w)"

instance
  by standard (auto simp: less_eq_api_def less_api_def intro: api_age_inj)

end

lemma api_le_iff [simp]: "(v::api) \<le> w \<longleftrightarrow> api_age v \<le> api_age w"
  by (simp add: less_eq_api_def)

end
