(* ===== verification/Extv1beta1_Ingress.thy ===== *)
theory Extv1beta1_Ingress
  imports Beta_Ingress
begin

text \<open>
  \<^verbatim>\<open>extv1beta1/ingress_controller.go\<close>: an ingress of \<^verbatim>\<open>extensions/v1beta1\<close> is converted and reconciled as a
  \<^verbatim>\<open>networking/v1\<close> ingress. The loops append to the rules and paths read so far, as the code does.
\<close>

subsection \<open>Conversion\<close>

text \<open>\<open>None\<close>: a path without a type is a nil dereference.\<close>

fun extv1beta1_paths :: "beta_path list \<Rightarrow> http_ingress_path list \<Rightarrow> http_ingress_path list option" where
  "extv1beta1_paths [] paths = Some paths"
| "extv1beta1_paths (p # ps) paths =
     (case bt_type p of
        None \<Rightarrow> None
      | Some pathType \<Rightarrow>
          extv1beta1_paths ps
            (paths @ [\<lparr>hp_path = bt_path p, hp_type = Some pathType,
                       hp_backend = convert_backend (bt_backend p)\<rparr>]))"

text \<open>A rule without paths is dereferenced, too.\<close>

fun extv1beta1_rules :: "beta_rule list \<Rightarrow> ingress_rule list \<Rightarrow> ingress_rule list option" where
  "extv1beta1_rules [] out = Some out"
| "extv1beta1_rules (rule # rules) out =
     (case br_http rule of
        None \<Rightarrow> None
      | Some ps \<Rightarrow>
          (case extv1beta1_paths ps [] of
             None \<Rightarrow> None
           | Some paths \<Rightarrow>
               extv1beta1_rules rules (out @ [\<lparr>ir_host = br_host rule, ir_http = Some paths\<rparr>])))"

definition extv1beta1_convert :: "beta_ingress \<Rightarrow> ingress option" where
  "extv1beta1_convert i =
     (case extv1beta1_rules (bi_rules i) [] of
        None \<Rightarrow> None
      | Some rules \<Rightarrow>
          Some \<lparr>ing_kind = ''Ingress'', ing_version = ''networking.k8s.io/v1'',
            ing_namespace = bi_namespace i, ing_name = bi_name i, ing_resource_version = ''v1'',
            ing_annots = bi_annots i, ing_created = bi_created i, ing_class = bi_class i,
            ing_default = map_option convert_backend (bi_default i),
            ing_tls = map (\<lambda>t. \<lparr>tls_hosts = tls_hosts t, tls_secret = tls_secret t\<rparr>) (bi_tls i),
            ing_rules = rules\<rparr>)"

subsection \<open>Status and reconcile\<close>

text \<open>A nil annotation map is written to without being made first.\<close>

definition extv1beta1_setStatus ::
  "string option \<Rightarrow> beta_ingress \<Rightarrow> (beta_ingress kube_effect list \<times> beta_ingress) option" where
  "extv1beta1_setStatus err ing =
     (if CompareStatus err (ann_get (bi_annots ing) StatusAnnotationKey) = 0 then Some ([], ing)
      else (case bi_annots ing of
              None \<Rightarrow> None
            | Some m \<Rightarrow>
                (let ing1 = ing\<lparr>bi_annots := Some (mput StatusAnnotationKey (GenErrorMsg err) m)\<rparr>
                 in Some ([Patch ing ing1], ing1))))"

definition extv1beta1_Reconcile ::
  "(json_error \<Rightarrow> string) \<Rightarrow> ('m, 'n) cb_env \<Rightarrow> options \<Rightarrow> io_env \<Rightarrow> kube \<Rightarrow>
     (string \<Rightarrow> string \<Rightarrow> error + beta_ingress) \<Rightarrow> rec_choice \<Rightarrow> string \<Rightarrow> string \<Rightarrow> ('m, 'n) builder \<Rightarrow>
     (effect list \<times> beta_ingress kube_effect list \<times> error option \<times> ('m, 'n) builder) option" where
  "extv1beta1_Reconcile jt E opts io r get ch namespace name c =
     (case get namespace name of
        Inl _ \<Rightarrow>
          (case cb_DeleteIngress E io (rc_delete ch) namespace name c of
             (es, c1) \<Rightarrow> Some (es, [], None, c1))
      | Inr ing \<Rightarrow>
          if \<not> IngressClassFilter opts (list_classes_v1 r) (list_classes_v1beta1 r)
                 (bi_annots ing) (bi_class ing)
          then Some ([], [], None, c)
          else
            (case extv1beta1_convert ing of
               None \<Rightarrow> None
             | Some ingV1 \<Rightarrow>
                 (case ReconcileV1Ingress E opts io r ch ingV1 c of
                    None \<Rightarrow> None
                  | Some (es, err, c1, _) \<Rightarrow>
                      (case extv1beta1_setStatus (err_text jt err) ing of
                         None \<Rightarrow> None
                       | Some (ks, ing2) \<Rightarrow>
                           Some (es, ks @ [record_event (err_text jt err) ing2], err, c1)))))"

end
