(* ===== verification/Registration.thy ===== *)
theory Registration
  imports Netv1beta1_Ingress Extv1beta1_Ingress
begin

text \<open>
  How the reconcilers are registered with the manager: the \<^verbatim>\<open>setupWithManager\<close> methods and the
  \<^verbatim>\<open>Add*Controller\<close> functions of \<^verbatim>\<open>controllers/ingress\<close>. What is registered is a list of watches: a
  kind of objects, a predicate, and the requests an object becomes.
\<close>

subsection \<open>Objects, watches and controllers\<close>

datatype object_kind = Ingress_Object api | Service_Object | Endpoints_Object | Secret_Object

record object_event =
  oe_kind :: object_kind
  oe_namespace :: string
  oe_name :: string

datatype reconciler = Ingress_Reconciler api | Service_Reconciler | Secret_Reconciler

record watch =
  wa_kind :: object_kind
  wa_predicate :: "options \<Rightarrow> string \<Rightarrow> bool"
  wa_requests :: "object_event \<Rightarrow> (string \<times> string) list"

text \<open>
  The structs of the reconcilers hold pointers: to the configuration builder, and to the client, the
  scheme and the event recorder of the manager. A pointer is its address. Services and secrets have
  no recorder.
\<close>

type_synonym address = nat

record resource_reconciler =
  rr_builder :: address
  rr_client :: address
  rr_scheme :: address

record ingress_reconciler = resource_reconciler +
  rr_recorder :: address

datatype reconciler_object = Ingress_Object_Of ingress_reconciler | Resource_Object_Of resource_reconciler

fun builder_of :: "reconciler_object \<Rightarrow> address" where
  "builder_of (Ingress_Object_Of r) = rr_builder r"
| "builder_of (Resource_Object_Of r) = rr_builder r"

record controller =
  ct_reconciler :: reconciler
  ct_object :: reconciler_object
  ct_watches :: "watch list"

text \<open>
  The manager of controller-runtime: its answer when a controller is completed is a parameter; a
  controller completed without error is kept and started later.
\<close>

record manager =
  mg_client :: address
  mg_scheme :: address
  mg_recorder :: "string \<Rightarrow> address"
  mg_complete :: "reconciler \<Rightarrow> string option"
  mg_controllers :: "controller list"

definition Complete :: "controller \<Rightarrow> manager \<Rightarrow> string option \<times> manager" where
  "Complete ct mgr =
     (case mg_complete mgr (ct_reconciler ct) of
        Some e \<Rightarrow> (Some e, mgr)
      | None \<Rightarrow> (None, mgr\<lparr>mg_controllers := mg_controllers mgr @ [ct]\<rparr>))"

text \<open>\<^verbatim>\<open>For\<close> watches a kind and asks for the object itself, by namespace and name.\<close>

definition For :: "object_kind \<Rightarrow> (options \<Rightarrow> string \<Rightarrow> bool) \<Rightarrow> watch" where
  "For k p = \<lparr>wa_kind = k, wa_predicate = p, wa_requests = (\<lambda>e. [(oe_namespace e, oe_name e)])\<rparr>"

subsection \<open>The reconcilers of ingresses\<close>

definition netv1_newIngressReconciler :: "manager \<Rightarrow> address \<Rightarrow> ingress_reconciler" where
  "netv1_newIngressReconciler mgr cb =
     \<lparr>rr_builder = cb, rr_client = mg_client mgr, rr_scheme = mg_scheme mgr,
      rr_recorder = mg_recorder mgr ''bfe-ingress-controller''\<rparr>"

definition netv1_setupWithManager :: "ingress_reconciler \<Rightarrow> manager \<Rightarrow> string option \<times> manager" where
  "netv1_setupWithManager r =
     Complete \<lparr>ct_reconciler = Ingress_Reconciler NetV1, ct_object = Ingress_Object_Of r,
               ct_watches = [For (Ingress_Object NetV1) NamespaceFilter]\<rparr>"

definition netv1_AddIngressController :: "manager \<Rightarrow> address \<Rightarrow> string option \<times> manager" where
  "netv1_AddIngressController mgr cb =
     (case netv1_setupWithManager (netv1_newIngressReconciler mgr cb) mgr of
        (Some _, mgr1) \<Rightarrow> (Some ''unable to create ingress controller'', mgr1)
      | (None, mgr1) \<Rightarrow> (None, mgr1))"

definition netv1beta1_newIngressReconciler :: "manager \<Rightarrow> address \<Rightarrow> ingress_reconciler" where
  "netv1beta1_newIngressReconciler mgr cb =
     \<lparr>rr_builder = cb, rr_client = mg_client mgr, rr_scheme = mg_scheme mgr,
      rr_recorder = mg_recorder mgr ''bfe-ingress-controller''\<rparr>"

definition netv1beta1_setupWithManager :: "ingress_reconciler \<Rightarrow> manager \<Rightarrow> string option \<times> manager" where
  "netv1beta1_setupWithManager r =
     Complete \<lparr>ct_reconciler = Ingress_Reconciler NetV1beta1, ct_object = Ingress_Object_Of r,
               ct_watches = [For (Ingress_Object NetV1beta1) NamespaceFilter]\<rparr>"

definition netv1beta1_AddIngressController :: "manager \<Rightarrow> address \<Rightarrow> string option \<times> manager" where
  "netv1beta1_AddIngressController mgr cb =
     (case netv1beta1_setupWithManager (netv1beta1_newIngressReconciler mgr cb) mgr of
        (Some _, mgr1) \<Rightarrow> (Some ''unable to create ingress controller'', mgr1)
      | (None, mgr1) \<Rightarrow> (None, mgr1))"

definition extv1beta1_newIngressReconciler :: "manager \<Rightarrow> address \<Rightarrow> ingress_reconciler" where
  "extv1beta1_newIngressReconciler mgr cb =
     \<lparr>rr_builder = cb, rr_client = mg_client mgr, rr_scheme = mg_scheme mgr,
      rr_recorder = mg_recorder mgr ''bfe-ingress-controller''\<rparr>"

definition extv1beta1_setupWithManager :: "ingress_reconciler \<Rightarrow> manager \<Rightarrow> string option \<times> manager" where
  "extv1beta1_setupWithManager r =
     Complete \<lparr>ct_reconciler = Ingress_Reconciler ExtV1beta1, ct_object = Ingress_Object_Of r,
               ct_watches = [For (Ingress_Object ExtV1beta1) NamespaceFilter]\<rparr>"

definition extv1beta1_AddIngressController :: "manager \<Rightarrow> address \<Rightarrow> string option \<times> manager" where
  "extv1beta1_AddIngressController mgr cb =
     (case extv1beta1_setupWithManager (extv1beta1_newIngressReconciler mgr cb) mgr of
        (Some _, mgr1) \<Rightarrow> (Some ''unable to create service controller'', mgr1)
      | (None, mgr1) \<Rightarrow> (None, mgr1))"

subsection \<open>The reconcilers of services and secrets\<close>

text \<open>Endpoints ask for the service of the same name.\<close>

definition newServiceReconciler :: "manager \<Rightarrow> address \<Rightarrow> resource_reconciler" where
  "newServiceReconciler mgr cb = \<lparr>rr_builder = cb, rr_client = mg_client mgr, rr_scheme = mg_scheme mgr\<rparr>"

definition service_setupWithManager :: "resource_reconciler \<Rightarrow> manager \<Rightarrow> string option \<times> manager" where
  "service_setupWithManager r =
     Complete \<lparr>ct_reconciler = Service_Reconciler, ct_object = Resource_Object_Of r,
               ct_watches =
                 [For Service_Object NamespaceFilter,
                  \<lparr>wa_kind = Endpoints_Object, wa_predicate = NamespaceFilter,
                   wa_requests = (\<lambda>a. [(oe_namespace a, oe_name a)])\<rparr>]\<rparr>"

definition AddServiceController :: "manager \<Rightarrow> address \<Rightarrow> string option \<times> manager" where
  "AddServiceController mgr cb =
     (case service_setupWithManager (newServiceReconciler mgr cb) mgr of
        (Some _, mgr1) \<Rightarrow> (Some ''unable to create ingress controller'', mgr1)
      | (None, mgr1) \<Rightarrow> (None, mgr1))"

definition newSecretReconciler :: "manager \<Rightarrow> address \<Rightarrow> resource_reconciler" where
  "newSecretReconciler mgr cb = \<lparr>rr_builder = cb, rr_client = mg_client mgr, rr_scheme = mg_scheme mgr\<rparr>"

definition secret_setupWithManager :: "resource_reconciler \<Rightarrow> manager \<Rightarrow> string option \<times> manager" where
  "secret_setupWithManager r =
     Complete \<lparr>ct_reconciler = Secret_Reconciler, ct_object = Resource_Object_Of r,
               ct_watches = [For Secret_Object NamespaceFilter]\<rparr>"

definition AddSecretController :: "manager \<Rightarrow> address \<Rightarrow> string option \<times> manager" where
  "AddSecretController mgr cb =
     (case secret_setupWithManager (newSecretReconciler mgr cb) mgr of
        (Some _, mgr1) \<Rightarrow> (Some ''unable to create ingress controller'', mgr1)
      | (None, mgr1) \<Rightarrow> (None, mgr1))"

lemmas setup_defs =
  netv1_AddIngressController_def netv1_setupWithManager_def
  netv1beta1_AddIngressController_def netv1beta1_setupWithManager_def
  extv1beta1_AddIngressController_def extv1beta1_setupWithManager_def
  AddServiceController_def service_setupWithManager_def
  AddSecretController_def secret_setupWithManager_def Complete_def

lemmas reconciler_defs =
  netv1_newIngressReconciler_def netv1beta1_newIngressReconciler_def extv1beta1_newIngressReconciler_def
  newServiceReconciler_def newSecretReconciler_def

end
