(* ===== verification/Startup.thy ===== *)
theory Startup
  imports Registration
begin

text \<open>
  \<^verbatim>\<open>internal/controllers/start.go\<close> and \<^verbatim>\<open>cmd/ingress-controller/main.go\<close>: the order in which the
  controller is brought up, and the choice of the ingress API by the version of the cluster.
\<close>

subsection \<open>Choosing the API\<close>

text \<open>Go compares strings byte by byte, a proper prefix being smaller.\<close>

fun go_le :: "string \<Rightarrow> string \<Rightarrow> bool" where
  "go_le [] t = True"
| "go_le (c # cs) [] = False"
| "go_le (c # cs) (d # ds) = (byte c < byte d \<or> (byte c = byte d \<and> go_le cs ds))"

definition select_api :: "string \<Rightarrow> string \<Rightarrow> api" where
  "select_api major minor =
     (if go_le ''1'' major \<and> go_le ''19'' minor then NetV1
      else if go_le ''1'' major \<and> go_le ''14'' minor then NetV1beta1
      else ExtV1beta1)"

subsection \<open>Bringing the controller up\<close>

datatype start_step =
    Get_Config
  | New_Manager string string
  | Add_Healthz
  | Add_Readyz
  | Init_Reload address int
  | Server_Version
  | Register reconciler
  | Start_BFE string "string list" string
  | Run_Manager

text \<open>
  What the outside answers: the error of a step, if any, and the version of the cluster; and the
  addresses of the builder that is made, of the scheme \<^verbatim>\<open>main\<close> made, and of what the manager hands out.
\<close>

record start_env =
  se_builder :: address
  se_scheme :: address
  se_client :: address
  se_recorder :: "string \<Rightarrow> address"
  se_fails :: "start_step \<Rightarrow> string option"
  se_major :: string
  se_minor :: string

text \<open>
  Steps that only call the outside are tried in order; the text before the error of a failed step
  is the one the code puts there. Starting the reload loop cannot fail.
\<close>

fun step_error :: "start_step \<Rightarrow> string \<Rightarrow> string" where
  "step_error Get_Config e = ''unable to get client config: '' @ e"
| "step_error (New_Manager _ _) e = ''unable to start controller manager: '' @ e"
| "step_error Add_Healthz e = ''unable to set up health check: '' @ e"
| "step_error Add_Readyz e = ''unable to set up ready check: '' @ e"
| "step_error Server_Version e = ''unable to get k8s cluster version: '' @ e"
| "step_error (Start_BFE _ _ _) e = ''fail to start bfe: '' @ e"
| "step_error Run_Manager e = ''fail to run manager: '' @ e"
| "step_error (Init_Reload _ _) e = e"
| "step_error (Register _) e = e"

fun step_fails :: "start_env \<Rightarrow> start_step \<Rightarrow> string option" where
  "step_fails env (Init_Reload _ _) = None"
| "step_fails env s = se_fails env s"

fun run_steps :: "start_env \<Rightarrow> start_step list \<Rightarrow> start_step list \<times> error option" where
  "run_steps env [] = ([], None)"
| "run_steps env (s # ss) =
     (case step_fails env s of
        Some e \<Rightarrow> ([s], Some (Setup_Failed (step_error s e)))
      | None \<Rightarrow> (case run_steps env ss of (done, err) \<Rightarrow> (s # done, err)))"

definition new_manager :: "start_env \<Rightarrow> manager" where
  "new_manager env =
     \<lparr>mg_client = se_client env, mg_scheme = se_scheme env, mg_recorder = se_recorder env,
      mg_complete = (\<lambda>r. se_fails env (Register r)), mg_controllers = []\<rparr>"

text \<open>The registration of the ingress reconciler of a version, and the text put before its error.\<close>

definition add_ingress :: "api \<Rightarrow> address \<Rightarrow> manager \<Rightarrow> string option \<times> manager" where
  "add_ingress v cb mgr =
     (case v of
        NetV1 \<Rightarrow> map_prod (map_option ((@) ''unable to create controller Ingress(netwokingv1): '')) id
          (netv1_AddIngressController mgr cb)
      | NetV1beta1 \<Rightarrow> map_prod (map_option ((@) ''unable to create controller Ingress(netwokingv1beta1): '')) id
          (netv1beta1_AddIngressController mgr cb)
      | ExtV1beta1 \<Rightarrow> map_prod (map_option ((@) ''unable to create controller Ingress(extensionsv1beta1): '')) id
          (extv1beta1_AddIngressController mgr cb))"

definition addController :: "start_env \<Rightarrow> address \<Rightarrow> manager \<Rightarrow> start_step list \<times> error option \<times> manager" where
  "addController env cb mgr =
     (case se_fails env Server_Version of
        Some e \<Rightarrow> ([Server_Version], Some (Setup_Failed (''unable to get k8s cluster version: '' @ e)), mgr)
      | None \<Rightarrow>
          (let s1 = [Server_Version, Register (Ingress_Reconciler (select_api (se_major env) (se_minor env)))] in
           case add_ingress (select_api (se_major env) (se_minor env)) cb mgr of
             (Some e, mgr1) \<Rightarrow> (s1, Some (Setup_Failed e), mgr1)
           | (None, mgr1) \<Rightarrow>
               (case AddServiceController mgr1 cb of
                  (Some e, mgr2) \<Rightarrow>
                    (s1 @ [Register Service_Reconciler],
                     Some (Setup_Failed (''unable to create controller Service: '' @ e)), mgr2)
                | (None, mgr2) \<Rightarrow>
                    (case AddSecretController mgr2 cb of
                       (Some e, mgr3) \<Rightarrow>
                         (s1 @ [Register Service_Reconciler, Register Secret_Reconciler],
                          Some (Setup_Failed (''unable to create controller secret: '' @ e)), mgr3)
                     | (None, mgr3) \<Rightarrow>
                         (s1 @ [Register Service_Reconciler, Register Secret_Reconciler], None, mgr3)))))"

definition startBFE :: "options \<Rightarrow> start_step" where
  "startBFE opts =
     Start_BFE (BfeBinary (Ingress opts)) [''-c'', ''../conf'', ''-l'', ''../log'', ''-s'']
       (path_dir (BfeBinary (Ingress opts)))"

definition Start :: "options \<Rightarrow> start_env \<Rightarrow> start_step list \<times> error option \<times> manager" where
  "Start opts env =
     (let cb = se_builder env in
      case run_steps env
             [Get_Config, New_Manager (MetricsAddr opts) (HealthProbeAddr opts), Add_Healthz, Add_Readyz,
              Init_Reload cb (ReloadInterval (Ingress opts))] of
        (s1, Some e) \<Rightarrow> (s1, Some e, new_manager env)
      | (s1, None) \<Rightarrow>
          (case addController env cb (new_manager env) of
             (s2, Some e, mgr) \<Rightarrow> (s1 @ s2, Some e, mgr)
           | (s2, None, mgr) \<Rightarrow>
               (case run_steps env [startBFE opts, Run_Manager] of (s3, err) \<Rightarrow> (s1 @ s2 @ s3, err, mgr))))"

text \<open>\<^verbatim>\<open>main\<close>, after the flags are parsed.\<close>

datatype main_result =
    Show_Defaults
  | Show_Version
  | Options_Rejected error
  | Started options "start_step list" "error option" manager

definition main :: "command_line \<Rightarrow> start_env \<Rightarrow> main_result" where
  "main c env =
     (if cmd_help c then Show_Defaults
      else if cmd_version c then Show_Version
      else (case SetOptions (cmd_opts c) of
              Inl e \<Rightarrow> Options_Rejected e
            | Inr opts \<Rightarrow> (case Start opts env of (steps, err, mgr) \<Rightarrow> Started opts steps err mgr)))"

end
