(* ===== verification/Annotation_Props.thy ===== *)
theory Annotation_Props
  imports Annotations
begin

text \<open>
  The properties of the balance and status annotations.
\<close>

subsection \<open>Weights\<close>

text \<open>
  C31: a balance annotation is accepted exactly when its JSON reads as weights per service, no
  weight is negative and no service has a 64-bit total of zero; the result is what was read, in
  whatever order the maps are iterated.
\<close>

theorem balance_accepted_iff:
  "GetBalance w a = Inr (Some lb) \<longleftrightarrow>
     (\<exists>v. ann_find a WeightAnnotation = Some v \<and> unmarshal_balance v = Inr (Some lb) \<and>
        list_all (\<lambda>x. service_ok (snd x)) lb)"
  by (simp add: GetBalance_Some_iff list_all_iff)

text \<open>
  C32: the services of an accepted balance have weights of at least zero and a positive
  mathematical total, although the code tests the total in 64 bits.
\<close>

theorem accepted_weights_positive:
  assumes "GetBalance w a = Inr (Some lb)" and "mget lb service = Some ws"
  shows "list_all (\<lambda>x. 0 \<le> snd x) ws \<and> 0 < sum_list (map snd ws)"
proof -
  have ok: "service_ok ws"
    using assms mget_in_set [OF assms(2)] by (auto simp: GetBalance_Some_iff)
  then have nonneg: "list_all (\<lambda>x. 0 \<le> snd x) ws" by (simp add: service_ok_def list_all_iff)
  then have "0 \<le> sum_list (map snd ws)" by (induction ws) auto
  moreover have "sum_list (map snd ws) \<noteq> 0"
    using ok by (auto simp: service_ok_def int64_def wrap_int_def)
  ultimately show ?thesis using nonneg by simp
qed

definition ex_weights :: annots where
  "ex_weights = Some [(WeightAnnotation,
     [CHR 0x7B] @ json_quote ''s'' @ '':'' @ [CHR 0x7B] @ json_quote ''a'' @ '':1'' @ [CHR 0x7D, CHR 0x7D])]"

lemma ex_weights_read: "GetBalance any_order ex_weights = Inr (Some [(''s'', [(''a'', 1)])])"
  by code_simp

theorem accepted_weights_positive_witness:
  "list_all (\<lambda>x. 0 \<le> snd x) [(''a'', 1 :: int)] \<and> 0 < sum_list (map snd [(''a'', 1 :: int)])"
  by (rule accepted_weights_positive [OF ex_weights_read, of "''s''"]) simp

subsection \<open>Status\<close>

lemma CompareStatus_GenErrorMsg:
  "CompareStatus e' (GenErrorMsg e) = 0 \<longleftrightarrow> e' = map_option utf8_sanitize e"
proof -
  have ne: "length (GenErrorMsg e) \<noteq> 0" by (simp add: GenErrorMsg_def marshal_status_def)
  have s: "utf8_sanitize ''success'' = ''success''" "utf8_sanitize ''error'' = ''error''"
    "utf8_sanitize [] = []"
    by (simp_all add: sanitize_ascii)
  have u: "unmarshal_status (GenErrorMsg e) =
      Inr (case e of None \<Rightarrow> \<lparr>st_status = ''success'', st_message = []\<rparr>
                   | Some m \<Rightarrow> \<lparr>st_status = ''error'', st_message = utf8_sanitize m\<rparr>)"
    by (cases e) (simp_all add: GenErrorMsg_def unmarshal_marshal_status s)
  show ?thesis
    using ne u by (cases e; cases e') (auto simp: CompareStatus_def)
qed

end
