(* ===== verification/Controller_Spec.thy ===== *)
theory Controller_Spec
  imports Startup Builder_Spec Annotation_Props
begin

text \<open>
  Lemmas about the reconcilers: what reading the backends of an ingress collects, that a
  reconcile is a run of the builder, and what it leaves.
\<close>

subsection \<open>Reading the backends\<close>

definition backend_read :: "kube \<Rightarrow> string \<Rightarrow> string \<Rightarrow> backends \<Rightarrow> bool" where
  "backend_read r ns name b \<longleftrightarrow>
     (\<exists>svc ep. get_service r ns name = Inr svc \<and> mget (fst b) (NamespacedName ns name) = Some svc \<and>
        getEndpoint r ns name = Inr ep \<and> mget (snd b) (NamespacedName ns name) = Some ep)"

lemma getService_Inr:
  "getService r ns name port = Inr svc \<longleftrightarrow>
     get_service r ns name = Inr svc \<and> list_ex (port_selected port) (svc_ports svc)"
  by (auto simp: getService_def split: sum.splits if_splits)

lemma read_backend_ok:
  "read_backend r ns port name b = Some (None, b') \<longleftrightarrow>
     (\<exists>svc ep. getService r ns name port = Inr svc \<and> getEndpoint r ns name = Inr ep \<and>
        b' = (mput (NamespacedName ns name) svc (fst b), mput (NamespacedName ns name) ep (snd b)))"
  by (auto simp: read_backend_def Let_def split: sum.splits)

lemma read_backend_establishes: "read_backend r ns port name b = Some (None, b') \<Longrightarrow> backend_read r ns name b'"
  by (auto simp: read_backend_ok backend_read_def getService_Inr)

lemma read_backend_keeps:
  "backend_read r ns name b \<Longrightarrow> read_backend r ns port name' b = Some (None, b') \<Longrightarrow> backend_read r ns name b'"
  by (auto simp: read_backend_ok backend_read_def getService_Inr)

lemma each_go_keep:
  assumes "each_go f xs s = Some (None, s')" and "P s"
    and "\<And>y s s'. P s \<Longrightarrow> f y s = Some (None, s') \<Longrightarrow> P s'"
  shows "P s'"
  using assms(1,2)
proof (induction xs arbitrary: s)
  case (Cons x xs)
  then obtain s1 where "f x s = Some (None, s1)" "each_go f xs s1 = Some (None, s')"
    unfolding each_go_None_Cons by blast
  then show ?case using Cons.IH [of s1] Cons.prems(2) assms(3) by blast
qed simp

lemma read_path_keeps:
  "backend_read r ns name b \<Longrightarrow> read_path r sch ns balance p b = Some (None, b') \<Longrightarrow> backend_read r ns name b'"
  by (auto simp: read_path_def split: option.splits
      intro: each_go_keep [where P = "backend_read r ns name"] read_backend_keeps)

lemma read_rule_keeps:
  "backend_read r ns name b \<Longrightarrow> read_rule r sch ns balance rule b = Some (None, b') \<Longrightarrow> backend_read r ns name b'"
  by (auto simp: read_rule_def split: option.splits prod.splits
      intro: each_go_keep [where P = "backend_read r ns name"] read_path_keeps)

lemma set_backend_names: "set (backend_names sch balance (sb_name b)) = path_services balance b"
  by (auto simp: backend_names_def path_services_def split: option.splits)

text \<open>A backend whose service and port are there.\<close>

definition backend_found :: "kube \<Rightarrow> string \<Rightarrow> service_backend_port \<Rightarrow> string \<Rightarrow> backends \<Rightarrow> bool" where
  "backend_found r ns port name b \<longleftrightarrow> backend_read r ns name b \<and>
     (\<exists>svc. get_service r ns name = Inr svc \<and> list_ex (port_selected port) (svc_ports svc))"

lemma read_path_establishes:
  assumes "read_path r sch ns balance p b = Some (None, b')" and "ib_service (hp_backend p) = Some s"
    and "name \<in> path_services balance s"
  shows "backend_found r ns (sb_port s) name b'"
proof (rule each_go_establish [where P = "backend_found r ns (sb_port s) name"])
  show "each_go (read_backend r ns (sb_port s)) (backend_names sch balance (sb_name s)) b = Some (None, b')"
    using assms(1,2) by (simp add: read_path_def)
  show "name \<in> set (backend_names sch balance (sb_name s))" using assms(3) by (simp add: set_backend_names)
  show "read_backend r ns (sb_port s) name t = Some (None, t') \<Longrightarrow> backend_found r ns (sb_port s) name t'" for t t'
    using read_backend_establishes by (auto simp: backend_found_def read_backend_ok getService_Inr)
  show "backend_found r ns (sb_port s) name t \<Longrightarrow> read_backend r ns (sb_port s) y t = Some (None, t') \<Longrightarrow>
      backend_found r ns (sb_port s) name t'" for y t t'
    by (auto simp: backend_found_def intro: read_backend_keeps)
qed

lemma each_enumerate_establish:
  assumes "each_go (\<lambda>(i, x). f i x) (List.enumerate 0 xs) s = Some (None, s')" and "x \<in> set xs"
    and "\<And>i s s'. f i x s = Some (None, s') \<Longrightarrow> P s'"
    and "\<And>i y s s'. P s \<Longrightarrow> f i y s = Some (None, s') \<Longrightarrow> P s'"
  shows "P s'"
proof -
  have "x \<in> snd ` set (List.enumerate 0 xs)" using assms(2) by (metis list.set_map map_snd_enumerate)
  then obtain i where i: "(i, x) \<in> set (List.enumerate 0 xs)" by auto
  show ?thesis
    by (rule each_go_establish [OF assms(1) i, of P]) (use assms(3,4) in \<open>auto split: prod.splits\<close>)
qed

lemma backend_found_keeps:
  "backend_found r ns port name b \<Longrightarrow> (backend_read r ns name b \<Longrightarrow> backend_read r ns name b') \<Longrightarrow>
     backend_found r ns port name b'"
  by (simp add: backend_found_def)

lemma getIngressBackends_finds:
  assumes "getIngressBackends opts r w sch ing = Some (Inr b)" and "GetBalance w (ing_annots ing) = Inr balance"
    and "p \<in> set (http_paths ing)" and "ib_service (hp_backend p) = Some s" and "name \<in> path_services balance s"
  shows "backend_found r (ing_namespace ing) (sb_port s) name b"
proof -
  let ?ns = "ing_namespace ing"
  obtain b0 where go: "each_go (\<lambda>(i, rule). read_rule r (sch i) ?ns balance rule)
      (List.enumerate 0 (ing_rules ing)) b0 = Some (None, b)"
    using assms(1,2) by (auto simp: getIngressBackends_def Let_def split: option.splits sum.splits)
  obtain rule where r0: "rule \<in> set (ing_rules ing)"
    "p \<in> set (case ir_http rule of None \<Rightarrow> [] | Some ps \<Rightarrow> ps)"
    using assms(3) by (auto simp: http_paths_def)
  then obtain ps where rule: "rule \<in> set (ing_rules ing)" "ir_http rule = Some ps" "p \<in> set ps"
    by (cases "ir_http rule") simp_all
  let ?P = "backend_found r ?ns (sb_port s) name"
  show ?thesis
  proof (rule each_enumerate_establish [OF go rule(1), of ?P])
    fix i t t'
    assume "read_rule r (sch i) ?ns balance rule t = Some (None, t')"
    then have go2: "each_go (\<lambda>(j, p). read_path r (sch i j) ?ns balance p) (List.enumerate 0 ps) t = Some (None, t')"
      using rule(2) by (simp add: read_rule_def)
    show "backend_found r ?ns (sb_port s) name t'"
      by (rule each_enumerate_establish [OF go2 rule(3), of ?P])
        (use read_path_establishes [OF _ assms(4,5)] in \<open>auto intro: backend_found_keeps read_path_keeps\<close>)
  qed (auto intro: backend_found_keeps read_rule_keeps)
qed

subsection \<open>Reconciling is a run of the builder\<close>

lemma setDefautBackend_same:
  assumes "setDefautBackend opts svc ing = Some ing1"
  shows "ing_namespace ing1 = ing_namespace ing" "ing_name ing1 = ing_name ing" "ing_rules ing1 = ing_rules ing"
    "ing_annots ing1 = ing_annots ing" "ing_created ing1 = ing_created ing" "ing_tls ing1 = ing_tls ing"
  using assms by (auto simp: setDefautBackend_def Let_def split: option.splits list.splits if_splits)

lemma same_paths:
  "ing_rules ing1 = ing_rules ing \<Longrightarrow> paths_of ing1 = paths_of ing \<and> http_paths ing1 = http_paths ing"
  by (simp add: paths_of_def http_paths_def)

text \<open>The three ways a reconcile ends.\<close>

lemma ReconcileV1Ingress_cases:
  assumes "ReconcileV1Ingress E opts io r ch ing c = Some (es, err, c', ing')"
  obtains (failed) e c1 where "err = Some e" "c1 = c \<or> (\<exists>services eps secs.
        cb_UpdateIngress E (rc_update ch) ing' services eps secs c = Some (Some e, c1))"
      "cb_DeleteIngress E io (rc_delete ch) (ing_namespace ing) (ing_name ing) c1 = (es, c')"
      "ing_namespace ing' = ing_namespace ing" "ing_name ing' = ing_name ing" "ing_rules ing' = ing_rules ing"
  | (synced) services eps secs where "err = None" "es = []"
      "cb_UpdateIngress E (rc_update ch) ing' services eps secs c = Some (None, c')"
      "getIngressBackends opts r (rc_balance ch) (rc_names ch) ing = Some (Inr (services, eps))"
      "getIngressSecret r ing' = Inr secs"
      "ing_namespace ing' = ing_namespace ing" "ing_name ing' = ing_name ing" "ing_rules ing' = ing_rules ing"
      "ing_annots ing' = ing_annots ing" "ing_created ing' = ing_created ing" "ing_tls ing' = ing_tls ing"
proof -
  have del: "fail_and_delete E io ch i d e = (es, err, c', ing') \<Longrightarrow>
      err = Some e \<and> ing' = i \<and> cb_DeleteIngress E io (rc_delete ch) (ing_namespace i) (ing_name i) d = (es, c')"
    for i d e by (auto simp: fail_and_delete_def split: prod.splits)
  obtain x where x: "getIngressBackends opts r (rc_balance ch) (rc_names ch) ing = Some x"
    using assms by (auto simp: ReconcileV1Ingress_def split: option.splits)
  show thesis
  proof (cases x)
    case (Inl e)
    then have "fail_and_delete E io ch ing c e = (es, err, c', ing')"
      using assms x by (simp add: ReconcileV1Ingress_def)
    from del [OF this] show thesis by (intro failed [of e c]) auto
  next
    case (Inr b)
    obtain services eps where b: "b = (services, eps)" by (cases b)
    obtain ing1 where i1: "(if length (DefaultBackend (Ingress opts)) > 0
        then setDefautBackend opts (mget services (DefaultBackend (Ingress opts))) ing else Some ing) = Some ing1"
      using assms x Inr b by (auto simp: ReconcileV1Ingress_def split: option.splits)
    then have same: "ing_namespace ing1 = ing_namespace ing" "ing_name ing1 = ing_name ing"
      "ing_rules ing1 = ing_rules ing" "ing_annots ing1 = ing_annots ing"
      "ing_created ing1 = ing_created ing" "ing_tls ing1 = ing_tls ing"
      using setDefautBackend_same by (auto split: if_splits)
    show thesis
    proof (cases "getIngressSecret r ing1")
      case (Inl e)
      then have "fail_and_delete E io ch ing1 c e = (es, err, c', ing')"
        using assms x Inr b i1 by (simp add: ReconcileV1Ingress_def)
      from del [OF this] show thesis using same by (intro failed [of e c]) auto
    next
      case secs: (Inr secs)
      obtain e2 c1 where u: "cb_UpdateIngress E (rc_update ch) ing1 services eps secs c = Some (e2, c1)"
        using assms x Inr b i1 secs by (auto simp: ReconcileV1Ingress_def split: option.splits)
      show thesis
      proof (cases e2)
        case (Some e)
        then have "fail_and_delete E io ch ing1 c1 e = (es, err, c', ing')"
          using assms x Inr b i1 secs u by (simp add: ReconcileV1Ingress_def)
        from del [OF this] show thesis using same u Some by (intro failed [of e c1]) auto
      next
        case None
        then have r: "es = []" "err = None" "c' = c1" "ing' = ing1"
          using assms x Inr b i1 secs u by (simp_all add: ReconcileV1Ingress_def)
        show thesis using x Inr b u None same secs by (intro synced [of services eps secs]) (simp_all add: r)
      qed
    qed
  qed
qed

lemma kube_named_cong:
  "ing_namespace ing' = ing_namespace ing \<Longrightarrow> ing_name ing' = ing_name ing \<Longrightarrow> kube_named ing' = kube_named ing"
  by (simp add: kube_named_def)

lemma reconcile_reachable:
  assumes "ReconcileV1Ingress E opts io r ch ing c = Some (es, err, c', ing')"
    and "reachable E c" and "kube_named ing"
  shows "reachable E c'"
  using assms(1)
proof (cases rule: ReconcileV1Ingress_cases)
  case (failed e c1)
  then have "kube_named ing'" using assms(3) kube_named_cong by blast
  then have "reachable E c1"
    using failed(2) assms(2) by (blast intro: reachable.step cb_step.update_ingress)
  then show ?thesis using failed(3) by (blast intro: reachable.step cb_step.delete_ingress)
next
  case (synced services eps secs)
  then have "kube_named ing'" using assms(3) kube_named_cong by blast
  then show ?thesis using synced(3) assms(2) by (blast intro: reachable.step cb_step.update_ingress)
qed

context builder_maps
begin

lemma cb_delete_removes:
  assumes "cb_DeleteIngress E io ch ns n c = (es, c')" and "cb_ok c"
  shows "(\<forall>k r. sd_view_of (serverDataConf c') k = Some r \<longrightarrow> r_ingress r \<noteq> NamespacedName ns n) \<and>
    (\<forall>x. (NamespacedName ns n, x) \<notin> R2 (ingress2Cluster (clusterConf c'))) \<and>
    (\<forall>x. (NamespacedName ns n, x) \<notin> R2 (ingress2secret (tlsConf c')))"
proof -
  obtain es1 t1 where t: "tls_DeleteIngress (cb_tls E) io (cc_sched ch) (cc_tls_now ch) ns n (tlsConf c) = (es1, t1)"
    by (metis surj_pair)
  have c': "c' = c\<lparr>serverDataConf := sd_DeleteIngress (cb_sd E) (cc_sd ch) ns n (serverDataConf c),
      clusterConf := cl_DeleteIngress (cb_cl E) (cc_cl_now ch) ns n (clusterConf c), tlsConf := t1\<rparr>"
    using assms(1) t by (simp add: cb_DeleteIngress_def Let_def)
  have wf: "wf_cache R1 (routeRuleCache (serverDataConf c))" and tls: "tls_ok (cb_tls E) R2 (tlsConf c)"
    using assms(2) by (simp_all add: cb_ok_def)
  have "(NamespacedName ns n, x) \<notin> R2 (ingress2secret t1)" for x
  proof (cases "mm_contains_key (tls_strs (cb_tls E)) (ingress2secret (tlsConf c)) (NamespacedName ns n)")
    case True
    then show ?thesis using tls.delete_ingress_certs(1) [OF t tls True] by simp
  next
    case False
    then show ?thesis using t by (auto simp: tls_DeleteIngress_def tls.contains_key)
  qed
  moreover have "sd_view_of (serverDataConf c') k = Some r \<Longrightarrow> r_ingress r \<noteq> NamespacedName ns n" for k r
    using sd.delete_ingress_view [OF wf, of "cc_sd ch" ns n] unfolding c' by (simp add: without_Some)
  moreover have "(NamespacedName ns n, x) \<notin> R2 (ingress2Cluster (clusterConf c'))" for x
    unfolding c' by (simp add: cl.delete_ingress_pairs)
  ultimately show ?thesis unfolding c' by simp
qed

lemma cb_update_serves:
  assumes "cb_UpdateIngress E ch ing services eps secs c = Some (None, c')" and "reachable E c" and "kube_named ing"
    and "(h, p) \<in> set (paths_of ing)"
  shows "\<exists>r. sd_view_of (serverDataConf c') (rule_host h, rule_path p, cond_of (ing_annots ing)) = Some r \<and>
    r_time r = ing_created ing \<and> mget (table (clusterConf c')) (r_cluster r) \<noteq> None"
proof -
  obtain s1 where 1: "sd_UpdateIngress (cb_sd E) (cc_sd ch) ing (serverDataConf c) = Some (None, s1)"
    "serverDataConf c' = s1"
    using assms(1) by (auto simp: cb_UpdateIngress_def split: option.splits prod.splits)
  have ok: "cb_ok c" by (rule reachable_ok [OF assms(2)])
  have ok': "cb_ok c'" by (rule update_ingress_ok [OF assms(1) ok assms(3)])
  have "ing_rules ing \<noteq> []" using assms(4) by (auto simp: paths_of_def)
  moreover have "wf_cache R1 (routeRuleCache (serverDataConf c))" using ok by (simp add: cb_ok_def)
  ultimately have v: "spec_puts (rules_for (sd_next_addr (serverDataConf c)) ing)
      (without (ingress_name ing) (sd_view_of (serverDataConf c))) = (None, sd_view_of s1)"
    using sd.update_ok_view [OF 1(1)] by blast
  let ?n = "sd_next_addr (serverDataConf c)"
  have "(h, p) \<in> snd ` set (List.enumerate ?n (paths_of ing))"
    using assms(4) by (metis list.set_map map_snd_enumerate)
  then obtain a where "(a, h, p) \<in> set (List.enumerate ?n (paths_of ing))" by auto
  then have q: "rule_for ing (a, h, p) \<in> set (rules_for ?n ing)" by (simp add: rules_for_def)
  have "\<exists>r. sd_view_of s1 (rule_key (rule_for ing (a, h, p))) = Some r \<and> r_time r = ing_created ing"
  proof -
    have "\<exists>r. snd (spec_puts (rules_for ?n ing) (without (ingress_name ing) (sd_view_of (serverDataConf c))))
        (rule_key (rule_for ing (a, h, p))) = Some r \<and> r_time r = ing_created ing"
      by (rule spec_puts_present [OF _ _ q]) (use v in \<open>auto simp: rules_for_def\<close>)
    then show ?thesis unfolding v snd_conv .
  qed
  then obtain r where r: "sd_view_of s1 (rule_host h, rule_path p, cond_of (ing_annots ing)) = Some r"
    "r_time r = ing_created ing" by (auto simp: rule_key_def)
  then have "(r_ingress r, r_cluster r) \<in> R2 (ingress2Cluster (clusterConf c'))"
    using ok' linkedD 1(2) unfolding cb_ok_def by blast
  then have "mget (table (clusterConf c')) (r_cluster r) \<noteq> None"
    using ok' unfolding cb_ok_def cl.owned_def by blast
  then show ?thesis using r 1(2) by blast
qed

text \<open>After an update a rule is one that another ingress had before, or the rule of a path of the ingress.\<close>

lemma cb_update_source:
  assumes "cb_UpdateIngress E ch ing services eps secs c = Some (None, c')" and "reachable E c"
    and "ing_rules ing \<noteq> []" and "sd_view_of (serverDataConf c') (h, p, a) = Some r"
  shows "(r_ingress r \<noteq> ingress_name ing \<and> sd_view_of (serverDataConf c) (h, p, a) = Some r) \<or>
    (r_ingress r = ingress_name ing \<and> (\<exists>x \<in> set (paths_of ing). rule_host (fst x) = h \<and>
       rule_path (snd x) = p \<and> r_cluster r = cluster_name ing (snd x)))"
proof -
  obtain s1 where 1: "sd_UpdateIngress (cb_sd E) (cc_sd ch) ing (serverDataConf c) = Some (None, s1)"
    "serverDataConf c' = s1"
    using assms(1) by (auto simp: cb_UpdateIngress_def split: option.splits prod.splits)
  have wf: "wf_cache R1 (routeRuleCache (serverDataConf c))"
    using reachable_ok [OF assms(2)] by (simp add: cb_ok_def)
  have "wf_cache R1 (routeRuleCache s1)" by (rule sd.update_wf [OF 1(1) wf])
  moreover have "r \<in> set (rules_at (ruleMap (routeRuleCache s1)) h p)"
    using assms(4) by (auto simp: 1(2) route_view_def find_Some_iff)
  ultimately have at: "r_host r = h \<and> r_path r = p"
    unfolding wf_cache_def by (blast dest: group_okD)
  have "spec_puts (rules_for (sd_next_addr (serverDataConf c)) ing)
      (without (ingress_name ing) (sd_view_of (serverDataConf c))) = (None, sd_view_of s1)"
    using sd.update_ok_view [OF 1(1) wf assms(3)] by blast
  then have "snd (spec_puts (rules_for (sd_next_addr (serverDataConf c)) ing)
      (without (ingress_name ing) (sd_view_of (serverDataConf c)))) (h, p, a) = Some r"
    using assms(4) by (simp add: 1(2))
  from spec_puts_source [OF this] show ?thesis
  proof
    assume "without (ingress_name ing) (sd_view_of (serverDataConf c)) (h, p, a) = Some r"
    then show ?thesis by (simp add: without_Some)
  next
    assume "r \<in> set (rules_for (sd_next_addr (serverDataConf c)) ing)"
    then have "r_ingress r = ingress_name ing" and "\<exists>x \<in> set (paths_of ing). r_host r = rule_host (fst x) \<and>
        r_path r = rule_path (snd x) \<and> r_cluster r = cluster_name ing (snd x)"
      using rules_for_path by blast+
    then show ?thesis using at by metis
  qed
qed

end

subsection \<open>Status\<close>

lemma status_written_lookup:
  "ann_find (status_written err a) k =
     (if k = StatusAnnotationKey then Some (GenErrorMsg err) else ann_find a k)"
  by (auto simp: status_written_def ann_find_def split: option.splits)

lemma other_names [simp]:
  "CookieAnnotation \<noteq> StatusAnnotationKey" "HeaderAnnotation \<noteq> StatusAnnotationKey"
  "WeightAnnotation \<noteq> StatusAnnotationKey" "IngressClassKey \<noteq> StatusAnnotationKey"
  by (simp_all add: annotation_names)

end
