(* ===== verification/Controller_Loop.thy ===== *)
theory Controller_Loop
  imports Startup
begin

text \<open>
  The controller at work: the requests an event of an object becomes, the reconcile a request is
  handled by, and the run of the registered controllers over a sequence of events and reload
  ticks. All of them change the builder under its lock, so a run is a sequence.
\<close>

subsection \<open>Requests\<close>

text \<open>
  Every watch of a registered controller sees the event: one of its kind that passes its predicate
  becomes requests to the reconciler of the controller.
\<close>

definition watch_requests :: "options \<Rightarrow> object_event \<Rightarrow> watch \<Rightarrow> (string \<times> string) list" where
  "watch_requests opts e w =
     (if wa_kind w = oe_kind e \<and> wa_predicate w opts (oe_namespace e) then wa_requests w e else [])"

definition requests :: "options \<Rightarrow> controller list \<Rightarrow> object_event \<Rightarrow> (reconciler \<times> string \<times> string) list" where
  "requests opts cts e =
     concat (map (\<lambda>ct. map (Pair (ct_reconciler ct)) (concat (map (watch_requests opts e) (ct_watches ct)))) cts)"

subsection \<open>Handling a request\<close>

text \<open>What a reconcile finds outside, and what it leaves to the run time.\<close>

record world =
  wo_io :: io_env
  wo_kube :: kube
  wo_beta :: "string \<Rightarrow> string \<Rightarrow> error + beta_ingress"
  wo_rec :: rec_choice
  wo_choice :: cb_choice

text \<open>
  The result of a reconcile is its effects on the configuration files, its error, for which the
  manager calls it again later, and the new builder. The reconcilers of services and secrets
  return no error on any path.
\<close>

definition handle ::
  "(json_error \<Rightarrow> string) \<Rightarrow> ('m, 'n) cb_env \<Rightarrow> options \<Rightarrow> world \<Rightarrow> reconciler \<times> string \<times> string \<Rightarrow>
     ('m, 'n) builder \<Rightarrow> (effect list \<times> error option \<times> ('m, 'n) builder) option" where
  "handle jt E opts w req c =
     (case req of (r, namespace, name) \<Rightarrow>
        (case r of
           Ingress_Reconciler v \<Rightarrow>
             (case v of
                NetV1 \<Rightarrow> map_option (\<lambda>(es, _, err, c1). (es, err, c1))
                  (Reconcile jt E opts (wo_io w) (wo_kube w) (wo_rec w) namespace name c)
              | NetV1beta1 \<Rightarrow> map_option (\<lambda>(es, _, err, c1). (es, err, c1))
                  (netv1beta1_Reconcile jt E opts (wo_io w) (wo_kube w) (wo_beta w) (wo_rec w) namespace name c)
              | ExtV1beta1 \<Rightarrow> map_option (\<lambda>(es, _, err, c1). (es, err, c1))
                  (extv1beta1_Reconcile jt E opts (wo_io w) (wo_kube w) (wo_beta w) (wo_rec w) namespace name c))
         | Service_Reconciler \<Rightarrow>
             map_option (\<lambda>c1. ([], None, c1)) (service_Reconcile E (wo_kube w) (wo_choice w) namespace name c)
         | Secret_Reconciler \<Rightarrow>
             Some ([], None, secret_Reconcile E (wo_kube w) (wo_choice w) namespace name c)))"

subsection \<open>A run of the controller\<close>

datatype loop_event = Object object_event world | Reload schedule io_env

fun handle_all ::
  "(json_error \<Rightarrow> string) \<Rightarrow> ('m, 'n) cb_env \<Rightarrow> options \<Rightarrow> world \<Rightarrow> (reconciler \<times> string \<times> string) list \<Rightarrow>
     ('m, 'n) builder \<Rightarrow> trace \<Rightarrow> (trace \<times> ('m, 'n) builder) option" where
  "handle_all jt E opts w [] c h = Some (h, c)"
| "handle_all jt E opts w (q # qs) c h =
     (case handle jt E opts w q c of
        None \<Rightarrow> None
      | Some (es, _, c1) \<Rightarrow> handle_all jt E opts w qs c1 (h @ es))"

text \<open>\<open>None\<close>: a handler panicked, which ends the process.\<close>

fun controller_run ::
  "(json_error \<Rightarrow> string) \<Rightarrow> ('m, 'n) cb_env \<Rightarrow> options \<Rightarrow> controller list \<Rightarrow> cb_marshal \<Rightarrow> loop_event list \<Rightarrow>
     ('m, 'n) builder \<Rightarrow> trace \<Rightarrow> (trace \<times> ('m, 'n) builder) option" where
  "controller_run jt E opts cts mj [] c h = Some (h, c)"
| "controller_run jt E opts cts mj (Object e w # rest) c h =
     (case handle_all jt E opts w (requests opts cts e) c h of
        None \<Rightarrow> None
      | Some (h1, c1) \<Rightarrow> controller_run jt E opts cts mj rest c1 h1)"
| "controller_run jt E opts cts mj (Reload sch io # rest) c h =
     (case cb_reload mj sch io c h of ((_, h1), c1) \<Rightarrow> controller_run jt E opts cts mj rest c1 h1)"

end
