(* ===== verification/Startup_Spec.thy ===== *)
theory Startup_Spec
  imports Startup
begin

text \<open>
  What the start of the controller does: a prefix of a fixed list of steps that stops at the first
  failure, the controllers it registers, and the choice of the API, which grows with the text of
  the version.
\<close>

subsection \<open>The steps of the start\<close>

lemma run_steps_prefix:
  assumes "run_steps env ss = (d, err)"
  shows "(\<exists>rest. ss = d @ rest) \<and> (err = None \<longleftrightarrow> d = ss \<and> list_all (\<lambda>s. step_fails env s = None) ss) \<and>
    list_all (\<lambda>s. step_fails env s = None) (butlast d)"
  using assms
proof (induction ss arbitrary: d err)
  case (Cons s ss)
  obtain d1 e1 where d: "run_steps env ss = (d1, e1)" by (metis surj_pair)
  show ?case using Cons.prems Cons.IH [OF d] d by (cases "step_fails env s") auto
qed simp

lemma run_steps_append:
  "run_steps env (ss @ ts) =
     (case run_steps env ss of
        (d, Some e) \<Rightarrow> (d, Some e)
      | (d, None) \<Rightarrow> (case run_steps env ts of (d', err) \<Rightarrow> (d @ d', err)))"
  by (induction ss) (auto split: option.splits prod.splits)

text \<open>
  The controllers a cluster of a version has once all are registered. All of them hold the same
  builder.
\<close>

definition registered :: "manager \<Rightarrow> address \<Rightarrow> api \<Rightarrow> controller list" where
  "registered mgr cb v =
     [\<lparr>ct_reconciler = Ingress_Reconciler v,
       ct_object = Ingress_Object_Of \<lparr>rr_builder = cb, rr_client = mg_client mgr, rr_scheme = mg_scheme mgr,
         rr_recorder = mg_recorder mgr ''bfe-ingress-controller''\<rparr>,
       ct_watches = [For (Ingress_Object v) NamespaceFilter]\<rparr>,
      \<lparr>ct_reconciler = Service_Reconciler,
       ct_object = Resource_Object_Of \<lparr>rr_builder = cb, rr_client = mg_client mgr, rr_scheme = mg_scheme mgr\<rparr>,
       ct_watches = [For Service_Object NamespaceFilter, For Endpoints_Object NamespaceFilter]\<rparr>,
      \<lparr>ct_reconciler = Secret_Reconciler,
       ct_object = Resource_Object_Of \<lparr>rr_builder = cb, rr_client = mg_client mgr, rr_scheme = mg_scheme mgr\<rparr>,
       ct_watches = [For Secret_Object NamespaceFilter]\<rparr>]"

definition registration_steps :: "start_env \<Rightarrow> start_step list" where
  "registration_steps env =
     [Server_Version, Register (Ingress_Reconciler (select_api (se_major env) (se_minor env))),
      Register Service_Reconciler, Register Secret_Reconciler]"

lemma addController_steps:
  assumes "addController env cb (new_manager env) = (d, err, mgr)"
  shows "d = fst (run_steps env (registration_steps env)) \<and>
    (err = None \<longleftrightarrow> snd (run_steps env (registration_steps env)) = None) \<and>
    (err = None \<longrightarrow>
      mg_controllers mgr = registered (new_manager env) cb (select_api (se_major env) (se_minor env)))"
  using assms
  by (cases "select_api (se_major env) (se_minor env)")
    (auto simp: addController_def add_ingress_def setup_defs reconciler_defs new_manager_def registration_steps_def
      registered_def For_def Let_def split: option.splits)

text \<open>All steps, in order; what is done is a prefix of them that stops at the first failure.\<close>

definition start_steps :: "options \<Rightarrow> start_env \<Rightarrow> start_step list" where
  "start_steps opts env =
     ([Get_Config, New_Manager (MetricsAddr opts) (HealthProbeAddr opts), Add_Healthz, Add_Readyz,
       Init_Reload (se_builder env) (ReloadInterval (Ingress opts))] @ registration_steps env) @ [startBFE opts, Run_Manager]"

lemma Start_run_steps:
  assumes "Start opts env = (d, err, mgr)"
  shows "d = fst (run_steps env (start_steps opts env)) \<and>
    (err = None \<longleftrightarrow> snd (run_steps env (start_steps opts env)) = None) \<and>
    (err = None \<longrightarrow>
      mg_controllers mgr = registered (new_manager env) (se_builder env) (select_api (se_major env) (se_minor env)))"
proof -
  obtain s2 e2 m2 where a: "addController env (se_builder env) (new_manager env) = (s2, e2, m2)" by (metis prod.exhaust)
  obtain s2' e2' where r: "run_steps env (registration_steps env) = (s2', e2')" by (metis prod.exhaust)
  show ?thesis
    using assms addController_steps [OF a] unfolding Start_def Let_def start_steps_def run_steps_append a r
    by (auto simp del: run_steps.simps split: prod.splits option.splits)
qed

lemma start_runs_a_prefix:
  assumes "Start opts env = (d, err, mgr)"
  shows "(\<exists>rest. start_steps opts env = d @ rest) \<and>
    (err = None \<longleftrightarrow> d = start_steps opts env \<and>
      list_all (\<lambda>s. step_fails env s = None) (start_steps opts env)) \<and>
    list_all (\<lambda>s. step_fails env s = None) (butlast d)"
  using Start_run_steps [OF assms] run_steps_prefix [OF surjective_pairing] by simp

text \<open>The builder that is reloaded is the one every reconciler changes.\<close>

lemma controllers_share_builder:
  assumes "Start opts env = (d, None, mgr)"
  shows "Init_Reload (se_builder env) (ReloadInterval (Ingress opts)) \<in> set d \<and>
    (\<forall>ct \<in> set (mg_controllers mgr). builder_of (ct_object ct) = se_builder env)"
proof -
  have "d = start_steps opts env" using start_runs_a_prefix [OF assms] by simp
  then show ?thesis using Start_run_steps [OF assms] by (simp add: registered_def start_steps_def)
qed

text \<open>
  The text order of the version numbers is the order of the APIs: a version whose texts are both
  larger never gets an older API. (The texts do not follow the numbers.)
\<close>

lemma go_le_trans: "go_le a b \<Longrightarrow> go_le b c \<Longrightarrow> go_le a c"
proof (induction a b arbitrary: c rule: go_le.induct)
  case (3 x xs y ys)
  then show ?case by (cases c) auto
qed simp_all

lemma select_api_mono:
  assumes "go_le major major'" and "go_le minor minor'"
  shows "select_api major minor \<le> select_api major' minor'"
  using assms by (auto simp: select_api_def dest: go_le_trans)

end
