(* ===== verification/Loop_Spec.thy ===== *)
theory Loop_Spec
  imports Controller_Spec Controller_Loop Startup_Spec
begin

text \<open>
  A run of the controller is a run of the builder: every handler is a sequence of builder steps, so
  what holds in the reachable states of \<open>Builder_Spec\<close> holds after every run.
\<close>

subsection \<open>Requests\<close>

text \<open>What a reconciler watches, and the requests to the controllers of a cluster.\<close>

fun watches :: "reconciler \<Rightarrow> object_kind \<Rightarrow> bool" where
  "watches (Ingress_Reconciler v) k = (k = Ingress_Object v)"
| "watches Service_Reconciler k = (k = Service_Object \<or> k = Endpoints_Object)"
| "watches Secret_Reconciler k = (k = Secret_Object)"

lemma requests_registered:
  "requests opts (registered mgr cb v) e =
     (if NamespaceFilter opts (oe_namespace e)
      then map (\<lambda>r. (r, oe_namespace e, oe_name e))
        (filter (\<lambda>r. watches r (oe_kind e)) [Ingress_Reconciler v, Service_Reconciler, Secret_Reconciler])
      else [])"
  by (cases "oe_kind e") (auto simp: requests_def registered_def watch_requests_def For_def)

subsection \<open>Runs and reachable configurations\<close>

text \<open>The API server names objects as Kubernetes allows: without underscores.\<close>

definition world_named :: "world \<Rightarrow> bool" where
  "world_named w \<longleftrightarrow>
     (\<forall>ns n i. get_ingress (wo_kube w) ns n = Inr i \<longrightarrow> kube_named i) \<and>
     (\<forall>ns n b. wo_beta w ns n = Inr b \<longrightarrow> CHR ''_'' \<notin> set (NamespacedName (bi_namespace b) (bi_name b)))"

lemma Reconcile_reachable:
  assumes "Reconcile jt E opts io k ch ns n c = Some (es, ks, err, c')" and "reachable E c"
    and "\<forall>i. get_ingress k ns n = Inr i \<longrightarrow> kube_named i"
  shows "reachable E c'"
proof (cases "get_ingress k ns n")
  case (Inl e)
  then show ?thesis using assms(1,2)
    by (auto simp: Reconcile_def split: prod.splits intro: reachable.step cb_step.delete_ingress)
next
  case (Inr i)
  then have "c' = c \<or> (\<exists>es err i'. ReconcileV1Ingress E opts io k ch i c = Some (es, err, c', i'))"
    using assms(1) by (auto simp: Reconcile_def split: if_splits option.splits prod.splits)
  then show ?thesis using assms(2,3) Inr reconcile_reachable by blast
qed

text \<open>
  The old API versions: a reconcile deletes the ingress, leaves the builder as it is, or reconciles
  a converted ingress of the same name.
\<close>

lemma converted_reachable:
  assumes "c' = c \<or> (\<exists>es. cb_DeleteIngress E io ch' ns n c = (es, c')) \<or>
      (\<exists>b i es err i'. answer = Inr b \<and> ing_namespace i = bi_namespace b \<and> ing_name i = bi_name b \<and>
        ReconcileV1Ingress E opts io k ch i c = Some (es, err, c', i'))"
    and "reachable E c"
    and "\<forall>b. answer = Inr b \<longrightarrow> CHR ''_'' \<notin> set (NamespacedName (bi_namespace b) (bi_name b))"
  shows "reachable E c'"
  using assms(1)
proof (elim disjE exE)
  fix es assume "cb_DeleteIngress E io ch' ns n c = (es, c')"
  then show ?thesis using assms(2) by (blast intro: reachable.step cb_step.delete_ingress)
next
  fix b i es err i'
  assume i: "answer = Inr b \<and> ing_namespace i = bi_namespace b \<and> ing_name i = bi_name b \<and>
    ReconcileV1Ingress E opts io k ch i c = Some (es, err, c', i')"
  then have "kube_named i" using assms(3) by (simp add: kube_named_def)
  then show ?thesis using i assms(2) reconcile_reachable by blast
qed (use assms(2) in simp)

lemma netv1beta1_convert_names:
  "netv1beta1_convert b = Some i \<Longrightarrow> ing_namespace i = bi_namespace b \<and> ing_name i = bi_name b"
  by (auto simp: netv1beta1_convert_def)

lemma extv1beta1_convert_names:
  "extv1beta1_convert b = Some i \<Longrightarrow> ing_namespace i = bi_namespace b \<and> ing_name i = bi_name b"
  by (auto simp: extv1beta1_convert_def split: option.splits)

lemma netv1beta1_Reconcile_reachable:
  assumes "netv1beta1_Reconcile jt E opts io k get ch ns n c = Some (es, ks, err, c')" and "reachable E c"
    and "\<forall>b. get ns n = Inr b \<longrightarrow> CHR ''_'' \<notin> set (NamespacedName (bi_namespace b) (bi_name b))"
  shows "reachable E c'"
  by (rule converted_reachable [where answer = "get ns n" and io = io and ch' = "rc_delete ch" and ns = ns and n = n and opts = opts and k = k and ch = ch, OF _ assms(2,3)])
    (use assms(1) in \<open>fastforce simp: netv1beta1_Reconcile_def netv1beta1_convert_def
      split: sum.splits if_splits option.splits prod.splits\<close>)

lemma extv1beta1_Reconcile_reachable:
  assumes "extv1beta1_Reconcile jt E opts io k get ch ns n c = Some (es, ks, err, c')" and "reachable E c"
    and "\<forall>b. get ns n = Inr b \<longrightarrow> CHR ''_'' \<notin> set (NamespacedName (bi_namespace b) (bi_name b))"
  shows "reachable E c'"
  by (rule converted_reachable [where answer = "get ns n" and io = io and ch' = "rc_delete ch" and ns = ns and n = n and opts = opts and k = k and ch = ch, OF _ assms(2,3)])
    (use assms(1) in \<open>fastforce simp: extv1beta1_Reconcile_def extv1beta1_convert_def
      split: sum.splits if_splits option.splits prod.splits\<close>)

lemma service_Reconcile_reachable:
  assumes "service_Reconcile E k ch ns n c = Some c'" and "reachable E c"
  shows "reachable E c'"
  using assms by (auto simp: service_Reconcile_def split: sum.splits intro: reachable.step cb_step.update_service)

lemma secret_Reconcile_reachable: "reachable E c \<Longrightarrow> reachable E (secret_Reconcile E k ch ns n c)"
  by (auto simp: secret_Reconcile_def split: sum.splits intro: reachable.step cb_step.update_secret [OF surjective_pairing])

lemma handle_reachable:
  assumes "handle jt E opts w req c = Some (es, err, c')" and "reachable E c" and "world_named w"
  shows "reachable E c'"
proof -
  obtain r ns n where req: "req = (r, ns, n)" by (cases req)
  note names = assms(3) [unfolded world_named_def]
  show ?thesis
  proof (cases r)
    case (Ingress_Reconciler v)
    then show ?thesis using assms(1,2) names req
      by (auto simp: handle_def split: api.splits
          intro: Reconcile_reachable netv1beta1_Reconcile_reachable extv1beta1_Reconcile_reachable)
  next
    case Service_Reconciler
    then show ?thesis using assms(1,2) req by (auto simp: handle_def intro: service_Reconcile_reachable)
  next
    case Secret_Reconciler
    then show ?thesis using assms(1,2) req by (auto simp: handle_def intro: secret_Reconcile_reachable)
  qed
qed

lemma handle_all_reachable:
  "handle_all jt E opts w qs c h = Some (h', c') \<Longrightarrow> reachable E c \<Longrightarrow> world_named w \<Longrightarrow> reachable E c'"
  by (induction qs arbitrary: c h) (auto split: option.splits prod.splits dest: handle_reachable)

text \<open>The worlds of a run.\<close>

definition run_named :: "loop_event list \<Rightarrow> bool" where
  "run_named evs \<longleftrightarrow> list_all (\<lambda>ev. case ev of Object _ w \<Rightarrow> world_named w | Reload _ _ \<Rightarrow> True) evs"

lemma run_reachable:
  assumes "controller_run jt E opts cts mj evs c h = Some (h', c')" and "reachable E c" and "run_named evs"
  shows "reachable E c'"
  using assms
proof (induction evs arbitrary: c h)
  case (Cons ev evs)
  show ?case
  proof (cases ev)
    case (Object e w)
    then obtain h1 c1 where q: "handle_all jt E opts w (requests opts cts e) c h = Some (h1, c1)"
      and r: "controller_run jt E opts cts mj evs c1 h1 = Some (h', c')"
      using Cons.prems(1) by (auto split: option.splits)
    have "reachable E c1"
      by (rule handle_all_reachable [OF q Cons.prems(2)]) (use Cons.prems(3) Object in \<open>simp add: run_named_def\<close>)
    then show ?thesis by (rule Cons.IH [OF r]) (use Cons.prems(3) in \<open>simp add: run_named_def\<close>)
  next
    case (Reload sch io)
    then obtain out c1 h1 where q: "cb_reload mj sch io c h = (out, c1)"
      and r: "controller_run jt E opts cts mj evs c1 h1 = Some (h', c')"
      using Cons.prems(1) by (auto split: prod.splits)
    have "reachable E c1" using Cons.prems(2) q by (blast intro: reachable.step cb_step.tick)
    then show ?thesis by (rule Cons.IH [OF r]) (use Cons.prems(3) in \<open>simp add: run_named_def\<close>)
  qed
qed simp

end
