(* ===== verification/Loop_Disk.thy ===== *)
theory Loop_Disk
  imports Disk_Runs Loop_Spec
begin

text \<open>
  Runs of the registered controllers together with the disk: every request is a sequence of builder
  operations, so such a run is one of \<open>Disk_Runs\<close>.
\<close>

subsection \<open>One request\<close>

text \<open>The world of a request: fresh clock readings, one directory, objects Kubernetes allows.\<close>

definition world_fresh :: "world \<Rightarrow> ('m, 'n) builder \<Rightarrow> bool" where
  "world_fresh w c \<longleftrightarrow> fresh (rc_update (wo_rec w)) c \<and> fresh (rc_delete (wo_rec w)) c \<and> fresh (wo_choice w) c"

definition world_paths :: "world \<Rightarrow> bool" where
  "world_paths w \<longleftrightarrow>
     (\<forall>ns n i. get_ingress (wo_kube w) ns n = Inr i \<longrightarrow> kube_paths i) \<and>
     (\<forall>ns n b. wo_beta w ns n = Inr b \<longrightarrow> (\<forall>rule \<in> set (bi_rules b). br_http rule \<noteq> Some []))"

lemma world_fresh_cong: "confirmed_versions c' = confirmed_versions c \<Longrightarrow> world_fresh w c' = world_fresh w c"
  by (simp add: world_fresh_def fresh_def)

lemma netv1beta1_paths_Nil: "netv1beta1_paths ps = Some [] \<longleftrightarrow> ps = []"
  by (cases ps) (auto split: option.splits)

lemma netv1beta1_rules_paths:
  "netv1beta1_rules rs = Some rs' \<Longrightarrow> \<forall>r \<in> set rs. br_http r \<noteq> Some [] \<Longrightarrow> \<forall>r \<in> set rs'. ir_http r \<noteq> Some []"
  by (induction rs arbitrary: rs') (auto simp: netv1beta1_paths_Nil split: option.splits)

lemma extv1beta1_paths_length: "extv1beta1_paths ps out = Some qs \<Longrightarrow> length qs = length out + length ps"
  by (induction ps arbitrary: out) (auto split: option.splits)

lemma extv1beta1_rules_paths:
  "extv1beta1_rules rs out = Some rs' \<Longrightarrow> \<forall>r \<in> set rs. br_http r \<noteq> Some [] \<Longrightarrow>
     \<forall>r \<in> set out. ir_http r \<noteq> Some [] \<Longrightarrow> \<forall>r \<in> set rs'. ir_http r \<noteq> Some []"
proof (induction rs arbitrary: out)
  case (Cons r rs)
  obtain ps qs where r: "br_http r = Some ps" "extv1beta1_paths ps [] = Some qs"
    "extv1beta1_rules rs (out @ [\<lparr>ir_host = br_host r, ir_http = Some qs\<rparr>]) = Some rs'"
    using Cons.prems(1) by (auto split: option.splits)
  have "qs \<noteq> []" using Cons.prems(2) r(1) extv1beta1_paths_length [OF r(2)] by auto
  then show ?case using Cons.IH [OF r(3)] Cons.prems by simp
qed simp

lemma converted_paths:
  assumes "\<forall>rule \<in> set (bi_rules b). br_http rule \<noteq> Some []"
  shows "netv1beta1_convert b = Some i \<Longrightarrow> kube_paths i" and "extv1beta1_convert b = Some i \<Longrightarrow> kube_paths i"
  using assms netv1beta1_rules_paths extv1beta1_rules_paths
  by (fastforce simp: netv1beta1_convert_def extv1beta1_convert_def kube_paths_def split: option.splits)+

subsection \<open>Reconciling\<close>

text \<open>The outcome of an operation: the builder is reached with its effects on the disk, and no version is confirmed.\<close>

definition disk_leads ::
  "('m, 'n) cb_env \<Rightarrow> cb_marshal \<Rightarrow> io_env \<Rightarrow> ('m, 'n) builder \<Rightarrow> effect list \<Rightarrow> ('m, 'n) builder \<Rightarrow> bool" where
  "disk_leads E mj io c es c' \<longleftrightarrow> confirmed_versions c' = confirmed_versions c \<and>
     (\<forall>h d d'. disk_reachable E mj (io_config_path io) c h d \<longrightarrow> disk_run io h es d d' \<longrightarrow>
        disk_reachable E mj (io_config_path io) c' (h @ es) d')"

lemma leads_refl: "disk_leads E mj io c [] c"
  by (simp add: disk_leads_def)

lemma leads_trans:
  assumes "disk_leads E mj io c es c'" and "disk_leads E mj io c' es' c''"
  shows "disk_leads E mj io c (es @ es') c''"
  using assms unfolding disk_leads_def disk_run_append by (metis append.assoc)

lemma leads_update:
  assumes "multimap (cl_strs (cb_cl E)) R" and "cb_UpdateIngress E ch ing svcs eps secs c = Some (err, c')"
    and "fresh ch c" and "kube_named ing" and "kube_paths ing"
  shows "disk_leads E mj io c [] c'"
  using refreshed_versions [OF cb_update_refreshed [OF assms(1,2,5)]] disk_reachable.updates_ingress assms(2-5)
  unfolding disk_leads_def by (metis append.right_neutral disk_run_Nil)

lemma leads_delete:
  assumes "cb_DeleteIngress E io ch ns n c = (es, c')" and "fresh ch c"
  shows "disk_leads E mj io c es c'"
  using refreshed_versions [OF cb_delete_refreshed [OF assms(1)]] disk_reachable.deletes_ingress [OF _ assms(2) refl assms(1)]
  unfolding disk_leads_def by blast

lemma leads_reconcile:
  assumes "multimap (cl_strs (cb_cl E)) R" and "ReconcileV1Ingress E opts io k ch i c = Some (es, err, c', i')"
    and "fresh (rc_update ch) c" and "fresh (rc_delete ch) c" and "kube_named i" and "kube_paths i"
  shows "disk_leads E mj io c es c'"
  using assms(2)
proof (cases rule: ReconcileV1Ingress_cases)
  case (failed e c1)
  have "kube_named i'" "kube_paths i'"
    using assms(5,6) kube_named_cong [OF failed(4,5)] failed(6) by (simp_all add: kube_paths_def)
  then have "disk_leads E mj io c [] c1"
    using failed(2) leads_refl leads_update [OF assms(1) _ assms(3)] by blast
  moreover from this have "fresh (rc_delete ch) c1" using assms(4) fresh_cong by (simp add: disk_leads_def fresh_def)
  ultimately show ?thesis using leads_trans leads_delete [OF failed(3)] by fastforce
next
  case (synced services eps secs)
  have "kube_named i'" "kube_paths i'"
    using assms(5,6) kube_named_cong [OF synced(6,7)] synced(8) by (simp_all add: kube_paths_def)
  then show ?thesis using leads_update [OF assms(1) synced(3) assms(3)] synced(2) by simp
qed

text \<open>An ingress of an old API version: a deletion, nothing, or a converted ingress.\<close>

lemma leads_converted:
  assumes "multimap (cl_strs (cb_cl E)) R"
    and "c' = c \<and> es = [] \<or> cb_DeleteIngress E io (rc_delete ch) ns n c = (es, c') \<or>
      (\<exists>i err i'. kube_named i \<and> kube_paths i \<and> ReconcileV1Ingress E opts io k ch i c = Some (es, err, c', i'))"
    and "fresh (rc_update ch) c" and "fresh (rc_delete ch) c"
  shows "disk_leads E mj io c es c'"
  using assms(2)
proof (elim disjE exE conjE)
  fix i err i'
  assume i: "kube_named i" "kube_paths i" and r: "ReconcileV1Ingress E opts io k ch i c = Some (es, err, c', i')"
  show ?thesis by (rule leads_reconcile [OF assms(1) r assms(3,4) i])
qed (use leads_refl leads_delete assms(4) in blast)+

lemma leads_v1:
  assumes "multimap (cl_strs (cb_cl E)) R" and "Reconcile jt E opts io k ch ns n c = Some (es, ks, err, c')"
    and "fresh (rc_update ch) c" and "fresh (rc_delete ch) c"
    and "\<forall>i. get_ingress k ns n = Inr i \<longrightarrow> kube_named i \<and> kube_paths i"
  shows "disk_leads E mj io c es c'"
proof (rule leads_converted [OF assms(1) _ assms(3,4)])
  show "c' = c \<and> es = [] \<or> cb_DeleteIngress E io (rc_delete ch) ns n c = (es, c') \<or>
      (\<exists>i err i'. kube_named i \<and> kube_paths i \<and> ReconcileV1Ingress E opts io k ch i c = Some (es, err, c', i'))"
    using assms(2,5) by (cases "get_ingress k ns n")
      (auto simp: Reconcile_def split: if_splits option.splits prod.splits)
qed

lemma leads_netv1beta1:
  assumes "multimap (cl_strs (cb_cl E)) R" and "netv1beta1_Reconcile jt E opts io k get ch ns n c = Some (es, ks, err, c')"
    and "fresh (rc_update ch) c" and "fresh (rc_delete ch) c"
    and "\<forall>ns n b i. get ns n = Inr b \<longrightarrow> netv1beta1_convert b = Some i \<longrightarrow> kube_named i \<and> kube_paths i"
  shows "disk_leads E mj io c es c'"
proof (rule leads_converted [OF assms(1) _ assms(3,4)])
  show "c' = c \<and> es = [] \<or> cb_DeleteIngress E io (rc_delete ch) ns n c = (es, c') \<or>
      (\<exists>i err i'. kube_named i \<and> kube_paths i \<and> ReconcileV1Ingress E opts io k ch i c = Some (es, err, c', i'))"
    using assms(2,5) by (cases "get ns n")
      (auto simp: netv1beta1_Reconcile_def split: if_splits option.splits prod.splits)
qed

lemma leads_extv1beta1:
  assumes "multimap (cl_strs (cb_cl E)) R" and "extv1beta1_Reconcile jt E opts io k get ch ns n c = Some (es, ks, err, c')"
    and "fresh (rc_update ch) c" and "fresh (rc_delete ch) c"
    and "\<forall>ns n b i. get ns n = Inr b \<longrightarrow> extv1beta1_convert b = Some i \<longrightarrow> kube_named i \<and> kube_paths i"
  shows "disk_leads E mj io c es c'"
proof (rule leads_converted [OF assms(1) _ assms(3,4)])
  show "c' = c \<and> es = [] \<or> cb_DeleteIngress E io (rc_delete ch) ns n c = (es, c') \<or>
      (\<exists>i err i'. kube_named i \<and> kube_paths i \<and> ReconcileV1Ingress E opts io k ch i c = Some (es, err, c', i'))"
    using assms(2,5) by (cases "get ns n")
      (auto simp: extv1beta1_Reconcile_def split: if_splits option.splits prod.splits)
qed

lemma leads_service:
  assumes "service_Reconcile E k ch ns n c = Some c'" and "fresh ch c"
  shows "disk_leads E mj io c [] c'"
proof -
  have "c' = c \<or> (\<exists>svc ep. cb_UpdateService E ch svc ep c = Some c')"
    using assms(1) by (simp add: service_Reconcile_def split: sum.splits) blast+
  then show ?thesis
  proof (elim disjE exE)
    fix svc ep assume u: "cb_UpdateService E ch svc ep c = Some c'"
    show ?thesis
      using refreshed_versions [OF cb_update_service_refreshed [OF u]] disk_reachable.updates_service [OF _ assms(2) u]
      by (simp add: disk_leads_def)
  qed (simp add: leads_refl)
qed

lemma leads_secret:
  assumes "fresh ch c"
  shows "disk_leads E mj io c [] (secret_Reconcile E k ch ns n c)"
proof -
  show ?thesis
  proof (cases "get_secret k ns n")
    case (Inl e)
    then show ?thesis by (simp add: secret_Reconcile_def leads_refl)
  next
    case (Inr sec)
    then have u: "cb_UpdateSecret E ch sec c = (fst (cb_UpdateSecret E ch sec c), secret_Reconcile E k ch ns n c)"
      by (simp add: secret_Reconcile_def)
    show ?thesis
      using refreshed_versions [OF cb_update_secret_refreshed [OF u]] disk_reachable.updates_secret [OF _ assms u]
      by (simp add: disk_leads_def)
  qed
qed

lemma leads_handle:
  assumes "multimap (cl_strs (cb_cl E)) R" and "handle jt E opts w (r, ns, n) c = Some (es, err, c')"
    and "world_fresh w c" and "world_named w" and "world_paths w"
  shows "disk_leads E mj (wo_io w) c es c'"
proof -
  have f: "fresh (rc_update (wo_rec w)) c" "fresh (rc_delete (wo_rec w)) c" "fresh (wo_choice w) c"
    using assms(3) by (simp_all add: world_fresh_def)
  have v1: "\<forall>i. get_ingress (wo_kube w) ns n = Inr i \<longrightarrow> kube_named i \<and> kube_paths i"
    using assms(4,5) by (simp add: world_named_def world_paths_def)
  have nb: "\<forall>ns n b i. wo_beta w ns n = Inr b \<longrightarrow> netv1beta1_convert b = Some i \<longrightarrow> kube_named i \<and> kube_paths i"
    and ext: "\<forall>ns n b i. wo_beta w ns n = Inr b \<longrightarrow> extv1beta1_convert b = Some i \<longrightarrow> kube_named i \<and> kube_paths i"
    using assms(4,5) converted_paths netv1beta1_convert_names extv1beta1_convert_names
    unfolding world_named_def world_paths_def kube_named_def by metis+
  show ?thesis
  proof (cases r)
    case (Ingress_Reconciler v)
    then show ?thesis using assms(2) leads_v1 [OF assms(1) _ f(1,2) v1] leads_netv1beta1 [OF assms(1) _ f(1,2) nb]
      leads_extv1beta1 [OF assms(1) _ f(1,2) ext]
      by (cases v) (auto simp: handle_def)
  next
    case Service_Reconciler
    then show ?thesis using assms(2) leads_service [OF _ f(3)] by (auto simp: handle_def)
  next
    case Secret_Reconciler
    then show ?thesis using assms(2) leads_secret [OF f(3)] by (auto simp: handle_def)
  qed
qed

lemma leads_handle_all:
  assumes "multimap (cl_strs (cb_cl E)) R" and "world_named w" and "world_paths w"
  shows "handle_all jt E opts w qs c h = Some (h', c') \<Longrightarrow> world_fresh w c \<Longrightarrow>
    \<exists>es. h' = h @ es \<and> disk_leads E mj (wo_io w) c es c'"
proof (induction qs arbitrary: c h)
  case (Cons q qs)
  obtain r ns n where q: "q = (r, ns, n)" by (cases q)
  obtain es err c1 where 1: "handle jt E opts w (r, ns, n) c = Some (es, err, c1)"
    and 2: "handle_all jt E opts w qs c1 (h @ es) = Some (h', c')"
    using Cons.prems(1) q by (auto split: option.splits)
  have l: "disk_leads E mj (wo_io w) c es c1" by (rule leads_handle [OF assms(1) 1 Cons.prems(2) assms(2,3)])
  then have "world_fresh w c1" using Cons.prems(2) world_fresh_cong [of c1 c w] by (simp add: disk_leads_def)
  from Cons.IH [OF 2 this] obtain es' where "h' = (h @ es) @ es'" "disk_leads E mj (wo_io w) c1 es' c'" by blast
  then show ?case using leads_trans [OF l] by auto
qed (simp add: leads_refl)

subsection \<open>Runs\<close>

text \<open>
  The states of the controllers \<open>cts\<close> after the events: builder, trace and disk. Every request of an
  event is handled in the world of the event, and writes and removals change the disk.
\<close>

inductive controlled ::
  "(json_error \<Rightarrow> string) \<Rightarrow> ('m, 'n) cb_env \<Rightarrow> options \<Rightarrow> controller list \<Rightarrow> cb_marshal \<Rightarrow> string \<Rightarrow>
     loop_event list \<Rightarrow> ('m, 'n) builder \<Rightarrow> trace \<Rightarrow> disk \<Rightarrow> bool"
  for jt E opts cts mj root where
  quiet: "controlled jt E opts cts mj root [] (NewConfigBuilder E) [] d"
| object: "controlled jt E opts cts mj root evs c h d \<Longrightarrow>
    world_fresh w c \<Longrightarrow> world_named w \<Longrightarrow> world_paths w \<Longrightarrow> io_config_path (wo_io w) = root \<Longrightarrow>
    handle_all jt E opts w (requests opts cts e) c h = Some (h @ es, c') \<Longrightarrow> disk_run (wo_io w) h es d d' \<Longrightarrow>
    controlled jt E opts cts mj root (evs @ [Object e w]) c' (h @ es) d'"
| reload: "controlled jt E opts cts mj root evs c h d \<Longrightarrow> io_config_path io = root \<Longrightarrow>
    cb_reload mj sch io c h = ((r, h @ es), c') \<Longrightarrow> disk_run io h es d d' \<Longrightarrow>
    controlled jt E opts cts mj root (evs @ [Reload sch io]) c' (h @ es) d'"

lemma controlled_disk_reachable:
  assumes "multimap (cl_strs (cb_cl E)) R"
  shows "controlled jt E opts cts mj root evs c h d \<Longrightarrow> disk_reachable E mj root c h d"
proof (induction rule: controlled.induct)
  case (quiet d)
  show ?case by (rule disk_reachable.begins)
next
  case (object evs c h d w e es c' d')
  have "disk_leads E mj (wo_io w) c es c'"
    using leads_handle_all [OF assms object.hyps(3,4,6,2)] by auto
  then show ?case using object.IH object.hyps(5,7) unfolding disk_leads_def by blast
next
  case (reload evs c h d io sch r es c' d')
  show ?case by (rule disk_reachable.ticks [OF reload.IH reload.hyps(2-4)])
qed

lemma controller_run_append:
  "controller_run jt E opts cts mj (evs @ evs') c h =
     (case controller_run jt E opts cts mj evs c h of
        None \<Rightarrow> None
      | Some (h1, c1) \<Rightarrow> controller_run jt E opts cts mj evs' c1 h1)"
  by (induction jt E opts cts mj evs c h rule: controller_run.induct) (auto split: option.splits prod.splits)

text \<open>Builder and trace are those of the run over the same events.\<close>

lemma controlled_run:
  "controlled jt E opts cts mj root evs c h d \<Longrightarrow>
     controller_run jt E opts cts mj evs (NewConfigBuilder E) [] = Some (h, c)"
  by (induction rule: controlled.induct) (simp_all add: controller_run_append)

end
