(* ===== verification/Route_Props.thy ===== *)
theory Route_Props
  imports Route_Table_Spec
begin

text \<open>
  The properties of the route rule cache and of the server data component, each with a witness
  on a small ingress of two paths.
\<close>

subsection \<open>An ingress to evaluate on\<close>

definition ex_sd_env :: "((string \<times> http_rule) list) sd_env" where
  "ex_sd_env = \<lparr>sd_rules = list_multimap, sd_default_backend = [], sd_convert = (\<lambda>_. None)\<rparr>"

definition ex_choice :: sd_choice where
  "ex_choice = \<lparr>ch_delete = [], ch_undo = [], ch_table = any_order, ch_conf = any_order,
     ch_table_now = ''t1'', ch_conf_now = ''t2''\<rparr>"

definition ex_backend :: "string \<Rightarrow> ingress_backend" where
  "ex_backend name = \<lparr>ib_service = Some \<lparr>sb_name = name, sb_port = \<lparr>bp_name = [], bp_number = 80\<rparr>\<rparr>\<rparr>"

definition ex_path :: "string \<Rightarrow> string \<Rightarrow> http_ingress_path" where
  "ex_path path name = \<lparr>hp_path = path, hp_type = Some ''Exact'', hp_backend = ex_backend name\<rparr>"

definition ex_ingress :: "string \<Rightarrow> annots \<Rightarrow> int \<Rightarrow> ingress" where
  "ex_ingress name a created =
     \<lparr>ing_kind = ''Ingress'', ing_version = ''v1'', ing_namespace = ''d'', ing_name = name,
      ing_resource_version = [], ing_annots = a, ing_created = created, ing_class = None,
      ing_default = None, ing_tls = [],
      ing_rules = [\<lparr>ir_host = ''a.b'', ir_http = Some [ex_path ''/x'' ''s'', ex_path ''/y'' ''s'']\<rparr>]\<rparr>"

definition ex_cookie :: annots where
  "ex_cookie = Some [(CookieAnnotation, ''k: v'')]"

lemmas ex_defs = ex_sd_env_def ex_choice_def ex_backend_def ex_path_def ex_ingress_def ex_cookie_def

definition ex_state :: "((string \<times> http_rule) list) server_data" where
  "ex_state = snd (the (sd_UpdateIngress ex_sd_env ex_choice (ex_ingress ''i'' None 5)
     (NewServerDataConfig ex_sd_env ''init'')))"

lemma ex_state_update:
  "sd_UpdateIngress ex_sd_env ex_choice (ex_ingress ''i'' None 5)
     (NewServerDataConfig ex_sd_env ''init'') = Some (None, ex_state)"
  unfolding ex_state_def by code_simp

lemma ex_env_rules: "sd_rules ex_sd_env = list_multimap"
  by (simp add: ex_sd_env_def)

interpretation esr: server_rules ex_sd_env set
  unfolding ex_sd_env_def by (rule lsr.server_rules_axioms)

lemma ex_state_wf: "wf_cache set (routeRuleCache ex_state)"
  by (rule esr.update_wf [OF ex_state_update esr.new_wf])

lemma ex_rules: "ing_rules (ex_ingress n a t) \<noteq> []"
  by (simp add: ex_ingress_def)

text \<open>A second ingress that asks for the same routes, with an illegal annotation.\<close>

definition ex_bad :: ingress where
  "ex_bad = ex_ingress ''j'' (Some [(CookieAnnotation, ''k:'')]) 7"

definition ex_failed :: "((string \<times> http_rule) list) server_data" where
  "ex_failed = snd (the (sd_UpdateIngress ex_sd_env ex_choice ex_bad ex_state))"

lemma ex_failed_update:
  "sd_UpdateIngress ex_sd_env ex_choice ex_bad ex_state = Some (Some (Illegal_Cookie ''k:''), ex_failed)"
  unfolding ex_failed_def ex_state_def by code_simp

lemma server_rulesI: "multimap (sd_rules E) R \<Longrightarrow> server_rules E R"
  by (simp add: server_rules_def rule_multimap_def)

lemma rule_multimapI: "multimap M R \<Longrightarrow> rule_multimap M R"
  by (simp add: rule_multimap_def)

lemma ex_multimap: "multimap (sd_rules ex_sd_env) set"
  by (simp add: ex_env_rules lmm.multimap_axioms)

lemma ex_new_wf: "wf_cache set (routeRuleCache (NewServerDataConfig ex_sd_env v))"
  by (rule esr.new_wf)

subsection \<open>Rules of an ingress\<close>

text \<open>
  C7: a successful update of an ingress replaces its rules as specified: its old entries go,
  then every path is put in order, the first created rule of a host, path and condition wins,
  and none of them met an older rule. All hosts, paths and backends were legal.
\<close>

theorem update_replaces_rules:
  assumes "multimap (sd_rules E) R" and "wf_cache R (routeRuleCache s)" and "ing_rules ing \<noteq> []"
    and "sd_UpdateIngress E ch ing s = Some (None, s')"
  shows "list_all path_valid (paths_of ing) \<and> wf_cache R (routeRuleCache s') \<and>
    spec_puts (rules_for (sd_next_addr s) ing)
      (without (ingress_name ing) (route_view (ruleMap (routeRuleCache s)))) =
      (None, route_view (ruleMap (routeRuleCache s')))"
  using server_rules.update_ok_view [OF server_rulesI [OF assms(1)] assms(4,2,3)]
    server_rules.update_wf [OF server_rulesI [OF assms(1)] assms(4,2)]
  by (simp add: list_all_iff)

theorem update_replaces_rules_witness:
  "list_all path_valid (paths_of (ex_ingress ''i'' None 5)) \<and> wf_cache set (routeRuleCache ex_state) \<and>
    spec_puts (rules_for 0 (ex_ingress ''i'' None 5))
      (without (ingress_name (ex_ingress ''i'' None 5)) (route_view [])) =
      (None, route_view (ruleMap (routeRuleCache ex_state)))"
  using update_replaces_rules [OF ex_multimap ex_new_wf ex_rules ex_state_update]
  by (simp add: NewServerDataConfig_def NewRouteRuleCache_def)

text \<open>
  C12: an update that returns an error leaves the generated files and the confirmed versions as
  they were, leaves no rule of the ingress in the cache, and adds no rule to it.
\<close>

theorem failed_update_removes_rules:
  assumes "multimap (sd_rules E) R" and "wf_cache R (routeRuleCache s)"
    and "sd_UpdateIngress E ch ing s = Some (Some e, s')"
  shows "sd_tables s' = sd_tables s \<and> wf_cache R (routeRuleCache s') \<and>
    (\<forall>k r. route_view (ruleMap (routeRuleCache s')) k = Some r \<longrightarrow>
       route_view (ruleMap (routeRuleCache s)) k = Some r \<and> r_ingress r \<noteq> ingress_name ing)"
  using server_rules.update_error [OF server_rulesI [OF assms(1)] assms(3,2)]
    server_rules.update_wf [OF server_rulesI [OF assms(1)] assms(3,2)]
  by blast

theorem failed_update_removes_rules_witness:
  "sd_tables ex_failed = sd_tables ex_state \<and> wf_cache set (routeRuleCache ex_failed) \<and>
    (\<nexists>k r. route_view (ruleMap (routeRuleCache ex_failed)) k = Some r \<and> r_ingress r = ingress_name ex_bad)"
  using failed_update_removes_rules [OF ex_multimap ex_state_wf ex_failed_update] by blast

text \<open>
  C8: putting a rule into the cache is the specification "the first created rule wins": the
  table from host, path and condition to rules changes as \<open>spec_put\<close> says, and the error is the
  conflict with an older rule, if there is one.
\<close>

theorem put_first_created_wins:
  "route_view (ruleMap (snd (put_rule M rule c))) = spec_put rule (route_view (ruleMap c)) \<and>
   fst (put_rule M rule c) = spec_conflict rule (route_view (ruleMap c))"
  using put_rule_view put_rule_conflict by blast

text \<open>
  C9: deleting the rules of an ingress removes its entries and no other, whatever order the
  multimap lists them in, and keeps the cache well formed.
\<close>

theorem delete_rules_exact:
  assumes "multimap M R" and "wf_cache R c"
  shows "wf_cache R (delete_rules M sch i c) \<and>
    route_view (ruleMap (delete_rules M sch i c)) = without i (route_view (ruleMap c)) \<and>
    \<not> ContainsIngress M i (delete_rules M sch i c)"
proof -
  note M = rule_multimapI [OF assms(1)]
  have "\<not> ContainsIngress M i (delete_rules M sch i c)"
    using multimap.key_after_remove_all [OF assms(1)] by (simp add: ContainsIngress_def delete_rules_def)
  then show ?thesis
    using rule_multimap.delete_rules_wf [OF M assms(2)] rule_multimap.delete_rules_view [OF M assms(2)]
    by (auto simp: without_def fun_eq_iff)
qed

theorem delete_rules_exact_witness:
  "wf_cache set (delete_rules list_multimap [1] ''d/i'' (routeRuleCache ex_state)) \<and>
    route_view (ruleMap (delete_rules list_multimap [1] ''d/i'' (routeRuleCache ex_state))) =
      without ''d/i'' (route_view (ruleMap (routeRuleCache ex_state))) \<and>
    \<not> ContainsIngress list_multimap ''d/i'' (delete_rules list_multimap [1] ''d/i'' (routeRuleCache ex_state))"
  by (rule delete_rules_exact [OF lmm.multimap_axioms ex_state_wf])

subsection \<open>Generated files\<close>

text \<open>
  After a successful update every cluster the route table names is a cluster of the cluster
  configuration, but for the marker of the advanced mode, although the two files are built from
  two iterations over the cache.
\<close>

lemma update_keeps_tables_consistent:
  assumes "multimap (sd_rules E) R" and "wf_cache R (routeRuleCache s)" and "ing_rules ing \<noteq> []"
    and "sd_UpdateIngress E ch ing s = Some (None, s')"
  shows "table_clusters (routeTableFile s') \<subseteq> insert AdvancedMode (conf_clusters (bfeClusterConf s'))"
  using assms(4)
proof (cases rule: sd_UpdateIngress_cases)
  case (ok s2 s3)
  note M = server_rulesI [OF assms(1)]
  have "wf_cache R (routeRuleCache s2)"
    using server_rules.updateCache_entries [OF M ok(3) server_rules.cleared_wf [OF M assms(2)]] by blast
  then have "wf_rule_map (ruleMap (routeRuleCache s2))" by (simp add: wf_cache_def)
  from tables_consistent [OF ok(4) this] show ?thesis by (simp add: sd_consistent_def ok(5))
qed (use assms(3) in simp_all)

lemma update_keeps_tables_consistent_witness:
  "table_clusters (routeTableFile ex_state) \<subseteq> insert AdvancedMode (conf_clusters (bfeClusterConf ex_state))"
  by (rule update_keeps_tables_consistent [OF ex_multimap ex_new_wf ex_rules ex_state_update])

text \<open>
  After a successful update every rule of the cache is routed: by an entry of its own, or by
  the marker of the advanced mode together with an entry under its condition.
\<close>

lemma update_routes_every_rule:
  assumes "multimap (sd_rules E) R" and "wf_cache R (routeRuleCache s)" and "ing_rules ing \<noteq> []"
    and "sd_UpdateIngress E ch ing s = Some (None, s')"
    and "rules_find (ruleMap (routeRuleCache s')) h p = Some rs" and "r \<in> set rs"
  shows "routed (routeTableFile s') rs r"
  by (rule server_rules.update_routes [OF server_rulesI [OF assms(1)] assms(4,2,3,5,6)])

definition ex_rule :: "nat \<Rightarrow> string \<Rightarrow> http_rule" where
  "ex_rule n path = \<lparr>r_addr = n, r_ingress = ''d/i'', r_host = ''a.b'', r_path = path, r_annots = None,
     r_cluster = ''d/i_s_80'', r_time = 5\<rparr>"

lemma ex_state_rules:
  "rules_find (ruleMap (routeRuleCache ex_state)) ''a.b'' ''/x'' = Some [ex_rule 0 ''/x'']"
  unfolding ex_state_def ex_rule_def by code_simp

lemma update_routes_every_rule_witness:
  "routed (routeTableFile ex_state) [ex_rule 0 ''/x''] (ex_rule 0 ''/x'')"
  by (rule update_routes_every_rule [OF ex_multimap ex_new_wf ex_rules ex_state_update ex_state_rules])
    simp

text \<open>An update to an ingress without rules changes nothing: the rules it had before stay.\<close>

lemma update_without_rules_keeps: "ing_rules ing = [] \<Longrightarrow> sd_UpdateIngress E ch ing s = Some (None, s)"
  by (simp add: sd_UpdateIngress_def)

end
