(* ===== verification/Cluster_Props.thy ===== *)
theory Cluster_Props
  imports Cluster_Owner
begin

text \<open>
  The properties of the cluster component and of the weights it reads from annotations, with
  witnesses on an ingress of one path.
\<close>

subsection \<open>An ingress and its service\<close>

definition ex_cl_env :: "((string \<times> string) list) cl_env" where
  "ex_cl_env = \<lparr>cl_strs = list_multimap, cl_default_backend = [], cl_check = (\<lambda>_. None)\<rparr>"

definition ex_svc :: service where
  "ex_svc = \<lparr>svc_namespace = ''d'', svc_name = ''s'',
     svc_ports = [\<lparr>sp_name = ''web'', sp_port = 80, sp_target = zero_ios\<rparr>]\<rparr>"

definition ex_ep :: endpoints where
  "ex_ep = \<lparr>ep_subsets = [\<lparr>es_addresses = [''10.0.0.1''], es_ports = [\<lparr>ep_name = ''web'', ep_port = 8080\<rparr>]\<rparr>]\<rparr>"

definition ex_cl_path :: http_ingress_path where
  "ex_cl_path = \<lparr>hp_path = ''/x'', hp_type = None,
     hp_backend = \<lparr>ib_service = Some \<lparr>sb_name = ''s'', sb_port = \<lparr>bp_name = [], bp_number = 80\<rparr>\<rparr>\<rparr>\<rparr>"

definition ex_cl_ingress :: ingress where
  "ex_cl_ingress =
     \<lparr>ing_kind = ''Ingress'', ing_version = ''v1'', ing_namespace = ''d'', ing_name = ''i'',
      ing_resource_version = [], ing_annots = None, ing_created = 5, ing_class = None,
      ing_default = None, ing_tls = [],
      ing_rules = [\<lparr>ir_host = ''a.b'', ir_http = Some [ex_cl_path]\<rparr>]\<rparr>"

definition ex_cl_state :: "((string \<times> string) list) cluster_state" where
  "ex_cl_state = snd (the (cl_UpdateIngress ex_cl_env any_order ''t'' ex_cl_ingress [(''d/s'', ex_svc)]
     [(''d/s'', ex_ep)] (NewClusterConfig ex_cl_env ''init'')))"

lemma ex_cl_update:
  "cl_UpdateIngress ex_cl_env any_order ''t'' ex_cl_ingress [(''d/s'', ex_svc)] [(''d/s'', ex_ep)]
     (NewClusterConfig ex_cl_env ''init'') = Some (None, ex_cl_state)"
  unfolding ex_cl_state_def by code_simp

lemma ex_cl_maps:
  "ingress2Cluster ex_cl_state = [(''d/i'', ''d/i_s_80'')]"
  "service2Cluster ex_cl_state = [(''d/s'', ''d/i_s_80'')]"
  "gslb ex_cl_state = [(''d/i_s_80'', [(''d/s'', 10)])]"
  unfolding ex_cl_state_def by code_simp+

lemma ex_cl_multimap: "multimap (cl_strs ex_cl_env) set"
  by (simp add: ex_cl_env_def lmm.multimap_axioms)

lemma ex_cl_named: "CHR ''_'' \<notin> set (NamespacedName (ing_namespace ex_cl_ingress) (ing_name ex_cl_ingress))"
  by (simp add: ex_cl_ingress_def NamespacedName_def)

lemma ex_cl_paths: "http_paths ex_cl_ingress = [ex_cl_path]"
  by (simp add: http_paths_def ex_cl_ingress_def)

subsection \<open>Ingresses\<close>

text \<open>
  C22: after a successful update every path of the ingress has its cluster, filed under the
  ingress, with the sub-clusters and the weights of a path of that cluster name; no default
  backend gets in the way.
\<close>

theorem update_builds_clusters:
  assumes "multimap (cl_strs E) R"
    and "CHR ''_'' \<notin> set (NamespacedName (ing_namespace ing) (ing_name ing))"
    and "cl_UpdateIngress E w now ing services eps c = Some (None, c')" and "p \<in> set (http_paths ing)"
  shows "(NamespacedName (ing_namespace ing) (ing_name ing), cluster_name ing p) \<in> R (ingress2Cluster c') \<and>
    (\<exists>q \<in> set (http_paths ing). cluster_name ing q = cluster_name ing p \<and>
       mget (table c') (cluster_name ing p) = Some (path_cluster ing (balance_of w ing) services eps q) \<and>
       mget (gslb c') (cluster_name ing p) = Some (path_weights ing (balance_of w ing) q))"
  by (rule cluster_maps.update_ingress_paths [OF cluster_mapsI [OF assms(1)] assms(3,2,4)])

theorem update_builds_clusters_witness:
  "(NamespacedName (ing_namespace ex_cl_ingress) (ing_name ex_cl_ingress), cluster_name ex_cl_ingress ex_cl_path)
      \<in> set (ingress2Cluster ex_cl_state) \<and>
    (\<exists>q \<in> set (http_paths ex_cl_ingress). cluster_name ex_cl_ingress q = cluster_name ex_cl_ingress ex_cl_path \<and>
       mget (table ex_cl_state) (cluster_name ex_cl_ingress ex_cl_path) =
         Some (path_cluster ex_cl_ingress (balance_of any_order ex_cl_ingress) [(''d/s'', ex_svc)]
           [(''d/s'', ex_ep)] q) \<and>
       mget (gslb ex_cl_state) (cluster_name ex_cl_ingress ex_cl_path) =
         Some (path_weights ex_cl_ingress (balance_of any_order ex_cl_ingress) q))"
  by (rule update_builds_clusters [OF ex_cl_multimap ex_cl_named ex_cl_update]) (simp add: ex_cl_paths)

text \<open>
  C23: deleting an ingress leaves the clusters of every other ingress, with their weights, as they
  are, in every state whose index names owned clusters only.
\<close>

theorem delete_keeps_other_clusters:
  assumes "multimap (cl_strs E) R" and "cluster_maps.owned R c" and "(j, n) \<in> R (ingress2Cluster c)"
    and "j \<noteq> NamespacedName ns nm"
  shows "(j, n) \<in> R (ingress2Cluster (cl_DeleteIngress E now ns nm c)) \<and>
    mget (table (cl_DeleteIngress E now ns nm c)) n = mget (table c) n \<and>
    mget (table c) n \<noteq> None \<and>
    mget (gslb (cl_DeleteIngress E now ns nm c)) n = mget (gslb c) n"
  using cluster_maps.others_kept [OF cluster_mapsI [OF assms(1)] assms(2-4)] assms(2-4)
    cluster_maps.delete_ingress_pairs [OF cluster_mapsI [OF assms(1)]]
    cluster_maps.owned_def [OF cluster_mapsI [OF assms(1)], of c]
  by auto

theorem delete_keeps_other_clusters_witness:
  "mget (table (cl_DeleteIngress ex_cl_env ''u'' ''d'' ''k'' ex_cl_state)) ''d/i_s_80'' =
     mget (table ex_cl_state) ''d/i_s_80'' \<and>
   mget (gslb (cl_DeleteIngress ex_cl_env ''u'' ''d'' ''k'' ex_cl_state)) ''d/i_s_80'' =
     mget (gslb ex_cl_state) ''d/i_s_80''"
proof -
  note M = cluster_mapsI [OF ex_cl_multimap]
  have o: "cluster_maps.owned set ex_cl_state"
    by (rule cluster_maps.update_ingress_owned [OF M ex_cl_update cluster_maps.new_owned [OF M] ex_cl_named])
  show ?thesis
    using delete_keeps_other_clusters [OF ex_cl_multimap o, of "''d/i''" "''d/i_s_80''" "''d''" "''k''" "''u''"]
    by (simp add: ex_cl_maps NamespacedName_def)
qed

subsection \<open>Services\<close>

lemma ex_parse_port: "ParsePort ''d/i_s_80'' = \<lparr>bp_name = [], bp_number = 80\<rparr>"
proof -
  have "atoi ''80'' = Some 80"
    by (simp add: atoi_def Let_def parse_uint_def has_prefix_def digit_val_def)
  moreover have "int32 80 = 80" by (rule int32_id) simp_all
  ultimately show ?thesis using ParsePort_suffix [of "''80''" "''d/i_s''"] by (simp add: zero_port_def)
qed

lemma ex_port: "\<not> no_port (getTargetPort (ParsePort ''d/i_s_80'') (Some ex_svc))"
  by (simp add: ex_parse_port ex_svc_def getTargetPort_def port_skipped_def target_of_def no_port_def)

lemma ex_cl_table: "mget (table ex_cl_state) ''d/i_s_80'' \<noteq> None"
  unfolding ex_cl_state_def by code_simp

lemma update_service_outcome:
  assumes "multimap (cl_strs E) R"
    and "cl_UpdateService E sch now svc ep c = Some (err, c')"
    and "s = NamespacedName (svc_namespace svc) (svc_name svc)"
  shows "(err = None \<longleftrightarrow> \<not> (\<exists>m. (s, m) \<in> R (service2Cluster c) \<and> unported E svc m)) \<and>
    (if (s, n) \<notin> R (service2Cluster c)
     then mget (table c') n = mget (table c) n \<and> mget (gslb c') n = mget (gslb c) n
     else if err = None
     then (\<exists>subs. mget (table c') n = Some subs \<and>
            mget subs s = Some (newSubClusterBackend ep (getTargetPort (ParsePort n) (Some svc)))) \<and>
          mget (gslb c') n = Some [(s, defaultWeight)]
     else mget (mget_or [] (table c') n) s = None \<and> mget (mget_or [] (gslb c') n) s = None) \<and>
    ingress2Cluster c' = ingress2Cluster c \<and> service2Cluster c' = service2Cluster c"
proof -
  obtain clusters ok where g: "mm_get (cl_strs E) (service2Cluster c) s = (clusters, ok)"
    by (metis surj_pair)
  have in_clusters: "m \<in> set (shuffle sch clusters) \<longleftrightarrow> (s, m) \<in> R (service2Cluster c)" for m
    using multimap.get_values [OF assms(1), of "service2Cluster c" s] g by simp
  have ok: "ok \<longleftrightarrow> (\<exists>n. (s, n) \<in> R (service2Cluster c))"
    using multimap.get_found [OF assms(1), of "service2Cluster c" s] g by simp
  show ?thesis
  proof (cases ok)
    case False
    then have "err = None" "c' = c" using assms(2,3) g by (simp_all add: cl_UpdateService_def)
    then show ?thesis using ok False by auto
  next
    case True
    show ?thesis
    proof (cases err)
      case None
      then obtain d where d: "each_go (update_service_in E now svc ep) (shuffle sch clusters) c = Some (None, d)"
        "c' = cl_setVersion now d"
        using assms(2,3) g True by (auto simp: cl_UpdateService_def split: option.splits)
      show ?thesis
        using update_services_stored [OF d(1), folded assms(3)] update_services_ported [OF d(1)] None
        unfolding d(2) cl_setVersion_simps Ball_def in_clusters by auto
    next
      case (Some e)
      then have d: "each_go (update_service_in E now svc ep) (shuffle sch clusters) c = Some (Some e, c')"
        using assms(2,3) g True by (auto simp: cl_UpdateService_def split: option.splits)
      obtain m d where m: "(s, m) \<in> R (service2Cluster c)" "unported E svc m"
        and c': "c' = cl_DeleteService E now (svc_namespace svc) (svc_name svc) d"
        and d: "ingress2Cluster d = ingress2Cluster c" "service2Cluster d = service2Cluster c"
          "\<forall>n. (s, n) \<notin> R (service2Cluster c) \<longrightarrow>
             mget (table d) n = mget (table c) n \<and> mget (gslb d) n = mget (gslb c) n"
        using update_services_refused [OF d] unfolding in_clusters by blast
      have del: "k \<in> set (fst (mm_get (cl_strs E) (service2Cluster d) s)) \<longleftrightarrow> (s, k) \<in> R (service2Cluster c)" for k
        using multimap.get_values [OF assms(1), of "service2Cluster c" s] d(2) by simp
      have "mget (mget_or [] (table c') n) s = None \<and> mget (mget_or [] (gslb c') n) s = None"
        if "(s, n) \<in> R (service2Cluster c)"
        using that del [of n] unfolding c' assms(3)
        by (auto simp: cl_DeleteService_simps mget_or_def split: option.splits)
      then show ?thesis
        using m d Some del [of n] by (auto simp: c' cl_DeleteService_simps assms(3))
    qed
  qed
qed

text \<open>
  C24: an update of a service that does not panic fails exactly when the port of some cluster that
  uses the service has no port number or name in it. On success the endpoints are stored in every
  cluster that uses the service, which gets the whole weight of that cluster (also where an
  annotation balanced the cluster over several services); on failure the service is gone from all of
  them. Every other cluster and the indexes are left alone.
\<close>

theorem update_service_stores_endpoints:
  assumes "multimap (cl_strs E) R"
    and "cl_UpdateService E sch now svc ep c = Some (err, c')"
    and "s = NamespacedName (svc_namespace svc) (svc_name svc)"
  shows "(err = None \<longleftrightarrow> \<not> (\<exists>m. (s, m) \<in> R (service2Cluster c) \<and> unported E svc m)) \<and>
    (if (s, n) \<notin> R (service2Cluster c)
     then mget (table c') n = mget (table c) n \<and> mget (gslb c') n = mget (gslb c) n
     else if err = None
     then (\<exists>subs. mget (table c') n = Some subs \<and>
            mget subs s = Some (newSubClusterBackend ep (getTargetPort (ParsePort n) (Some svc)))) \<and>
          mget (gslb c') n = Some [(s, defaultWeight)]
     else mget (mget_or [] (table c') n) s = None \<and> mget (mget_or [] (gslb c') n) s = None) \<and>
    ingress2Cluster c' = ingress2Cluster c \<and> service2Cluster c' = service2Cluster c"
  by (rule update_service_outcome [OF assms])

definition ex_served :: "((string \<times> string) list) cluster_state" where
  "ex_served = snd (the (cl_UpdateService ex_cl_env [] ''u'' ex_svc (Some ex_ep) ex_cl_state))"

lemma ex_served_once:
  assumes "mm_get (cl_strs ex_cl_env) (service2Cluster c) ''d/s'' = ([''d/i_s_80''], True)"
    and "mget (table c) ''d/i_s_80'' \<noteq> None"
  shows "\<exists>c'. cl_UpdateService ex_cl_env [] now ex_svc (Some ex_ep) c = Some (None, c')"
proof -
  have s: "svc_namespace ex_svc = ''d''" "svc_name ex_svc = ''s''" by (simp_all add: ex_svc_def)
  obtain subs where "mget (table c) ''d/i_s_80'' = Some subs" using assms(2) by blast
  then obtain x where "update_service_in ex_cl_env now ex_svc (Some ex_ep) ''d/i_s_80'' c = Some (None, x)"
    using ex_port by (auto simp: update_service_in_def Let_def)
  then show ?thesis using assms(1) by (simp add: cl_UpdateService_def s NamespacedName_def)
qed

lemma ex_serve: "cl_UpdateService ex_cl_env [] ''u'' ex_svc (Some ex_ep) ex_cl_state = Some (None, ex_served)"
proof -
  have "mm_get (cl_strs ex_cl_env) (service2Cluster ex_cl_state) ''d/s'' = ([''d/i_s_80''], True)"
    by (simp add: ex_cl_env_def ex_cl_maps list_multimap_def)
  from ex_served_once [OF this ex_cl_table, of "''u''"] show ?thesis by (auto simp: ex_served_def)
qed

theorem update_service_stores_endpoints_witness:
  "mget (gslb ex_served) ''d/i_s_80'' = Some [(''d/s'', defaultWeight)]"
  using update_service_stores_endpoints [OF ex_cl_multimap ex_serve refl, of "''d/i_s_80''"]
  by (simp add: ex_cl_maps ex_svc_def NamespacedName_def)

text \<open>
  A port without a name whose target is a named port of the pods gives no port: such a service loses
  its place in every cluster at its first event.
\<close>

lemma named_target_unported:
  assumes "svc_ports svc = pre @ p # post" and "list_all (port_skipped (ParsePort n)) pre"
    and "\<not> port_skipped (ParsePort n) p" and "sp_name p = []" and "ios_int (sp_target p) \<le> 0"
  shows "unported E svc n \<longleftrightarrow> NamespacedName (svc_namespace svc) (svc_name svc) \<noteq> cl_default_backend E"
proof -
  have "first_target (ParsePort n) (pre @ p # post) = target_of p"
    using assms(2,3) by (induction pre) auto
  then show ?thesis
    using assms(1,4,5) by (simp add: unported_def getTargetPort_def target_of_def no_port_def zero_ios_def)
qed

text \<open>The port of a service that a backend asks for, by number, by name or both; 0 and the empty name ask for any.\<close>

definition asked_for :: "service_backend_port \<Rightarrow> service_port \<Rightarrow> bool" where
  "asked_for b p \<longleftrightarrow> (bp_number b \<le> 0 \<or> sp_port p = bp_number b) \<and> (bp_name b = [] \<or> sp_name p = bp_name b)"

text \<open>The addresses of the endpoints under the ports that satisfy a condition.\<close>

definition addressed :: "endpoints \<Rightarrow> (endpoint_port \<Rightarrow> bool) \<Rightarrow> backend_conf set" where
  "addressed e P = {\<lparr>be_name = a, be_addr = a, be_port = ep_port q, be_weight = 10\<rparr> | a q sub.
     sub \<in> set (ep_subsets e) \<and> q \<in> set (es_ports sub) \<and> P q \<and> a \<in> set (es_addresses sub)}"

text \<open>The first address of the first subset with its first port, where there is one.\<close>

definition first_only :: "endpoints \<Rightarrow> backend_conf set" where
  "first_only e = {\<lparr>be_name = a, be_addr = a, be_port = ep_port q, be_weight = 10\<rparr> | a as q qs sub subs.
     ep_subsets e = sub # subs \<and> es_ports sub = q # qs \<and> es_addresses sub = a # as}"

lemma first_instance_only: "set (first_instance e) = first_only e"
  by (cases "ep_subsets e"; cases "es_ports (hd (ep_subsets e))"; cases "es_addresses (hd (ep_subsets e))")
    (auto simp: first_instance_def first_only_def newBackendConf_def defaultWeight_def)

lemma first_target_find:
  "first_target b ps = (case find (asked_for b) ps of None \<Rightarrow> zero_ios | Some p \<Rightarrow> target_of p)"
proof (induction ps)
  case (Cons p ps)
  have "port_skipped b p \<longleftrightarrow> \<not> asked_for b p" by (auto simp: port_skipped_def asked_for_def)
  then show ?case using Cons.IH by simp
qed simp

lemma matching_addressed:
  assumes "\<not> no_port t"
  shows "\<exists>bs. newSubClusterBackend (Some e) t = Some bs \<and> set bs = addressed e (port_matches t)"
  using assms by (auto simp: newSubClusterBackend_def addressed_def newBackendConf_def defaultWeight_def)

text \<open>
  C26: the backends of a sub-cluster, for the first port of the service that the backend asks for. If that
  port has a name: every address of the endpoints under the port of that name (or under number 0, which
  Kubernetes does not allow). If it has none and its target is a number: every address under that
  number or under a port without a name. If its target is a name, or there is no such port: the first
  address of the first subset with its first port, and nothing else. Every backend has the weight 10.
\<close>

theorem backends_are_endpoints:
  "\<exists>bs. newSubClusterBackend (Some e) (getTargetPort b (Some svc)) = Some bs \<and>
    set bs =
      (case find (asked_for b) (svc_ports svc) of
         Some p \<Rightarrow>
           if sp_name p \<noteq> [] then addressed e (\<lambda>q. ep_name q = sp_name p \<or> ep_port q = 0)
           else if 0 < ios_int (sp_target p)
             then addressed e (\<lambda>q. ep_port q = ios_int (sp_target p) \<or> ep_name q = [])
           else first_only e
       | None \<Rightarrow> first_only e)"
proof -
  have none: "\<exists>bs. newSubClusterBackend (Some e) zero_ios = Some bs \<and> set bs = first_only e"
    using first_instance_only [of e] by (simp add: newSubClusterBackend_def no_port_def zero_ios_def)
  show ?thesis
  proof (cases "find (asked_for b) (svc_ports svc)")
    case None
    then show ?thesis using none by (simp add: getTargetPort_def first_target_find)
  next
    case (Some p)
    have t: "getTargetPort b (Some svc) = target_of p" by (simp add: getTargetPort_def first_target_find Some)
    consider "sp_name p \<noteq> []" | "sp_name p = []" "0 < ios_int (sp_target p)" | "sp_name p = []" "\<not> 0 < ios_int (sp_target p)"
      by blast
    then show ?thesis
    proof cases
      case 1
      then have "target_of p = \<lparr>ios_type = IosString, ios_int = 0, ios_str = sp_name p\<rparr>" by (simp add: target_of_def)
      moreover have "port_matches \<lparr>ios_type = IosString, ios_int = 0, ios_str = sp_name p\<rparr> =
          (\<lambda>q. ep_name q = sp_name p \<or> ep_port q = 0)" by (auto simp: port_matches_def)
      ultimately show ?thesis
        using matching_addressed [of "target_of p" e] 1 by (simp add: t Some no_port_def)
    next
      case 2
      then have "target_of p = \<lparr>ios_type = IosInt, ios_int = ios_int (sp_target p), ios_str = []\<rparr>"
        by (simp add: target_of_def)
      moreover have "port_matches \<lparr>ios_type = IosInt, ios_int = ios_int (sp_target p), ios_str = []\<rparr> =
          (\<lambda>q. ep_port q = ios_int (sp_target p) \<or> ep_name q = [])" by (auto simp: port_matches_def)
      ultimately show ?thesis
        using matching_addressed [of "target_of p" e] 2 by (simp add: t Some no_port_def)
    next
      case 3
      then show ?thesis using none by (simp add: t Some target_of_def)
    qed
  qed
qed

text \<open>A port without a name and with the target port 8080, as in most services, and endpoints of two pods.\<close>

lemma unnamed_port_backends:
  "newSubClusterBackend
     (Some \<lparr>ep_subsets = [\<lparr>es_addresses = [''10.0.0.1'', ''10.0.0.2''], es_ports = [\<lparr>ep_name = [], ep_port = 8080\<rparr>]\<rparr>]\<rparr>)
     (getTargetPort \<lparr>bp_name = [], bp_number = 80\<rparr>
       (Some (ex_svc\<lparr>svc_ports := [\<lparr>sp_name = [], sp_port = 80,
          sp_target = \<lparr>ios_type = IosInt, ios_int = 8080, ios_str = []\<rparr>\<rparr>]\<rparr>))) =
   Some [newBackendConf ''10.0.0.1'' 8080 10, newBackendConf ''10.0.0.2'' 8080 10]"
  by code_simp

text \<open>
  C25: an update of an ingress takes no service out of the index from services to clusters: the next
  event of a service that an ingress used before, but names no more, puts the service back into
  the cluster and gives it the whole weight.
\<close>

theorem dropped_service_takes_over:
  assumes "multimap (cl_strs E) R" and "(s, n) \<in> R (service2Cluster c)"
    and "cl_UpdateIngress E w now ing services eps c = Some (None, c1)"
    and "cl_UpdateService E sch now' svc ep c1 = Some (None, c2)"
    and "s = NamespacedName (svc_namespace svc) (svc_name svc)"
  shows "mget (gslb c2) n = Some [(s, defaultWeight)] \<and>
    (\<exists>subs. mget (table c2) n = Some subs \<and>
       mget subs s = Some (newSubClusterBackend ep (getTargetPort (ParsePort n) (Some svc))))"
proof -
  have "(s, n) \<in> R (service2Cluster c1)"
    using cluster_maps.update_ingress_services_grow [OF cluster_mapsI [OF assms(1)] assms(3)] assms(2) by blast
  then show ?thesis using update_service_outcome [OF assms(1,4,5), of n] by simp
qed

definition ex_moved :: ingress where
  "ex_moved = ex_cl_ingress\<lparr>ing_annots := Some [(WeightAnnotation,
     [CHR 0x7B] @ json_quote ''s'' @ '':'' @ [CHR 0x7B] @ json_quote ''t'' @ '':1'' @ [CHR 0x7D, CHR 0x7D])]\<rparr>"

definition ex_moved_state :: "((string \<times> string) list) cluster_state" where
  "ex_moved_state = snd (the (cl_UpdateIngress ex_cl_env any_order ''v'' ex_moved
     [(''d/t'', ex_svc\<lparr>svc_name := ''t''\<rparr>)] [(''d/t'', ex_ep)] ex_cl_state))"

lemma ex_move:
  "cl_UpdateIngress ex_cl_env any_order ''v'' ex_moved [(''d/t'', ex_svc\<lparr>svc_name := ''t''\<rparr>)] [(''d/t'', ex_ep)]
     ex_cl_state = Some (None, ex_moved_state)"
  and ex_moved_clusters: "mm_get (cl_strs ex_cl_env) (service2Cluster ex_moved_state) ''d/s'' = ([''d/i_s_80''], True)"
  and ex_moved_table: "mget (table ex_moved_state) ''d/i_s_80'' \<noteq> None"
  and ex_moved_weights: "mget (gslb ex_moved_state) ''d/i_s_80'' = Some [(''d/t'', 1)]"
  unfolding ex_moved_state_def ex_cl_state_def by code_simp+

definition ex_taken :: "((string \<times> string) list) cluster_state" where
  "ex_taken = snd (the (cl_UpdateService ex_cl_env [] ''w'' ex_svc (Some ex_ep) ex_moved_state))"

lemma ex_take: "cl_UpdateService ex_cl_env [] ''w'' ex_svc (Some ex_ep) ex_moved_state = Some (None, ex_taken)"
  using ex_served_once [OF ex_moved_clusters ex_moved_table, of "''w''"] by (auto simp: ex_taken_def)

theorem dropped_service_takes_over_witness:
  "mget (gslb ex_moved_state) ''d/i_s_80'' = Some [(''d/t'', 1)] \<and>
    mget (gslb ex_taken) ''d/i_s_80'' = Some [(''d/s'', defaultWeight)]"
proof -
  have used: "(''d/s'', ''d/i_s_80'') \<in> set (service2Cluster ex_cl_state)" by (simp add: ex_cl_maps)
  have name: "''d/s'' = NamespacedName (svc_namespace ex_svc) (svc_name ex_svc)"
    by (simp add: ex_svc_def NamespacedName_def)
  show ?thesis
    using dropped_service_takes_over [OF ex_cl_multimap used ex_move ex_take name] ex_moved_weights by blast
qed

text \<open>
  Deleting a service that holds the last positive weight of a balanced cluster leaves the
  cluster with other services and a total weight of zero, although the code means the total to
  be positive: it drops a cluster only when no service is left.
\<close>

lemma delete_service_leaves_zero_weight:
  assumes "multimap (cl_strs E) R" and "(NamespacedName ns nm, n) \<in> R (service2Cluster c)"
    and "mget (gslb c) n = Some ws" and "list_ex (\<lambda>x. fst x \<noteq> NamespacedName ns nm) ws"
    and "list_all (\<lambda>x. fst x \<noteq> NamespacedName ns nm \<longrightarrow> snd x = 0) ws"
  shows "\<exists>ws'. mget (gslb (cl_DeleteService E now ns nm c)) n = Some ws' \<and> ws' \<noteq> [] \<and>
    sum_list (map snd ws') = 0"
proof -
  let ?s = "NamespacedName ns nm"
  have d: "mdel ?s ws = filter (\<lambda>x. fst x \<noteq> ?s) ws" by (auto simp: AList.delete_eq intro!: filter_cong)
  then have ne: "mdel ?s ws \<noteq> []" using assms(4) by (auto simp: filter_empty_conv list_ex_iff)
  have "sum_list (map snd (filter (\<lambda>x. fst x \<noteq> ?s) ws)) = 0"
    using assms(5) by (induction ws) auto
  moreover have "n \<in> set (fst (mm_get (cl_strs E) (service2Cluster c) ?s))"
    using assms(2) by (simp add: multimap.get_values [OF assms(1)])
  ultimately show ?thesis
    using assms(3) ne by (simp add: cl_DeleteService_simps d)
qed

definition ex_balanced :: "((string \<times> string) list) cluster_state" where
  "ex_balanced = set_gslb [(''d/i_s_80'', [(''d/s'', 10), (''d/t'', 0)])] ex_cl_state"

lemma delete_service_leaves_zero_weight_witness:
  "\<exists>ws'. mget (gslb (cl_DeleteService ex_cl_env ''u'' ''d'' ''s'' ex_balanced)) ''d/i_s_80'' = Some ws' \<and>
    ws' \<noteq> [] \<and> sum_list (map snd ws') = 0"
  using delete_service_leaves_zero_weight [OF ex_cl_multimap, of "''d''" "''s''" "''d/i_s_80''" ex_balanced
      "[(''d/s'', 10), (''d/t'', 0)]" "''u''"]
  by (simp add: ex_balanced_def cl_simps ex_cl_maps NamespacedName_def)

text \<open>
  C28: the index from services to clusters outlives its clusters: after a service is deleted and
  then the ingress that uses it, a later update of the service still finds the cluster and
  stores into the nil map of its sub-clusters, which is a panic.
\<close>

theorem stale_service_index_panics:
  assumes "multimap (cl_strs E) R" and "s = NamespacedName (svc_namespace svc) (svc_name svc)"
    and "{m. (s, m) \<in> R (service2Cluster c)} = {n}"
    and "(NamespacedName ns nm, n) \<in> R (ingress2Cluster c)"
    and "n \<noteq> DefaultClusterName (cl_default_backend E)"
    and "\<not> no_port (getTargetPort (ParsePort n) (Some svc))"
  shows "cl_UpdateService E sch now3 svc ep
    (cl_DeleteIngress E now2 ns nm (cl_DeleteService E now1 (svc_namespace svc) (svc_name svc) c)) = None"
proof -
  note M = cluster_mapsI [OF assms(1)]
  let ?c1 = "cl_DeleteService E now1 (svc_namespace svc) (svc_name svc) c"
  let ?c2 = "cl_DeleteIngress E now2 ns nm ?c1"
  have "n \<in> set (fst (mm_get (cl_strs E) (service2Cluster c) s))"
    using assms(3) multimap.get_values [OF assms(1), of "service2Cluster c" s] by auto
  then have gone: "mget (mget_or [] (table ?c1) n) s = None"
    by (auto simp: cl_DeleteService_simps assms(2) mget_or_def split: option.splits)
  have s1: "R (service2Cluster ?c1) = R (service2Cluster c)" by (simp add: cl_DeleteService_simps)
  have i1: "(NamespacedName ns nm, n) \<in> R (ingress2Cluster ?c1)"
    using assms(4) by (simp add: cl_DeleteService_simps)
  have none: "mget (table ?c2) n = None"
    using i1 by (simp add: cluster_maps.delete_ingress_lookup [OF M] cluster_maps.removed_by_def [OF M])
  have kept: "(s, n) \<in> R (service2Cluster ?c2)"
    using cluster_maps.delete_ingress_keeps_service [OF M, of s n ?c1 now2 ns nm] gone s1 assms(3,5) by auto
  have sub: "(s, m) \<in> R (service2Cluster ?c2) \<Longrightarrow> m = n" for m
    using cluster_maps.delete_ingress_services [OF M, of now2 ns nm ?c1] s1 assms(3) by auto
  obtain clusters ok where g: "mm_get (cl_strs E) (service2Cluster ?c2) s = (clusters, ok)" by (metis surj_pair)
  have cl: "set clusters = {n}"
    using multimap.get_values [OF assms(1), of "service2Cluster ?c2" s] kept sub unfolding g fst_conv by blast
  have ok: ok
    using multimap.get_found [OF assms(1), of "service2Cluster ?c2" s] kept unfolding g snd_conv by blast
  obtain xs where xs: "shuffle sch clusters = n # xs"
    using cl set_shuffle [of sch clusters] by (cases "shuffle sch clusters") auto
  have "update_service_in E now3 svc ep n ?c2 = None"
    using none assms(6) by (simp add: update_service_in_def Let_def)
  then show ?thesis using g ok xs by (simp add: cl_UpdateService_def assms(2) Let_def)
qed

theorem stale_service_index_panics_witness:
  "cl_UpdateService ex_cl_env [] ''w'' ex_svc (Some ex_ep)
    (cl_DeleteIngress ex_cl_env ''v'' ''d'' ''i'' (cl_DeleteService ex_cl_env ''u'' ''d'' ''s'' ex_cl_state)) = None"
proof -
  have n: "''d/i_s_80'' \<noteq> DefaultClusterName (cl_default_backend ex_cl_env)"
    by (simp add: DefaultClusterName_def ex_cl_env_def)
  have m: "{m. (''d/s'', m) \<in> set (service2Cluster ex_cl_state)} = {''d/i_s_80''}"
    by (simp add: ex_cl_maps)
  have i: "(NamespacedName ''d'' ''i'', ''d/i_s_80'') \<in> set (ingress2Cluster ex_cl_state)"
    by (simp add: ex_cl_maps NamespacedName_def)
  have s: "''d/s'' = NamespacedName (svc_namespace ex_svc) (svc_name ex_svc)"
    by (simp add: ex_svc_def NamespacedName_def)
  have d: "svc_namespace ex_svc = ''d''" "svc_name ex_svc = ''s''" by (simp_all add: ex_svc_def)
  show ?thesis
    using stale_service_index_panics [OF ex_cl_multimap s m i n ex_port, of "[]" "''w''" "Some ex_ep" "''v''" "''u''"]
    unfolding d .
qed

end
