(* ===== verification/TLS_Props.thy ===== *)
theory TLS_Props
  imports TLS_Spec
begin

text \<open>
  The properties of the certificate component, with witnesses on one ingress and one secret.
\<close>

definition ex_tls_env :: "((string \<times> string) list) tls_env" where
  "ex_tls_env = \<lparr>tls_strs = list_multimap, tls_key_pair = (\<lambda>crt key. if crt = key then None else Some (Foreign ''pair''))\<rparr>"

definition ex_secret :: secret where
  "ex_secret = \<lparr>sec_namespace = ''d'', sec_name = ''c'', sec_data = [(''tls.crt'', ''P''), (''tls.key'', ''P'')]\<rparr>"

definition ex_tls_ingress :: ingress where
  "ex_tls_ingress =
     \<lparr>ing_kind = ''Ingress'', ing_version = ''v1'', ing_namespace = ''d'', ing_name = ''i'',
      ing_resource_version = [], ing_annots = None, ing_created = 5, ing_class = None,
      ing_default = None, ing_tls = [\<lparr>tls_hosts = [], tls_secret = ''c''\<rparr>], ing_rules = []\<rparr>"

definition ex_io :: io_env where
  "ex_io = \<lparr>io_config_path = ''/c/'', io_reload_url = ''http://h/reload/'',
     io_missing = (\<lambda>h d. Make_Dir d \<notin> set h), io_write = (\<lambda>h f d. None),
     io_get = (\<lambda>h u. Inr (200, Inr []))\<rparr>"

definition ex_tls_state :: "((string \<times> string) list) tls_state" where
  "ex_tls_state = snd (tls_UpdateIngress ex_tls_env ''t'' ex_tls_ingress [ex_secret] (NewTLSConfig ex_tls_env ''init''))"

lemma ex_tls_update:
  "tls_UpdateIngress ex_tls_env ''t'' ex_tls_ingress [ex_secret] (NewTLSConfig ex_tls_env ''init'') = (None, ex_tls_state)"
  unfolding ex_tls_state_def by code_simp

lemma ex_tls_index: "ingress2secret ex_tls_state = [(''d/i'', ''d/c'')]"
  unfolding ex_tls_state_def by code_simp

lemma ex_tls_multimap: "multimap (tls_strs ex_tls_env) set"
  by (simp add: ex_tls_env_def lmm.multimap_axioms)

lemma tls_certsI: "multimap (tls_strs E) R \<Longrightarrow> tls_certs E R"
  by (simp add: tls_certs_def)

lemma ex_tls_new: "tls_ok ex_tls_env set (NewTLSConfig ex_tls_env v)"
  by (rule tls_certs.new_ok [OF tls_certsI [OF ex_tls_multimap]])

lemma ex_tls_ok: "tls_ok ex_tls_env set ex_tls_state"
  using tls_certs.update_ingress_pairs [OF tls_certsI [OF ex_tls_multimap] ex_tls_update ex_tls_new] by blast

text \<open>
  C30: deleting an ingress that named secrets keeps exactly the certificates another ingress still
  names, together with the default one in the certificate table, and removes the two files of
  each certificate that goes, and no other file.
\<close>

theorem delete_ingress_drops_unused_certs:
  assumes "multimap (tls_strs E) R" and "tls_ok E R c"
    and "(NamespacedName ns n, x) \<in> R (ingress2secret c)"
    and "tls_DeleteIngress E io sch now ns n c = (es, c')"
    and "used = snd ` {p \<in> R (ingress2secret c). fst p \<noteq> NamespacedName ns n}"
  shows "mget (certs c') m = (if m \<in> used then mget (certs c) m else None) \<and>
    mget (cert_table c') m = (if m = DefaultCNName \<or> m \<in> used then mget (cert_table c) m else None) \<and>
    set es = {e. \<exists>k. mget (certs c) k \<noteq> None \<and> k \<notin> used \<and> e \<in> set (cert_removal io k)} \<and>
    tls_ok E R c'"
proof -
  note M = tls_certsI [OF assms(1)]
  have key: "mm_contains_key (tls_strs E) (ingress2secret c) (NamespacedName ns n)"
    using assms(3) by (auto simp: multimap.contains_key [OF assms(1)])
  note l = tls_certs.delete_ingress_certs [OF M assms(4,2) key]
  show ?thesis
    using l(2) [of m] l(3) [of m] l(4) tls_certs.delete_ingress_ok [OF M assms(4,2)]
    unfolding l(1) assms(5) [symmetric] by blast
qed

theorem delete_ingress_drops_unused_certs_witness:
  "mget (certs (snd (tls_DeleteIngress ex_tls_env ex_io [] ''u'' ''d'' ''i'' ex_tls_state))) ''d/c'' = None \<and>
   set (fst (tls_DeleteIngress ex_tls_env ex_io [] ''u'' ''d'' ''i'' ex_tls_state)) =
     {e. \<exists>k. mget (certs ex_tls_state) k \<noteq> None \<and> e \<in> set (cert_removal ex_io k)}"
proof -
  have i: "(NamespacedName ''d'' ''i'', ''d/c'') \<in> set (ingress2secret ex_tls_state)"
    by (simp add: ex_tls_index NamespacedName_def)
  have u: "{} = snd ` {p \<in> set (ingress2secret ex_tls_state). fst p \<noteq> NamespacedName ''d'' ''i''}"
    by (simp add: ex_tls_index NamespacedName_def)
  show ?thesis
    using delete_ingress_drops_unused_certs [OF ex_tls_multimap ex_tls_ok i prod.collapse [symmetric] u,
        of ex_io "[]" "''u''" "''d/c''"]
    by simp
qed

text \<open>
  C29: an update of an ingress succeeds exactly when the certificate and the key of each of its secrets
  belong together. Then every secret has its current data stored under its name, in place of what was
  stored before (of secrets of one name the last), and its two files in the certificate table; other
  certificates stay, the version is the new reading of the clock, and the index gains a pair of the
  ingress and each secret.
\<close>

theorem update_ingress_loads_secrets:
  assumes "multimap (tls_strs E) R" and "tls_ok E R c" and "tls_UpdateIngress E now ing secs c = (err, c')"
  shows "(err = None \<longleftrightarrow> (\<forall>sec \<in> set secs. pair_accepted E sec)) \<and>
    (err = None \<longrightarrow>
      mget (certs c') n = (case find (\<lambda>sec. secret_name sec = n) (rev secs) of
          None \<Rightarrow> mget (certs c) n | Some sec \<Rightarrow> Some (secret_pair sec)) \<and>
      mget (cert_table c') n = (case find (\<lambda>sec. secret_name sec = n) (rev secs) of
          None \<Rightarrow> mget (cert_table c) n
        | Some sec \<Rightarrow> Some \<lparr>sc_cert_file = ''tls_conf/certs/'' @ n @ ''.crt'',
            sc_key_file = ''tls_conf/certs/'' @ n @ ''.key'', sc_ocsp_file = []\<rparr>) \<and>
      bs_version (serverCertConf c') = (if secs = [] then bs_version (serverCertConf c) else now)) \<and>
    R (ingress2secret c') = R (ingress2secret c) \<union>
      {(NamespacedName (ing_namespace ing) (ing_name ing), secret_name sec) | sec. sec \<in> set secs} \<and>
    tls_ok E R c'"
proof -
  note M = tls_certsI [OF assms(1)]
  note s = tls_certs.update_ingress_stores [OF M assms(3), of n]
  note p = tls_certs.update_ingress_pairs [OF M assms(3,2)]
  have t: "mget (cert_table c') n = (case find (\<lambda>sec. secret_name sec = n) (rev secs) of
      None \<Rightarrow> mget (cert_table c) n | Some sec \<Rightarrow> Some (cert_files n))" if "err = None"
  proof (cases "find (\<lambda>sec. secret_name sec = n) (rev secs)")
    case None
    then have "mget (certs c') n = mget (certs c) n" using s that by simp
    then show ?thesis using tls_okD(1) [OF assms(2), of n] tls_okD(1) [of E R c' n] p None by simp
  next
    case (Some sec)
    then have "mget (certs c') n = Some (secret_pair sec)" using s that by simp
    then show ?thesis using tls_okD(1) [of E R c' n] p Some by simp
  qed
  show ?thesis
    using s p t unfolding secret_name_def [abs_def]
    by (auto simp: cert_files_def getCertFilePath_def getKeyFilePath_def CertKeyFilePath_def split: option.splits)
qed

text \<open>The certificate of the secret is renewed: the new pair takes the place of the old one.\<close>

definition ex_renewed :: secret where
  "ex_renewed = ex_secret\<lparr>sec_data := [(''tls.crt'', ''Q''), (''tls.key'', ''Q'')]\<rparr>"

definition ex_tls_renewed :: "((string \<times> string) list) tls_state" where
  "ex_tls_renewed = snd (tls_UpdateIngress ex_tls_env ''v'' ex_tls_ingress [ex_renewed] ex_tls_state)"

lemma ex_tls_renew:
  "tls_UpdateIngress ex_tls_env ''v'' ex_tls_ingress [ex_renewed] ex_tls_state = (None, ex_tls_renewed)"
  unfolding ex_tls_renewed_def ex_tls_state_def by code_simp

theorem update_ingress_loads_secrets_witness:
  "mget (certs ex_tls_state) ''d/c'' = Some \<lparr>cert_pem = ''P'', key_pem = ''P''\<rparr> \<and>
    mget (certs ex_tls_renewed) ''d/c'' = Some \<lparr>cert_pem = ''Q'', key_pem = ''Q''\<rparr> \<and>
    bs_version (serverCertConf ex_tls_renewed) = ''v''"
  using update_ingress_loads_secrets [OF ex_tls_multimap ex_tls_new ex_tls_update, of "''d/c''"]
    update_ingress_loads_secrets [OF ex_tls_multimap ex_tls_ok ex_tls_renew, of "''d/c''"]
  by (simp add: ex_renewed_def ex_secret_def secret_name_def secret_pair_def NamespacedName_def mget_or_def)

end
