(* ===== verification/Controller_Props.thy ===== *)
theory Controller_Props
  imports Controller_Spec Startup_Spec Route_Props Cluster_Props TLS_Props
begin

text \<open>
  The properties of the reconcilers, of the conversion of old API versions, of the options and of
  the start of the controller.
\<close>

subsection \<open>A cluster with one ingress\<close>

definition ex_env :: "((string \<times> http_rule) list, (string \<times> string) list) cb_env" where
  "ex_env = \<lparr>cb_sd = ex_sd_env, cb_cl = ex_cl_env, cb_tls = ex_tls_env\<rparr>"

definition ex_cb_choice :: cb_choice where
  "ex_cb_choice = \<lparr>cc_sd = ex_choice, cc_sd_undo = ex_choice, cc_balance = any_order, cc_sched = [],
     cc_cl_now = ''t3'', cc_cl_undo_now = ''t4'', cc_tls_now = ''t5''\<rparr>"

definition ex_rec_choice :: rec_choice where
  "ex_rec_choice = \<lparr>rc_update = ex_cb_choice, rc_delete = ex_cb_choice, rc_balance = any_order,
     rc_names = (\<lambda>_ _. [])\<rparr>"

definition ex_kube :: "ingress \<Rightarrow> kube" where
  "ex_kube i = \<lparr>get_ingress = (\<lambda>ns n. Inr i),
     get_service = (\<lambda>ns n. if n = ''s'' then Inr ex_svc else Inl (Foreign ''none'')),
     get_endpoints = (\<lambda>ns n. Inr ex_ep), get_secret = (\<lambda>ns n. Inr ex_secret),
     list_classes_v1 = Inr [], list_classes_v1beta1 = Inr []\<rparr>"

definition ex_good :: ingress where
  "ex_good = ex_ingress ''i'' None 5"

definition ex_start :: "((string \<times> http_rule) list, (string \<times> string) list) builder" where
  "ex_start = NewConfigBuilder ex_env"

definition ex_synced :: "((string \<times> http_rule) list, (string \<times> string) list) builder" where
  "ex_synced = fst (snd (snd (the (ReconcileV1Ingress ex_env NewOptions ex_io (ex_kube ex_good) ex_rec_choice ex_good ex_start))))"

lemma ex_sync:
  "ReconcileV1Ingress ex_env NewOptions ex_io (ex_kube ex_good) ex_rec_choice ex_good ex_start =
     Some ([], None, ex_synced, ex_good)"
  unfolding ex_synced_def by code_simp

lemma ex_start_reachable: "reachable ex_env ex_start"
  unfolding ex_start_def by (rule reachable.start)

lemma ex_good_named: "kube_named ex_good"
  by (simp add: kube_named_def ex_good_def ex_ingress_def NamespacedName_def)

lemma ex_synced_reachable: "reachable ex_env ex_synced"
  by (rule reconcile_reachable [OF ex_sync ex_start_reachable ex_good_named])

lemma ex_env_multimaps:
  "multimap (sd_rules (cb_sd ex_env)) set" "multimap (cl_strs (cb_cl ex_env)) set"
  "multimap (tls_strs (cb_tls ex_env)) set"
  by (simp_all add: ex_env_def ex_multimap ex_cl_multimap ex_tls_multimap)

definition ex_broken :: "((string \<times> http_rule) list, (string \<times> string) list) builder" where
  "ex_broken = fst (snd (snd (the (ReconcileV1Ingress ex_env NewOptions ex_io (ex_kube ex_bad) ex_rec_choice ex_bad ex_synced))))"

lemma ex_break:
  "ReconcileV1Ingress ex_env NewOptions ex_io (ex_kube ex_bad) ex_rec_choice ex_bad ex_synced =
     Some ([], Some (Illegal_Cookie ''k:''), ex_broken, ex_bad)"
  unfolding ex_broken_def ex_synced_def by code_simp

lemma ex_bad_named: "kube_named ex_bad"
  by (simp add: kube_named_def ex_bad_def ex_ingress_def NamespacedName_def)

subsection \<open>Reconciling an ingress\<close>

text \<open>
  C1: after a reconcile without error every path of the ingress is served: the cache holds a rule
  for its host, path and condition that is as old as the ingress, and the cluster of that rule is
  in the cluster table.
\<close>

theorem synced_ingress_is_served:
  assumes "multimap (sd_rules (cb_sd E)) R1" and "multimap (cl_strs (cb_cl E)) R2"
    and "multimap (tls_strs (cb_tls E)) R2" and "reachable E c" and "kube_named ing"
    and "ReconcileV1Ingress E opts io k ch ing c = Some (es, None, c', ing')"
    and "(h, p) \<in> set (paths_of ing)"
  shows "\<exists>r. route_view (ruleMap (routeRuleCache (serverDataConf c')))
      (rule_host h, rule_path p, cond_of (ing_annots ing)) = Some r \<and>
    r_time r = ing_created ing \<and> mget (table (clusterConf c')) (r_cluster r) \<noteq> None"
  using assms(6)
proof (cases rule: ReconcileV1Ingress_cases)
  case (synced services eps secs)
  have "(h, p) \<in> set (paths_of ing')" using assms(7) same_paths [OF synced(8)] by simp
  moreover have "kube_named ing'" using assms(5) kube_named_cong [OF synced(6,7)] by simp
  ultimately show ?thesis
    using builder_maps.cb_update_serves [OF builder_mapsI [OF assms(1-3)] synced(3) assms(4)] synced(9,10)
    by simp
qed simp

theorem synced_ingress_is_served_witness:
  "\<exists>r. route_view (ruleMap (routeRuleCache (serverDataConf ex_synced)))
      (rule_host ''a.b'', rule_path (ex_path ''/x'' ''s''), cond_of (ing_annots ex_good)) = Some r \<and>
    r_time r = ing_created ex_good \<and> mget (table (clusterConf ex_synced)) (r_cluster r) \<noteq> None"
  by (rule synced_ingress_is_served [OF ex_env_multimaps ex_start_reachable ex_good_named ex_sync])
    (simp add: paths_of_def ex_good_def ex_ingress_def)

text \<open>
  A reconcile that fails leaves nothing of the ingress: no rule in the cache, no cluster and no
  secret filed under it.
\<close>

lemma failed_reconcile_removes:
  assumes "multimap (sd_rules (cb_sd E)) R1" and "multimap (cl_strs (cb_cl E)) R2"
    and "multimap (tls_strs (cb_tls E)) R2" and "reachable E c" and "kube_named ing"
    and "ReconcileV1Ingress E opts io k ch ing c = Some (es, Some e, c', ing')"
  shows "(\<forall>key r. route_view (ruleMap (routeRuleCache (serverDataConf c'))) key = Some r \<longrightarrow>
      r_ingress r \<noteq> ingress_name ing) \<and>
    (\<forall>x. (ingress_name ing, x) \<notin> R2 (ingress2Cluster (clusterConf c'))) \<and>
    (\<forall>x. (ingress_name ing, x) \<notin> R2 (ingress2secret (tlsConf c')))"
  using assms(6)
proof (cases rule: ReconcileV1Ingress_cases)
  case (failed e1 c1)
  note M = builder_mapsI [OF assms(1-3)]
  have "kube_named ing'" using assms(5) kube_named_cong [OF failed(4,5)] by simp
  then have "reachable E c1"
    using failed(2) assms(4) by (blast intro: reachable.step cb_step.update_ingress)
  then have "builder_maps.cb_ok E R1 R2 c1" by (rule builder_maps.reachable_ok [OF M])
  from builder_maps.cb_delete_removes [OF M failed(3) this]
  show ?thesis unfolding ingress_name_def .
qed simp

text \<open>
  C27: when reading the backends succeeds, every service a path can be balanced to was found with
  the port of the path, and its endpoints were found and are not empty.
\<close>

theorem backends_read_completely:
  assumes "getIngressBackends opts k w sch ing = Some (Inr b)" and "GetBalance w (ing_annots ing) = Inr balance"
    and "p \<in> set (http_paths ing)" and "ib_service (hp_backend p) = Some s" and "name \<in> path_services balance s"
  shows "\<exists>svc ep. mget (fst b) (NamespacedName (ing_namespace ing) name) = Some svc \<and>
    list_ex (port_selected (sb_port s)) (svc_ports svc) \<and>
    mget (snd b) (NamespacedName (ing_namespace ing) name) = Some ep \<and> ep_subsets ep \<noteq> []"
proof -
  have ep: "getEndpoint k ns n = Inr ep \<Longrightarrow> ep_subsets ep \<noteq> []" for ns n ep
    by (auto simp: getEndpoint_def split: sum.splits list.splits if_splits)
  show ?thesis
    using getIngressBackends_finds [OF assms] ep by (auto simp: backend_found_def backend_read_def)
qed

definition ex_backends :: backends where
  "ex_backends = ([(''d/s'', ex_svc)], [(''d/s'', ex_ep)])"

lemma ex_read: "getIngressBackends NewOptions (ex_kube ex_good) any_order (\<lambda>_ _. []) ex_good = Some (Inr ex_backends)"
  unfolding ex_backends_def by code_simp

theorem backends_read_completely_witness:
  "\<exists>svc ep. mget (fst ex_backends) (NamespacedName (ing_namespace ex_good) ''s'') = Some svc \<and>
    list_ex (port_selected \<lparr>bp_name = [], bp_number = 80\<rparr>) (svc_ports svc) \<and>
    mget (snd ex_backends) (NamespacedName (ing_namespace ex_good) ''s'') = Some ep \<and> ep_subsets ep \<noteq> []"
proof -
  have b: "GetBalance any_order (ing_annots ex_good) = Inr None"
    by (simp add: GetBalance_def ex_good_def ex_ingress_def)
  have p: "ex_path ''/x'' ''s'' \<in> set (http_paths ex_good)"
    by (simp add: http_paths_def ex_good_def ex_ingress_def)
  have s: "ib_service (hp_backend (ex_path ''/x'' ''s'')) = Some \<lparr>sb_name = ''s'', sb_port = \<lparr>bp_name = [], bp_number = 80\<rparr>\<rparr>"
    by (simp add: ex_path_def ex_backend_def)
  show ?thesis
    using backends_read_completely [OF ex_read b p s, of "''s''"]
    by (simp add: path_services_def bal_find_def)
qed

subsection \<open>Status\<close>

text \<open>
  C33: writing the status is stable: once the status of an error with well-formed text is written,
  setting it again sends no patch.
\<close>

theorem status_write_is_stable:
  assumes "map_option utf8_sanitize err = err"
  shows "setStatus err (snd (setStatus err ing)) = ([], snd (setStatus err ing))"
proof (cases "CompareStatus err (ann_get (ing_annots ing) StatusAnnotationKey) = 0")
  case False
  have "ann_get (status_written err a) StatusAnnotationKey = GenErrorMsg err" for a
    by (simp add: ann_get_def status_written_lookup)
  then have "CompareStatus err (ann_get (status_written err a) StatusAnnotationKey) = 0" for a
    using CompareStatus_GenErrorMsg [of err err] assms by simp
  then show ?thesis using False by (simp add: setStatus_def Let_def)
qed (simp add: setStatus_def)

theorem status_write_is_stable_witness:
  "setStatus (Some ''path is not set'') (snd (setStatus (Some ''path is not set'') ex_good)) =
     ([], snd (setStatus (Some ''path is not set'') ex_good))"
  by (rule status_write_is_stable) (simp add: sanitize_ascii)

text \<open>
  The status is written into the annotation map that the cached rules of the ingress share;
  this changes neither the conditions of the rules, nor their priority, nor the weights.
\<close>

lemma status_write_keeps_routing:
  "cond_of (status_written err a) = cond_of a \<and> Priority (status_written err a) = Priority a \<and>
   GetRouteExpression (status_written err a) = GetRouteExpression a \<and>
   GetBalance w (status_written err a) = GetBalance w a"
proof -
  have get: "ann_get (status_written err a) k = ann_get a k" if "k \<noteq> StatusAnnotationKey" for k
    using that by (simp add: ann_get_def status_written_lookup)
  have cond: "cond_of (status_written err a) = cond_of a"
    by (simp add: cond_of_def get)
  have prio: "Priority (status_written err a) = Priority a"
    by (simp add: Priority_def status_written_lookup)
  have expr: "GetRouteExpression (status_written err a) = GetRouteExpression a"
    unfolding GetRouteExpression_def by (subst (1 2) get) simp_all
  have find: "ann_find (status_written err a) WeightAnnotation = ann_find a WeightAnnotation"
    by (simp add: status_written_lookup)
  have "GetBalance w (status_written err a) = GetBalance w a"
    unfolding GetBalance_def find ..
  with cond prio expr show ?thesis by simp
qed

text \<open>
  C37: an ingress of an old API version that has no annotations, and is admitted by its class,
  makes the reconcile panic: the status is written into a nil map.
\<close>

theorem unannotated_beta_ingress_panics:
  assumes "get namespace name = Inr ing" and "bi_annots ing = None"
    and "IngressClassFilter opts (list_classes_v1 k) (list_classes_v1beta1 k) None (bi_class ing)"
  shows "netv1beta1_Reconcile jt E opts io k get ch namespace name c = None \<and>
    extv1beta1_Reconcile jt E opts io k get ch namespace name c = None"
  using assms
  by (auto simp: netv1beta1_Reconcile_def netv1beta1_setStatus_def extv1beta1_Reconcile_def
      extv1beta1_setStatus_def CompareStatus_def split: option.splits prod.splits)

definition ex_beta :: beta_ingress where
  "ex_beta = \<lparr>bi_namespace = ''d'', bi_name = ''i'', bi_resource_version = [], bi_annots = None, bi_created = 5,
     bi_class = Some ''bfe'', bi_default = None, bi_tls = [],
     bi_rules = [\<lparr>br_host = ''a.b'', br_http = Some [\<lparr>bt_path = ''/x'', bt_type = Some ''Prefix'',
       bt_backend = \<lparr>bb_service = ''s'', bb_port = \<lparr>ios_type = IosInt, ios_int = 80, ios_str = []\<rparr>\<rparr>\<rparr>]\<rparr>]\<rparr>"

definition ex_class_kube :: kube where
  "ex_class_kube = (ex_kube ex_good)\<lparr>list_classes_v1 := Inr [\<lparr>ic_name = ''bfe'',
     ic_controller = ''bfe-networks.com/ingress-controller'', ic_annots = None\<rparr>]\<rparr>"

lemma ex_beta_annots: "bi_annots ex_beta = None"
  by (simp add: ex_beta_def)

lemma ex_beta_admitted:
  "IngressClassFilter NewOptions (list_classes_v1 ex_class_kube) (list_classes_v1beta1 ex_class_kube) None
     (bi_class ex_beta)"
  by code_simp

theorem unannotated_beta_ingress_panics_witness:
  "netv1beta1_Reconcile (\<lambda>_. []) ex_env NewOptions ex_io ex_class_kube
     (\<lambda>_ _. Inr ex_beta) ex_rec_choice ''d'' ''i'' ex_start = None"
  using unannotated_beta_ingress_panics [OF refl ex_beta_annots ex_beta_admitted] by blast

subsection \<open>Conversion\<close>

lemma netv1beta1_paths_None: "netv1beta1_paths ps = None \<longleftrightarrow> list_ex (\<lambda>p. bt_type p = None) ps"
  by (induction ps) (auto simp: netv1beta1_path_def split: option.splits)

lemma extv1beta1_paths_eq: "extv1beta1_paths ps out = map_option ((@) out) (netv1beta1_paths ps)"
  by (induction ps arbitrary: out) (auto simp: netv1beta1_path_def split: option.splits)

lemma extv1beta1_paths_start: "extv1beta1_paths ps [] = netv1beta1_paths ps"
  by (cases "netv1beta1_paths ps") (simp_all add: extv1beta1_paths_eq)

text \<open>The second package is the first one, as long as every rule has paths.\<close>

lemma extv1beta1_rules_eq:
  "extv1beta1_rules rs out =
     (if list_all (\<lambda>r. br_http r \<noteq> None) rs then map_option ((@) out) (netv1beta1_rules rs) else None)"
  by (induction rs arbitrary: out) (auto simp: extv1beta1_paths_start split: option.splits)

lemma netv1beta1_rules_filter:
  "netv1beta1_rules (filter (\<lambda>r. br_http r \<noteq> None) rs) = netv1beta1_rules rs"
  by (induction rs) (auto split: option.splits)

lemma netv1beta1_rules_None:
  "list_all (\<lambda>r. br_http r \<noteq> None) rs \<Longrightarrow> netv1beta1_rules rs = None \<longleftrightarrow>
     list_ex (\<lambda>r. case br_http r of None \<Rightarrow> True | Some ps \<Rightarrow> list_ex (\<lambda>p. bt_type p = None) ps) rs"
  by (induction rs) (auto simp: netv1beta1_paths_None [symmetric] split: option.splits)

lemma extv1beta1_convert_eq:
  "extv1beta1_convert i =
     (if list_all (\<lambda>r. br_http r \<noteq> None) (bi_rules i) then netv1beta1_convert i else None)"
  by (simp add: extv1beta1_convert_def netv1beta1_convert_def extv1beta1_rules_eq split: option.splits)

text \<open>
  C38: the two conversions agree up to rules without paths, which one drops and the other panics
  on; a path without a type panics in both.
\<close>

theorem conversions_agree:
  "netv1beta1_convert i = extv1beta1_convert (i\<lparr>bi_rules := filter (\<lambda>r. br_http r \<noteq> None) (bi_rules i)\<rparr>) \<and>
   (extv1beta1_convert i = None \<longleftrightarrow>
      list_ex (\<lambda>r. case br_http r of None \<Rightarrow> True | Some ps \<Rightarrow> list_ex (\<lambda>p. bt_type p = None) ps) (bi_rules i))"
proof
  show "netv1beta1_convert i = extv1beta1_convert (i\<lparr>bi_rules := filter (\<lambda>r. br_http r \<noteq> None) (bi_rules i)\<rparr>)"
    by (simp add: extv1beta1_convert_eq netv1beta1_convert_def netv1beta1_rules_filter list_all_iff del: not_None_eq)
  show "extv1beta1_convert i = None \<longleftrightarrow>
      list_ex (\<lambda>r. case br_http r of None \<Rightarrow> True | Some ps \<Rightarrow> list_ex (\<lambda>p. bt_type p = None) ps) (bi_rules i)"
  proof (cases "list_all (\<lambda>r. br_http r \<noteq> None) (bi_rules i)")
    case True
    then show ?thesis by (simp add: extv1beta1_convert_eq netv1beta1_convert_def netv1beta1_rules_None)
  next
    case False
    then obtain r where "r \<in> set (bi_rules i)" "br_http r = None" by (auto simp: list_all_iff)
    then show ?thesis using False
      by (auto simp: extv1beta1_convert_eq list_ex_iff split: option.splits intro!: bexI [of _ r])
  qed
qed

subsection \<open>Options\<close>

text \<open>
  C39: checked options of an enabled controller end the configuration path with a slash, derive it
  from the BFE binary when there is one (whatever path was configured), derive the reload URL from
  its address, and have a default backend only in the form of two names around one slash.
\<close>

theorem checked_options:
  assumes "EnableIngress o1" and "Check o1 = (None, o2)"
  shows "has_suffix (ConfigPath o2) ''/'' \<and>
    (BfeBinary o1 \<noteq> [] \<longrightarrow> ConfigPath o2 = path_dir (path_dir (BfeBinary o1)) @ ''/conf/'') \<and>
    ReloadUrl o2 = ''http://'' @ ReloadAddr o1 @ ''/reload/'' \<and>
    (DefaultBackend o2 = [] \<or> (\<exists>ns n. split_on (CHR ''/'') (DefaultBackend o2) = [ns, n])) \<and>
    DefaultBackend o2 = DefaultBackend o1"
proof -
  have two: "length xs = 2 \<longleftrightarrow> (\<exists>a b. xs = [a, b])" for xs :: "string list"
    by (cases xs; cases "tl xs") auto
  have conf: "\<not> has_suffix (x @ ''/conf'') ''/''" "has_suffix (x @ ''/'') ''/''"
    "has_suffix (x @ ''/conf/'') ''/''" for x
    by (simp_all add: has_suffix_def)
  show ?thesis
    using assms by (auto simp: Check_def Let_def conf two split: if_splits)
qed

lemma ex_check: "Check NewIngressOptions = (None, snd (Check NewIngressOptions))"
  by code_simp

lemma ex_enabled: "EnableIngress NewIngressOptions"
  by code_simp

theorem checked_options_witness:
  "has_suffix (ConfigPath (snd (Check NewIngressOptions))) ''/'' \<and>
   ReloadUrl (snd (Check NewIngressOptions)) = ''http://'' @ ReloadAddr NewIngressOptions @ ''/reload/''"
  using checked_options [OF ex_enabled ex_check] by simp

text \<open>
  With the options set, the controller handles an object exactly when no namespace was given
  or the namespace of the object is one of the list.
\<close>

lemma namespace_filter_iff:
  assumes "SetOptions o1 = Inr o2"
  shows "NamespaceFilter o2 ns \<longleftrightarrow> Namespaces o1 = [] \<or> ns \<in> set (split_on (CHR '','') (Namespaces o1))"
proof -
  have l: "NamespaceList o2 = split_on (CHR '','') (Namespaces o1)"
    using assms by (auto simp: SetOptions_def split: prod.splits option.splits)
  have one: "length (split_on (CHR '','') x) = 1 \<and> split_on (CHR '','') x ! 0 = [] \<longleftrightarrow> x = []" for x
    using join_split_on [of "CHR '',''" x] by (cases "split_on (CHR '','') x") (auto)
  show ?thesis using one by (auto simp: NamespaceFilter_def l NamespaceAll_def list_ex_iff)
qed

subsection \<open>Start\<close>

text \<open>
  The API is chosen by comparing version numbers as text: minor versions of two digits get the
  API they serve, but 2 to 9 are taken for versions from 19 on.
\<close>

lemma api_chosen_by_text:
  assumes "n < 100"
  shows "select_api ''1'' (show_nat n) =
    (if 19 \<le> n \<or> (2 \<le> n \<and> n \<le> 9) then NetV1 else if 14 \<le> n then NetV1beta1 else ExtV1beta1)"
proof -
  have "list_all (\<lambda>n. select_api ''1'' (show_nat n) =
    (if 19 \<le> n \<or> (2 \<le> n \<and> n \<le> 9) then NetV1 else if 14 \<le> n then NetV1beta1 else ExtV1beta1)) [0..<100]"
    by code_simp
  then show ?thesis using assms by (simp add: list_all_iff del: upt_rec_numeral)
qed

lemma api_chosen_by_text_witness: "select_api ''1'' (show_nat 8) = NetV1"
  using api_chosen_by_text [of 8] by simp

subsection \<open>What is ignored\<close>

text \<open>
  An ingress of another class changes nothing, even if it was of this class before; nor does a
  service or a secret that is gone.
\<close>

lemma other_class_keeps_configuration:
  assumes "get_ingress r ns n = Inr ing"
    and "\<not> IngressClassFilter opts (list_classes_v1 r) (list_classes_v1beta1 r) (ing_annots ing) (ing_class ing)"
  shows "Reconcile jt E opts io r ch ns n c = Some ([], [], None, c)"
  using assms by (simp add: Reconcile_def)

lemma missing_service_keeps_configuration:
  "get_service r ns n = Inl e \<Longrightarrow> service_Reconcile E r ch ns n c = Some c"
  by (simp add: service_Reconcile_def)

lemma missing_secret_keeps_configuration:
  "get_secret r ns n = Inl e \<Longrightarrow> secret_Reconcile E r ch ns n c = c"
  by (simp add: secret_Reconcile_def)

end
