(* ===== verification/Loop_Props.thy ===== *)
theory Loop_Props
  imports Loop_Spec Controller_Props
begin

text \<open>
  The properties of runs of the controller, of single requests, and of the update that the server
  data refuse.
\<close>

subsection \<open>Runs of the controller\<close>

text \<open>
  C5: whatever objects change and whenever BFE is reloaded, as long as no handler panics: every
  cached rule has its cluster, every weighted service is a sub-cluster, and every certificate was
  checked and is named by an ingress.
\<close>

theorem controller_keeps_invariants:
  assumes "multimap (sd_rules (cb_sd E)) R1" and "multimap (cl_strs (cb_cl E)) R2"
    and "multimap (tls_strs (cb_tls E)) R2" and "run_named evs"
    and "controller_run jt E opts cts mj evs (NewConfigBuilder E) h = Some (h', c)"
  shows "(\<forall>host p r. r \<in> set (rules_at (ruleMap (routeRuleCache (serverDataConf c))) host p) \<longrightarrow>
      mget (table (clusterConf c)) (r_cluster r) \<noteq> None) \<and>
    weights_ok (clusterConf c) \<and> tls_ok (cb_tls E) R2 (tlsConf c)"
proof -
  note M = builder_mapsI [OF assms(1-3)]
  have c: "reachable E c" by (rule run_reachable [OF assms(5) reachable.start assms(4)])
  have "weights_ok (clusterConf c) \<and> tls_ok (cb_tls E) R2 (tlsConf c)"
    using builder_maps.reachable_ok [OF M c] unfolding builder_maps.cb_ok_def [OF M] by blast
  then show ?thesis using builder_maps.cached_rule_has_cluster [OF M c] by blast
qed

definition ex_marshal :: cb_marshal where
  "ex_marshal = \<lparr>mj_sd = \<lparr>mj_host = (\<lambda>_. Inr ''H''), mj_route = (\<lambda>_. Inr ''R''), mj_cluster = (\<lambda>_. Inr ''C'')\<rparr>,
     mj_cl = \<lparr>mj_gslb = (\<lambda>_. Inr ''G''), mj_table = (\<lambda>_. Inr ''T'')\<rparr>,
     mj_tls = \<lparr>mj_cert = (\<lambda>_. Inr ''S''), mj_rule = (\<lambda>_. Inr ''U'')\<rparr>\<rparr>"

definition ex_world :: "ingress \<Rightarrow> world" where
  "ex_world i = \<lparr>wo_io = ex_io, wo_kube = (ex_kube i)\<lparr>get_ingress := (\<lambda>ns n. if n = ing_name i then Inr i else Inl (Foreign ''none'')),
       list_classes_v1 := Inr [\<lparr>ic_name = ''bfe'', ic_controller = ControllerName NewIngressOptions,
         ic_annots = Some [(IsDefaultIngressClass, ''true'')]\<rparr>]\<rparr>,
     wo_beta = (\<lambda>ns n. Inl (Foreign ''none'')), wo_rec = ex_rec_choice, wo_choice = ex_cb_choice\<rparr>"

definition ex_opts :: options where
  "ex_opts = NewOptions\<lparr>NamespaceList := [''d'']\<rparr>"

definition ex_events :: "loop_event list" where
  "ex_events =
     [Object \<lparr>oe_kind = Ingress_Object NetV1, oe_namespace = ''d'', oe_name = ''i''\<rparr> (ex_world ex_good),
      Reload [] ex_io,
      Object \<lparr>oe_kind = Ingress_Object NetV1, oe_namespace = ''other'', oe_name = ''i''\<rparr> (ex_world ex_good)]"

definition ex_manager :: manager where
  "ex_manager = \<lparr>mg_client = 2, mg_scheme = 3, mg_recorder = (\<lambda>_. 4), mg_complete = (\<lambda>_. None), mg_controllers = []\<rparr>"

definition ex_ran :: "trace \<times> ((string \<times> http_rule) list, (string \<times> string) list) builder" where
  "ex_ran = the (controller_run (\<lambda>_. []) ex_env ex_opts (registered ex_manager 1 NetV1) ex_marshal ex_events (NewConfigBuilder ex_env) [])"

lemma ex_run:
  "controller_run (\<lambda>_. []) ex_env ex_opts (registered ex_manager 1 NetV1) ex_marshal ex_events (NewConfigBuilder ex_env) [] =
     Some (fst ex_ran, snd ex_ran)"
  unfolding ex_ran_def by code_simp

lemma ex_run_named: "run_named ex_events"
  by (simp add: run_named_def ex_events_def world_named_def ex_world_def ex_good_named)

lemma ex_run_rules: "rules_at (ruleMap (routeRuleCache (serverDataConf (snd ex_ran)))) ''a.b'' ''/x'' \<noteq> []"
  unfolding ex_ran_def by code_simp

theorem controller_keeps_invariants_witness:
  "(\<exists>r. r \<in> set (rules_at (ruleMap (routeRuleCache (serverDataConf (snd ex_ran)))) ''a.b'' ''/x'') \<and>
      mget (table (clusterConf (snd ex_ran))) (r_cluster r) \<noteq> None) \<and>
    weights_ok (clusterConf (snd ex_ran)) \<and> tls_ok (cb_tls ex_env) set (tlsConf (snd ex_ran))"
  using controller_keeps_invariants [OF ex_env_multimaps ex_run_named ex_run] ex_run_rules
  by (meson ex_in_conv set_empty)

text \<open>
  C40: once the controller is started, all its reconcilers work on the builder that is reloaded, and
  events of objects in namespaces that are not watched, and of ingresses of another API version,
  change nothing: a run is the run of the other events. (The service of a default backend in such a
  namespace is no exception.)
\<close>

theorem unwatched_events_ignored:
  assumes "Start opts env = (steps, None, mgr)"
  shows "Init_Reload (se_builder env) (ReloadInterval (Ingress opts)) \<in> set steps \<and>
   builder_of ` ct_object ` set (mg_controllers mgr) = {se_builder env} \<and>
   controller_run jt E opts (mg_controllers mgr) mj
     (filter (\<lambda>ev. case ev of Object e _ \<Rightarrow> NamespaceFilter opts (oe_namespace e) \<and>
          oe_kind e \<notin> Ingress_Object ` {v. v \<noteq> select_api (se_major env) (se_minor env)}
        | Reload _ _ \<Rightarrow> True) evs) c h =
   controller_run jt E opts (mg_controllers mgr) mj evs c h"
proof (intro conjI)
  note shared = controllers_share_builder [OF assms]
  have cts: "mg_controllers mgr = registered (new_manager env) (se_builder env) (select_api (se_major env) (se_minor env))"
    using Start_run_steps [OF assms] by simp
  show "Init_Reload (se_builder env) (ReloadInterval (Ingress opts)) \<in> set steps" using shared by blast
  show "builder_of ` ct_object ` set (mg_controllers mgr) = {se_builder env}"
    unfolding cts by (simp add: registered_def)
  show "controller_run jt E opts (mg_controllers mgr) mj
     (filter (\<lambda>ev. case ev of Object e _ \<Rightarrow> NamespaceFilter opts (oe_namespace e) \<and>
          oe_kind e \<notin> Ingress_Object ` {v. v \<noteq> select_api (se_major env) (se_minor env)}
        | Reload _ _ \<Rightarrow> True) evs) c h =
   controller_run jt E opts (mg_controllers mgr) mj evs c h"
    unfolding cts
    by (induction jt E opts "registered (new_manager env) (se_builder env) (select_api (se_major env) (se_minor env))"
        mj evs c h rule: controller_run.induct)
      (auto simp: requests_registered split: option.splits prod.splits)
qed

definition ex_cluster :: start_env where
  "ex_cluster = \<lparr>se_builder = 1, se_scheme = 3, se_client = 2, se_recorder = (\<lambda>_. 4), se_fails = (\<lambda>_. None), se_major = ''1'', se_minor = ''22''\<rparr>"

lemma ex_started: "Start ex_opts ex_cluster = (fst (Start ex_opts ex_cluster), None, snd (snd (Start ex_opts ex_cluster)))"
proof -
  have "fst (snd (Start ex_opts ex_cluster)) = None" by code_simp
  then show ?thesis by (metis prod.collapse)
qed

theorem unwatched_events_ignored_witness:
  "controller_run (\<lambda>_. []) ex_env ex_opts (mg_controllers (snd (snd (Start ex_opts ex_cluster)))) ex_marshal
     (take 2 ex_events) (NewConfigBuilder ex_env) [] =
   controller_run (\<lambda>_. []) ex_env ex_opts (mg_controllers (snd (snd (Start ex_opts ex_cluster)))) ex_marshal
     ex_events (NewConfigBuilder ex_env) []"
proof -
  have api: "select_api (se_major ex_cluster) (se_minor ex_cluster) = NetV1" by code_simp
  have ns: "NamespaceFilter ex_opts ''d''" "\<not> NamespaceFilter ex_opts ''other''" by code_simp+
  show ?thesis
    using unwatched_events_ignored [OF ex_started, of "\<lambda>_. []" ex_env ex_marshal ex_events "NewConfigBuilder ex_env" "[]",
      THEN conjunct2, THEN conjunct2]
    by (simp add: api ns ex_events_def image_iff)
qed

subsection \<open>A failed request\<close>

text \<open>The API server answers with the object asked for, under a name Kubernetes allows.\<close>

definition answers_as_asked :: "world \<Rightarrow> bool" where
  "answers_as_asked w \<longleftrightarrow>
     (\<forall>ns n i. get_ingress (wo_kube w) ns n = Inr i \<longrightarrow> ing_namespace i = ns \<and> ing_name i = n \<and> kube_named i) \<and>
     (\<forall>ns n b. wo_beta w ns n = Inr b \<longrightarrow> bi_namespace b = ns \<and> bi_name b = n \<and>
        CHR ''_'' \<notin> set (NamespacedName ns n))"

text \<open>An error of a reconcile is the error of the ingress found.\<close>

lemma Reconcile_error:
  assumes "Reconcile jt E opts io k ch ns n c = Some (es, ks, Some e, c')"
  shows "\<exists>i i'. get_ingress k ns n = Inr i \<and> ReconcileV1Ingress E opts io k ch i c = Some (es, Some e, c', i')"
  using assms
  by (cases "get_ingress k ns n") (auto simp: Reconcile_def split: if_splits option.splits prod.splits)

lemma netv1beta1_Reconcile_error:
  assumes "netv1beta1_Reconcile jt E opts io k get ch ns n c = Some (es, ks, Some e, c')"
  shows "\<exists>b i i'. get ns n = Inr b \<and> ing_namespace i = bi_namespace b \<and> ing_name i = bi_name b \<and>
    ReconcileV1Ingress E opts io k ch i c = Some (es, Some e, c', i')"
proof (cases "get ns n")
  case (Inr b)
  then obtain i i' where "netv1beta1_convert b = Some i" "ReconcileV1Ingress E opts io k ch i c = Some (es, Some e, c', i')"
    using assms by (auto simp: netv1beta1_Reconcile_def split: if_splits option.splits prod.splits)
  then show ?thesis using Inr netv1beta1_convert_names by blast
qed (use assms in \<open>simp add: netv1beta1_Reconcile_def split: prod.splits\<close>)

lemma extv1beta1_Reconcile_error:
  assumes "extv1beta1_Reconcile jt E opts io k get ch ns n c = Some (es, ks, Some e, c')"
  shows "\<exists>b i i'. get ns n = Inr b \<and> ing_namespace i = bi_namespace b \<and> ing_name i = bi_name b \<and>
    ReconcileV1Ingress E opts io k ch i c = Some (es, Some e, c', i')"
proof (cases "get ns n")
  case (Inr b)
  then obtain i i' where "extv1beta1_convert b = Some i" "ReconcileV1Ingress E opts io k ch i c = Some (es, Some e, c', i')"
    using assms by (auto simp: extv1beta1_Reconcile_def split: if_splits option.splits prod.splits)
  then show ?thesis using Inr extv1beta1_convert_names by blast
qed (use assms in \<open>simp add: extv1beta1_Reconcile_def split: prod.splits\<close>)

lemma handle_error:
  assumes "handle jt E opts w (r, ns, n) c = Some (es, Some e, c')" and "answers_as_asked w"
  shows "\<exists>v i i'. r = Ingress_Reconciler v \<and> ing_namespace i = ns \<and> ing_name i = n \<and> kube_named i \<and>
    ReconcileV1Ingress E opts (wo_io w) (wo_kube w) (wo_rec w) i c = Some (es, Some e, c', i')"
proof (cases r)
  case (Ingress_Reconciler v)
  note asked = assms(2) [unfolded answers_as_asked_def]
  show ?thesis
  proof (cases v)
    case NetV1
    then obtain ks where "Reconcile jt E opts (wo_io w) (wo_kube w) (wo_rec w) ns n c = Some (es, ks, Some e, c')"
      using assms(1) Ingress_Reconciler by (auto simp: handle_def)
    from Reconcile_error [OF this] show ?thesis using asked Ingress_Reconciler by blast
  next
    case NetV1beta1
    then obtain ks where "netv1beta1_Reconcile jt E opts (wo_io w) (wo_kube w) (wo_beta w) (wo_rec w) ns n c =
        Some (es, ks, Some e, c')"
      using assms(1) Ingress_Reconciler by (auto simp: handle_def)
    from netv1beta1_Reconcile_error [OF this] show ?thesis
      using asked Ingress_Reconciler unfolding kube_named_def by metis
  next
    case ExtV1beta1
    then obtain ks where "extv1beta1_Reconcile jt E opts (wo_io w) (wo_kube w) (wo_beta w) (wo_rec w) ns n c =
        Some (es, ks, Some e, c')"
      using assms(1) Ingress_Reconciler by (auto simp: handle_def)
    from extv1beta1_Reconcile_error [OF this] show ?thesis
      using asked Ingress_Reconciler unfolding kube_named_def by metis
  qed
qed (use assms(1) in \<open>auto simp: handle_def\<close>)

text \<open>
  C3: a request that fails, and is therefore tried again later, is the request of an ingress of some
  API version; it leaves nothing of the ingress: no rule in the cache, no cluster and no secret
  filed under its name.
\<close>

theorem failed_request_removes_ingress:
  assumes "multimap (sd_rules (cb_sd E)) R1" and "multimap (cl_strs (cb_cl E)) R2"
    and "multimap (tls_strs (cb_tls E)) R2" and "reachable E c" and "answers_as_asked w"
    and "handle jt E opts w (r, ns, n) c = Some (es, Some e, c')"
  shows "(\<exists>v. r = Ingress_Reconciler v) \<and>
    (\<forall>key rule. route_view (ruleMap (routeRuleCache (serverDataConf c'))) key = Some rule \<longrightarrow>
      r_ingress rule \<noteq> NamespacedName ns n) \<and>
    (\<forall>x. (NamespacedName ns n, x) \<notin> R2 (ingress2Cluster (clusterConf c'))) \<and>
    (\<forall>x. (NamespacedName ns n, x) \<notin> R2 (ingress2secret (tlsConf c')))"
proof -
  obtain v i i' where i: "r = Ingress_Reconciler v" "ing_namespace i = ns" "ing_name i = n" "kube_named i"
    "ReconcileV1Ingress E opts (wo_io w) (wo_kube w) (wo_rec w) i c = Some (es, Some e, c', i')"
    using handle_error [OF assms(6,5)] by blast
  show ?thesis using failed_reconcile_removes [OF assms(1-4) i(4,5)] i(1-3) by (simp add: ingress_name_def)
qed

text \<open>The synced ingress, with a cookie condition that cannot be read.\<close>

definition ex_bad_world :: world where
  "ex_bad_world = (ex_world ex_bad)\<lparr>wo_kube := (wo_kube (ex_world ex_bad))\<lparr>get_ingress :=
     (\<lambda>ns n. if ns = ing_namespace ex_bad \<and> n = ing_name ex_bad then Inr ex_bad else Inl (Foreign ''none''))\<rparr>\<rparr>"

lemma ex_bad_world_asked: "answers_as_asked ex_bad_world"
  by (simp add: answers_as_asked_def ex_bad_world_def ex_world_def ex_bad_named)

lemma ex_failed_request:
  "handle (\<lambda>_. []) ex_env ex_opts ex_bad_world (Ingress_Reconciler NetV1, ing_namespace ex_bad, ing_name ex_bad) ex_synced =
     Some ([], Some (Illegal_Cookie ''k:''), ex_broken)"
  unfolding ex_broken_def ex_synced_def by code_simp

theorem failed_request_removes_ingress_witness:
  "(\<nexists>key rule. route_view (ruleMap (routeRuleCache (serverDataConf ex_broken))) key = Some rule \<and>
      r_ingress rule = NamespacedName (ing_namespace ex_bad) (ing_name ex_bad)) \<and>
    (\<forall>x. (NamespacedName (ing_namespace ex_bad) (ing_name ex_bad), x) \<notin> set (ingress2Cluster (clusterConf ex_broken)))"
  using failed_request_removes_ingress [OF ex_env_multimaps ex_synced_reachable ex_bad_world_asked ex_failed_request]
  by blast

subsection \<open>A refused update\<close>

lemma refused_update_forgets:
  assumes "multimap (sd_rules E) R" and "sd_UpdateIngress E ch ing s = Some (Some e, s')"
  shows "sd_DeleteIngress E ch' (ing_namespace ing) (ing_name ing) s' = s'"
proof -
  have "\<not> ContainsIngress (sd_rules E) (ingress_name ing) (routeRuleCache s')"
    using assms(2)
  proof (cases rule: sd_UpdateIngress_cases)
    case (refused e s2)
    then show ?thesis using multimap.key_after_remove_all [OF assms(1)]
      by (simp add: sd_delete_rules_def ContainsIngress_def delete_rules_def)
  next
    case (unroutable e s2)
    then show ?thesis using multimap.key_after_remove_all [OF assms(1)]
      by (simp add: sd_delete_rules_def ContainsIngress_def delete_rules_def)
  qed simp_all
  then show ?thesis by (simp add: sd_DeleteIngress_def ingress_name_def)
qed

text \<open>
  C13: when the server data refuses an ingress, deleting the ingress afterwards (as the reconciler
  does) drops its clusters, from the cluster table, from the weights and from the index, but leaves the
  generated route table as it was: the rules of its last good version stay in the table, with clusters
  that are gone.
\<close>

theorem refused_update_stays_routed:
  assumes "multimap (sd_rules (cb_sd E)) R1" and "multimap (cl_strs (cb_cl E)) R2"
    and "multimap (tls_strs (cb_tls E)) R2" and "reachable E c" and "kube_named ing"
    and "sd_UpdateIngress (cb_sd E) (cc_sd ch) ing (serverDataConf c) = Some (Some e, s1)"
    and "cb_UpdateIngress E ch ing services eps secs c = Some (err, c1)"
    and "cb_DeleteIngress E io ch' (ing_namespace ing) (ing_name ing) c1 = (es, c2)"
  shows "err = Some e \<and>
    routeTableFile (serverDataConf c2) = routeTableFile (serverDataConf c) \<and>
    (\<forall>n. (ingress_name ing, n) \<notin> R2 (ingress2Cluster (clusterConf c2)) \<and>
      ((ingress_name ing, n) \<in> R2 (ingress2Cluster (clusterConf c)) \<longrightarrow>
        mget (table (clusterConf c2)) n = None \<and> mget (gslb (clusterConf c2)) n = None))"
proof -
  note M = builder_mapsI [OF assms(1-3)]
  have c1: "err = Some e" "c1 = c\<lparr>serverDataConf := s1\<rparr>"
    using assms(6,7) by (simp_all add: cb_UpdateIngress_def)
  have "reachable E c1" using assms(4,5,7) by (blast intro: reachable.step cb_step.update_ingress)
  then have "builder_maps.cb_ok E R1 R2 c1" by (rule builder_maps.reachable_ok [OF M])
  from builder_maps.cb_delete_removes [OF M assms(8) this]
  have gone: "\<forall>x. (ingress_name ing, x) \<notin> R2 (ingress2Cluster (clusterConf c2))"
    unfolding ingress_name_def by blast
  have dropped: "mget (table (clusterConf c2)) n = None \<and> mget (gslb (clusterConf c2)) n = None"
    if "(ingress_name ing, n) \<in> R2 (ingress2Cluster (clusterConf c))" for n
  proof -
    have "clusterConf c2 = cl_DeleteIngress (cb_cl E) (cc_cl_now ch') (ing_namespace ing) (ing_name ing) (clusterConf c)"
      using assms(8) by (auto simp: cb_DeleteIngress_def Let_def c1(2) split: prod.splits)
    then show ?thesis
      using that cluster_maps.delete_ingress_lookup [OF cluster_mapsI [OF assms(2)]]
        cluster_maps.removed_by_def [OF cluster_mapsI [OF assms(2)]]
      by (simp add: ingress_name_def)
  qed
  have wf: "wf_cache R1 (routeRuleCache (serverDataConf c))"
    using builder_maps.reachable_ok [OF M assms(4)] unfolding builder_maps.cb_ok_def [OF M] by blast
  have "sd_tables s1 = sd_tables (serverDataConf c)"
    using server_rules.update_error [OF server_rulesI [OF assms(1)] assms(6) wf] by blast
  then have "routeTableFile s1 = routeTableFile (serverDataConf c)" by (simp add: sd_tables_def)
  moreover have "serverDataConf c2 = s1"
    using assms(8) refused_update_forgets [OF assms(1,6)] c1(2)
    by (auto simp: cb_DeleteIngress_def Let_def split: prod.splits)
  ultimately show ?thesis using c1(1) gone dropped by simp
qed

text \<open>The synced ingress again, with an annotation spoiled.\<close>

definition ex_spoiled :: ingress where
  "ex_spoiled = ex_ingress ''i'' (Some [(CookieAnnotation, ''k:'')]) 5"

lemma ex_spoiled_named: "kube_named ex_spoiled"
  by (simp add: kube_named_def ex_spoiled_def ex_ingress_def NamespacedName_def)

definition ex_refusal :: "((string \<times> http_rule) list, (string \<times> string) list) builder" where
  "ex_refusal = snd (the (cb_UpdateIngress ex_env ex_cb_choice ex_spoiled [] [] [] ex_synced))"

definition ex_stale :: "((string \<times> http_rule) list, (string \<times> string) list) builder" where
  "ex_stale = snd (cb_DeleteIngress ex_env ex_io ex_cb_choice (ing_namespace ex_spoiled) (ing_name ex_spoiled) ex_refusal)"

lemma ex_refused:
  "sd_UpdateIngress (cb_sd ex_env) (cc_sd ex_cb_choice) ex_spoiled (serverDataConf ex_synced) =
     Some (Some (Illegal_Cookie ''k:''), serverDataConf ex_refusal)"
  "cb_UpdateIngress ex_env ex_cb_choice ex_spoiled [] [] [] ex_synced = Some (Some (Illegal_Cookie ''k:''), ex_refusal)"
  "cb_DeleteIngress ex_env ex_io ex_cb_choice (ing_namespace ex_spoiled) (ing_name ex_spoiled) ex_refusal = ([], ex_stale)"
  unfolding ex_stale_def ex_refusal_def ex_synced_def by code_simp+

lemma ex_table_names: "''d/i_s_80'' \<in> table_clusters (routeTableFile (serverDataConf ex_synced))"
  unfolding ex_synced_def by code_simp

lemma ex_synced_index: "(ingress_name ex_spoiled, ''d/i_s_80'') \<in> set (ingress2Cluster (clusterConf ex_synced))"
  unfolding ex_synced_def by code_simp

theorem refused_update_stays_routed_witness:
  "''d/i_s_80'' \<in> table_clusters (routeTableFile (serverDataConf ex_stale)) \<and>
   mget (table (clusterConf ex_stale)) ''d/i_s_80'' = None"
  using refused_update_stays_routed [OF ex_env_multimaps ex_synced_reachable ex_spoiled_named ex_refused]
    ex_table_names ex_synced_index
  by simp

end
