(* ===== verification/Disk_Props.thy ===== *)
theory Disk_Props
  imports Loop_Disk Loop_Props
begin

text \<open>
  What is on disk: the files of a confirmed version are those of the current configuration.
\<close>

lemma nothing_pending: "\<not> cb_pending c \<Longrightarrow> (b, f, r) \<in> set (cb_tracked mj c) \<Longrightarrow> b"
  by (auto simp: cb_pending_def sd_pending_def cl_pending_def tls_pending_def cb_tracked_def sd_tracked_def
      cl_tracked_def in_tls_tracked)

lemma disk_reachable_current:
  assumes "multimap (sd_rules (cb_sd E)) R1" and "multimap (cl_strs (cb_cl E)) R2"
    and "multimap (tls_strs (cb_tls E)) R2" and "disk_reachable E mj root c h d"
  shows "(\<forall>b f r. (b, f, r) \<in> set (cb_tracked mj c) \<longrightarrow> b \<or> \<not> cb_pending c \<longrightarrow>
      (\<exists>t. r = Inr t \<and> d (root @ f) = Some t)) \<and>
    (\<not> cb_pending c \<longrightarrow> (\<forall>n p. mget (certs (tlsConf c)) n = Some p \<longrightarrow>
      d (root @ getCertFilePath n) = Some (cert_pem p) \<and> d (root @ getKeyFilePath n) = Some (key_pem p)))"
proof
  have ok: "certs_named (tlsConf c)" "on_disk root d (cb_tracked mj c)"
    using disk_reachable_ok [OF assms(2,4)] by simp_all
  have held: "\<exists>t. r = Inr t \<and> d (root @ f) = Some t"
    if "(b, f, r) \<in> set (cb_tracked mj c)" "b \<or> \<not> cb_pending c" for b f r
  proof -
    have "b" using that nothing_pending by blast
    then show ?thesis using that(1) ok(2) by (simp add: on_disk_def holds_def)
  qed
  then show "\<forall>b f r. (b, f, r) \<in> set (cb_tracked mj c) \<longrightarrow> b \<or> \<not> cb_pending c \<longrightarrow>
      (\<exists>t. r = Inr t \<and> d (root @ f) = Some t)" by blast
  show "\<not> cb_pending c \<longrightarrow> (\<forall>n p. mget (certs (tlsConf c)) n = Some p \<longrightarrow>
      d (root @ getCertFilePath n) = Some (cert_pem p) \<and> d (root @ getKeyFilePath n) = Some (key_pem p))"
  proof (intro impI allI)
    fix n p assume idle: "\<not> cb_pending c" and cert: "mget (certs (tlsConf c)) n = Some p"
    note M = builder_mapsI [OF assms(1-3)]
    have t: "tls_ok (cb_tls E) R2 (tlsConf c)"
      using builder_maps.reachable_ok [OF M disk_reachable_reachable [OF assms(4)]]
      unfolding builder_maps.cb_ok_def [OF M] by blast
    have n: "n \<in> fst ` set (cert_table (tlsConf c))" "n \<noteq> DefaultCNName"
      using tls_okD(1) [OF t, of n] tls_okD(2) [OF t] cert mget_None_iff [of "cert_table (tlsConf c)" n] by auto
    let ?b = "bs_version (serverCertConf (tlsConf c)) = serverCertVersion (tlsConf c)"
    have "(?b, getCertFilePath n, Inr (cert_pem p)) \<in> set (cb_tracked mj c)"
      "(?b, getKeyFilePath n, Inr (key_pem p)) \<in> set (cb_tracked mj c)"
      using n cert by (auto simp: cb_tracked_def in_tls_tracked in_cert_files [OF ok(1)] mget_or_def)
    from this [THEN held] show "d (root @ getCertFilePath n) = Some (cert_pem p) \<and> d (root @ getKeyFilePath n) = Some (key_pem p)"
      using idle by simp
  qed
qed

text \<open>
  C4: the files on disk are current. Let the controllers handle any events and let BFE be reloaded at
  any time, with writes that may fail and spoil their file, from any disk, as long as no clock
  reading repeats a version BFE confirmed: a file whose version is confirmed holds the text of the
  current configuration; and when nothing is pending this is so for all files, the certificate and
  the key of every secret included.
\<close>

theorem confirmed_files_are_current:
  assumes "multimap (sd_rules (cb_sd E)) R1" and "multimap (cl_strs (cb_cl E)) R2"
    and "multimap (tls_strs (cb_tls E)) R2" and "controlled jt E opts cts mj root evs c h d"
  shows "(\<forall>b f r. (b, f, r) \<in> set (cb_tracked mj c) \<longrightarrow> b \<or> \<not> cb_pending c \<longrightarrow>
      (\<exists>t. r = Inr t \<and> d (root @ f) = Some t)) \<and>
    (\<not> cb_pending c \<longrightarrow> (\<forall>n p. mget (certs (tlsConf c)) n = Some p \<longrightarrow>
      d (root @ getCertFilePath n) = Some (cert_pem p) \<and> d (root @ getKeyFilePath n) = Some (key_pem p)))"
  by (rule disk_reachable_current [OF assms(1-3) controlled_disk_reachable [OF assms(2,4)]])

text \<open>The same ingress with a secret.\<close>

definition ex_secured :: "((string \<times> http_rule) list, (string \<times> string) list) builder" where
  "ex_secured = snd (the (cb_UpdateIngress ex_env ex_cb_choice (ex_good\<lparr>ing_tls := [\<lparr>tls_hosts = [], tls_secret = ''c''\<rparr>]\<rparr>)
     (fst ex_backends) (snd ex_backends) [ex_secret] ex_start))"

lemma ex_secure: "cb_UpdateIngress ex_env ex_cb_choice (ex_good\<lparr>ing_tls := [\<lparr>tls_hosts = [], tls_secret = ''c''\<rparr>]\<rparr>)
    (fst ex_backends) (snd ex_backends) [ex_secret] ex_start = Some (None, ex_secured)"
  unfolding ex_secured_def by code_simp

lemma ex_secured_reachable: "reachable ex_env ex_secured"
  by (rule reachable.step [OF ex_start_reachable cb_step.update_ingress [OF ex_secure]])
    (simp add: kube_named_def ex_good_def ex_ingress_def NamespacedName_def)

lemma ex_secured_cert: "mget (certs (tlsConf ex_secured)) ''d/c'' = Some \<lparr>cert_pem = ''P'', key_pem = ''P''\<rparr>"
  unfolding ex_secured_def by code_simp

text \<open>The first reload after it.\<close>

definition ex_published :: "((string \<times> http_rule) list, (string \<times> string) list) builder" where
  "ex_published = snd (cb_reload ex_marshal [] ex_io ex_secured [])"

definition ex_publication :: trace where
  "ex_publication = snd (fst (cb_reload ex_marshal [] ex_io ex_secured []))"

lemma ex_publish: "cb_reload ex_marshal [] ex_io ex_secured [] = ((None, [] @ ex_publication), ex_published)"
  unfolding ex_published_def ex_publication_def ex_secured_def by code_simp

definition ex_secured_world :: world where
  "ex_secured_world = ex_world (ex_good\<lparr>ing_tls := [\<lparr>tls_hosts = [], tls_secret = ''c''\<rparr>]\<rparr>)"

definition ex_ingress_event :: object_event where
  "ex_ingress_event = \<lparr>oe_kind = Ingress_Object NetV1, oe_namespace = ''d'', oe_name = ''i''\<rparr>"

lemma ex_secured_handled:
  "handle_all (\<lambda>_. []) ex_env ex_opts ex_secured_world (requests ex_opts (registered ex_manager 1 NetV1) ex_ingress_event)
     (NewConfigBuilder ex_env) [] = Some ([] @ [], ex_secured)"
  unfolding ex_secured_def by code_simp

lemma ex_secured_controlled:
  "controlled (\<lambda>_. []) ex_env ex_opts (registered ex_manager 1 NetV1) ex_marshal (io_config_path ex_io)
     ([] @ [Object ex_ingress_event ex_secured_world]) ex_secured ([] @ []) Map.empty"
proof (rule controlled.object [OF controlled.quiet _ _ _ _ ex_secured_handled])
  show "world_fresh ex_secured_world (NewConfigBuilder ex_env)"
    unfolding world_fresh_def fresh_def by code_simp
  show "world_named ex_secured_world"
    by (simp add: world_named_def ex_secured_world_def ex_world_def kube_named_def ex_good_def ex_ingress_def
        NamespacedName_def)
  show "world_paths ex_secured_world"
    by (simp add: world_paths_def ex_secured_world_def ex_world_def kube_paths_def ex_good_def ex_ingress_def)
qed (simp_all add: ex_secured_world_def ex_world_def)

lemma ex_published_cert: "mget (certs (tlsConf ex_published)) ''d/c'' = Some \<lparr>cert_pem = ''P'', key_pem = ''P''\<rparr>"
  and ex_published_idle: "\<not> cb_pending ex_published"
  and ex_published_route: "mj_route (mj_sd ex_marshal) (routeTableFile (serverDataConf ex_published)) = Inr ''R''"
  unfolding ex_published_def ex_secured_def by code_simp+

theorem confirmed_files_are_current_witness:
  "\<exists>evs d. controlled (\<lambda>_. []) ex_env ex_opts (registered ex_manager 1 NetV1) ex_marshal (io_config_path ex_io) evs ex_published
      ([] @ ex_publication) d \<and>
    d (io_config_path ex_io @ RouteRuleData) = Some ''R'' \<and>
    d (io_config_path ex_io @ getKeyFilePath ''d/c'') = Some ''P''"
proof -
  obtain d where d: "disk_run ex_io [] ex_publication Map.empty d" using disk_run_exists by blast
  note run = controlled.reload [OF ex_secured_controlled [unfolded append_Nil] refl ex_publish d]
  have "(rt_version (routeTableFile (serverDataConf ex_published)) = routeTableVersion (serverDataConf ex_published),
      RouteRuleData, Inr ''R'') \<in> set (cb_tracked ex_marshal ex_published)"
    using ex_published_route by (simp add: cb_tracked_def sd_tracked_def)
  then show ?thesis
    using confirmed_files_are_current [OF ex_env_multimaps run] run ex_published_idle ex_published_cert by fastforce
qed

end
