(* ===== verification/Table_Runs.thy ===== *)
theory Table_Runs
  imports Builder_Spec
begin

text \<open>
  The generated route table in every reachable configuration: as BFE checks the entries of a table
  one by one, the table of a smaller cache is accepted when that of a larger one was, so deleting
  an ingress always rebuilds the table, and every cached rule stays routed.
\<close>

subsection \<open>The check of a route table\<close>

definition place_of :: "string \<Rightarrow> string \<Rightarrow> string list \<times> string list" where
  "place_of h p = (if length h > 0 \<and> h \<noteq> ''*'' then [h] else [], if length p > 0 then [p] else [])"

text \<open>
  What the check of BFE looks at: the hosts and paths of the basic rules, where leaving some out
  does no harm, and every condition for itself; a basic rule that leaves the choice to the advanced
  rules asks for one. The condition of the default rule is accepted.
\<close>

definition checks_entries ::
  "(route_table_file \<Rightarrow> error option) \<Rightarrow> ((string list \<times> string list) multiset \<Rightarrow> bool) \<Rightarrow> (string \<Rightarrow> bool) \<Rightarrow> bool" where
  "checks_entries conv okb oka \<longleftrightarrow>
     okb {#} \<and> (\<forall>A B. A \<subseteq># B \<longrightarrow> okb B \<longrightarrow> okb A) \<and> oka ''default_t()'' \<and>
     (\<forall>v bs fs. let t = \<lparr>rt_version = v, rt_basic = [(DefaultProduct, bs)], rt_product = [(DefaultProduct, fs)]\<rparr>;
          entries = okb (image_mset (\<lambda>b. (bf_hostname b, bf_path b)) (mset bs)) \<and> (\<forall>f \<in> set fs. oka (af_cond f))
        in (conv t = None \<longrightarrow> entries) \<and>
           (entries \<and> (AdvancedMode \<in> bf_cluster ` set bs \<longrightarrow> fs \<noteq> []) \<longrightarrow> conv t = None))"

lemma checks_entriesD:
  assumes "checks_entries conv okb oka"
  shows "okb {#}" and "A \<subseteq># B \<Longrightarrow> okb B \<Longrightarrow> okb A" and "oka ''default_t()''"
    and "conv \<lparr>rt_version = v, rt_basic = [(DefaultProduct, bs)], rt_product = [(DefaultProduct, fs)]\<rparr> = None \<Longrightarrow>
      okb (image_mset (\<lambda>b. (bf_hostname b, bf_path b)) (mset bs)) \<and> (\<forall>f \<in> set fs. oka (af_cond f))"
    and "okb (image_mset (\<lambda>b. (bf_hostname b, bf_path b)) (mset bs)) \<Longrightarrow> \<forall>f \<in> set fs. oka (af_cond f) \<Longrightarrow>
      AdvancedMode \<in> bf_cluster ` set bs \<longrightarrow> fs \<noteq> [] \<Longrightarrow>
      conv \<lparr>rt_version = v, rt_basic = [(DefaultProduct, bs)], rt_product = [(DefaultProduct, fs)]\<rparr> = None"
  using assms unfolding checks_entries_def Let_def by blast+

subsection \<open>Where the basic rules are\<close>

definition places :: "rule_map \<Rightarrow> (string \<times> string) set" where
  "places m = {(h, p). rules_find m h p \<noteq> None}"

lemma places_visit:
  assumes "wf_rule_map m"
  shows "places m = set (map group_key (visit w m))"
proof -
  have "x \<in> places m \<longleftrightarrow> (\<exists>rs \<in> set (visit w m). group_key rs = x)" for x
    unfolding places_def Bex_def set_visit [OF assms, of _ w]
    using group_key_find [OF assms] by (cases x) fastforce
  then show ?thesis unfolding set_eq_iff set_map image_iff by (metis (no_types))
qed

lemma group_nonempty: "wf_rule_map m \<Longrightarrow> rules_find m h p = Some rs \<Longrightarrow> rs \<noteq> []"
  by (simp add: wf_rule_map_def group_ok_def)

lemma basic_of_place:
  "rs \<noteq> [] \<Longrightarrow> map (\<lambda>b. (bf_hostname b, bf_path b)) (map basic_file (basic_of rs)) = [case_prod place_of (group_key rs)]"
  by (simp add: basic_of_def basic_file_def place_of_def group_key_def)

lemma basic_places:
  assumes "wf_rule_map (ruleMap c)"
  shows "image_mset (\<lambda>b. (bf_hostname b, bf_path b)) (mset (map basic_file (fst (get_rules w c)))) =
    image_mset (case_prod place_of) (mset_set (places (ruleMap c)))"
proof -
  have ne: "\<forall>rs \<in> set (visit w (ruleMap c)). rs \<noteq> []"
    using set_visit [OF assms, of _ w] group_nonempty [OF assms] by blast
  have "map (\<lambda>b. (bf_hostname b, bf_path b)) (map basic_file (concat (map basic_of gs))) =
      map (case_prod place_of) (map group_key gs)" if "\<forall>rs \<in> set gs. rs \<noteq> []" for gs
    using that basic_of_place by (induction gs) simp_all
  from this [OF ne] have "image_mset (\<lambda>b. (bf_hostname b, bf_path b)) (mset (map basic_file (fst (get_rules w c)))) =
      image_mset (case_prod place_of) (mset (map group_key (visit w (ruleMap c))))"
    unfolding get_rules_fst by (metis mset_map)
  also have "mset (map group_key (visit w (ruleMap c))) = mset_set (places (ruleMap c))"
    unfolding places_visit [OF assms, of w] by (rule mset_set_set [OF distinct_visit [OF assms], symmetric])
  finally show ?thesis .
qed

subsection \<open>Caches whose table is accepted\<close>

definition servable :: "((string list \<times> string list) multiset \<Rightarrow> bool) \<Rightarrow> (string \<Rightarrow> bool) \<Rightarrow> rule_map \<Rightarrow> bool" where
  "servable okb oka m \<longleftrightarrow>
     okb (image_mset (case_prod place_of) (mset_set (places m))) \<and>
     (\<forall>h p rs r. rules_find m h p = Some rs \<longrightarrow> \<not> is_basic_group rs \<longrightarrow> r \<in> set rs \<longrightarrow>
        (\<exists>cond. buildCondition (r_host r) (r_path r) (r_annots r) = Inr cond \<and> oka cond))"

lemma accepted_servable:
  assumes law: "checks_entries (sd_convert E) okb oka" and wf: "wf_rule_map (ruleMap (routeRuleCache s))"
    and ok: "updateRouteTable E w now s = (None, s')"
  shows "servable okb oka (ruleMap (routeRuleCache s))"
proof -
  obtain fs where fs: "advanced_files (snd (get_rules w (routeRuleCache s))) = Inr fs"
    "sd_convert E \<lparr>rt_version = now,
      rt_basic = [(DefaultProduct, map basic_file (fst (get_rules w (routeRuleCache s))))],
      rt_product = [(DefaultProduct, fs @ default_file E (fst (get_rules w (routeRuleCache s)))
                                          (snd (get_rules w (routeRuleCache s))))]\<rparr> = None"
    using updateRouteTable_ok [OF ok] by metis
  note checked = checks_entriesD(4) [OF law fs(2)]
  have "\<exists>cond. buildCondition (r_host r) (r_path r) (r_annots r) = Inr cond \<and> oka cond"
    if "rules_find (ruleMap (routeRuleCache s)) h p = Some rs" "\<not> is_basic_group rs" "r \<in> set rs" for h p rs r
  proof -
    have "r \<in> set (snd (get_rules w (routeRuleCache s)))" using set_advanced [OF wf] that by blast
    with advanced_files_set [OF fs(1)] obtain c
      where "buildCondition (r_host r) (r_path r) (r_annots r) = Inr c" "\<lparr>af_cond = c, af_cluster = r_cluster r\<rparr> \<in> set fs"
      by blast
    then show ?thesis using checked by force
  qed
  then show ?thesis using checked unfolding servable_def basic_places [OF wf] by blast
qed

lemma advanced_files_total:
  "\<forall>r \<in> set rs. \<exists>c. buildCondition (r_host r) (r_path r) (r_annots r) = Inr c \<Longrightarrow> \<exists>fs. advanced_files rs = Inr fs"
  by (induction rs) (auto split: sum.splits)

lemma servable_accepted:
  assumes law: "checks_entries (sd_convert E) okb oka" and wf: "wf_rule_map (ruleMap (routeRuleCache s))"
    and sv: "servable okb oka (ruleMap (routeRuleCache s))"
    and names: "\<forall>h p. \<forall>r \<in> set (rules_at (ruleMap (routeRuleCache s)) h p). r_cluster r \<noteq> AdvancedMode"
  shows "fst (updateRouteTable E w now s) = None"
proof -
  let ?b = "fst (get_rules w (routeRuleCache s))" and ?a = "snd (get_rules w (routeRuleCache s))"
  have conds: "\<forall>r \<in> set ?a. \<exists>c. buildCondition (r_host r) (r_path r) (r_annots r) = Inr c \<and> oka c"
    using sv [unfolded servable_def] set_advanced [OF wf] by metis
  then obtain fs where fs: "advanced_files ?a = Inr fs" using advanced_files_total by blast
  have "\<forall>f \<in> set fs. oka (af_cond f)" using advanced_files_set [OF fs] conds by force
  then have oka: "\<forall>f \<in> set (fs @ default_file E ?b ?a). oka (af_cond f)"
    using checks_entriesD(3) [OF law] by (auto simp: default_file_def)
  have "fs \<noteq> []" if marker: "AdvancedMode \<in> bf_cluster ` set (map basic_file ?b)"
  proof -
    obtain b where "b \<in> set ?b" "r_cluster b = AdvancedMode" using marker by (auto simp: basic_file_def)
    then obtain h p rs where rs: "rules_find (ruleMap (routeRuleCache s)) h p = Some rs" "b \<in> set (basic_of rs)"
      unfolding set_basic [OF wf] by blast
    have "rs \<noteq> []" by (rule group_nonempty [OF wf rs(1)])
    then have hd: "hd rs \<in> set (rules_at (ruleMap (routeRuleCache s)) h p)" using rs(1) by (simp add: rules_at_def)
    have "\<not> is_basic_group rs"
      using names hd rs(2) \<open>r_cluster b = AdvancedMode\<close> \<open>rs \<noteq> []\<close> by (auto simp: basic_of_def split: if_splits)
    then have "hd rs \<in> set ?a" using set_advanced [OF wf] rs(1) \<open>rs \<noteq> []\<close> by force
    then show ?thesis using advanced_files_map [OF fs] by (metis empty_iff list.map_disc_iff list.set(1))
  qed
  then have "AdvancedMode \<in> bf_cluster ` set (map basic_file ?b) \<longrightarrow> fs @ default_file E ?b ?a \<noteq> []" by simp
  moreover have "okb (image_mset (\<lambda>b. (bf_hostname b, bf_path b)) (mset (map basic_file ?b)))"
    using sv unfolding servable_def basic_places [OF wf] by blast
  ultimately have "sd_convert E \<lparr>rt_version = now, rt_basic = [(DefaultProduct, map basic_file ?b)],
      rt_product = [(DefaultProduct, fs @ default_file E ?b ?a)]\<rparr> = None"
    using checks_entriesD(5) [OF law _ oka] by blast
  then show ?thesis
    using fs by (cases "get_rules w (routeRuleCache s)") (simp add: updateRouteTable_def newRouteTableConfFile_def Let_def)
qed

text \<open>A cache with fewer rules stays so.\<close>

lemma servable_mono:
  assumes law: "checks_entries conv okb oka" and wf: "wf_rule_map m" and wf': "wf_rule_map m'"
    and le: "\<And>k r. route_view m' k = Some r \<Longrightarrow> route_view m k = Some r" and sv: "servable okb oka m"
  shows "servable okb oka m'"
proof -
  have sub: "\<exists>qs. rules_find m h p = Some qs \<and> set rs \<subseteq> set qs" if rs: "rules_find m' h p = Some rs" for h p rs
  proof -
    have ne: "rs \<noteq> []" by (rule group_nonempty [OF wf' rs])
    have old: "r \<in> set (rules_at m h p)" if "r \<in> set rs" for r
    proof -
      have "route_view m' (h, p, cond_of (r_annots r)) = Some r"
        by (rule rule_in_view [OF wf']) (simp add: rules_at_def rs that)
      from le [OF this] show ?thesis by (auto simp: route_view_triple find_Some_iff)
    qed
    then have "rules_at m h p \<noteq> []" using ne by (metis list.set_intros(1) list.exhaust empty_iff list.set(1))
    then show ?thesis using old by (auto simp: rules_at_def split: option.splits)
  qed
  then have "places m' \<subseteq> places m" by (fastforce simp: places_def)
  moreover have "finite (places m)" unfolding places_visit [OF wf, of any_order] by simp
  ultimately have "mset_set (places m') \<subseteq># mset_set (places m)" by (rule subset_imp_msubset_mset_set)
  from image_mset_subseteq_mono [OF this, of "case_prod place_of"]
  have b: "okb (image_mset (case_prod place_of) (mset_set (places m')))"
    by (rule checks_entriesD(2) [OF law]) (use sv in \<open>simp add: servable_def\<close>)
  have "\<exists>cond. buildCondition (r_host r) (r_path r) (r_annots r) = Inr cond \<and> oka cond"
    if rs: "rules_find m' h p = Some rs" and shared: "\<not> is_basic_group rs" and r: "r \<in> set rs" for h p rs r
  proof -
    obtain qs where qs: "rules_find m h p = Some qs" "set rs \<subseteq> set qs" using sub [OF rs] by blast
    have "\<not> is_basic_group qs"
    proof
      assume "is_basic_group qs"
      then obtain x where x: "qs = [x]" "Priority (r_annots x) = PriorityBasic"
        by (auto simp: is_basic_group_def length_Suc_conv)
      have "distinct rs" using wf' rs by (simp add: wf_rule_map_def group_ok_def distinct_map)
      moreover have "set rs \<subseteq> {x}" using qs(2) x(1) by auto
      ultimately have "rs = [x]" using r by (cases rs rule: remdups_adj.cases) auto
      then show False using shared x(2) by (simp add: is_basic_group_def)
    qed
    then show ?thesis using sv qs r unfolding servable_def by blast
  qed
  then show ?thesis using b unfolding servable_def by blast
qed


subsection \<open>The invariant of the server data\<close>

text \<open>A rule is routed by an entry of its own, or by the marker and an entry under its condition.\<close>

definition table_serves :: "route_table_file \<Rightarrow> http_rule \<Rightarrow> bool" where
  "table_serves t r \<longleftrightarrow>
     basic_file r \<in> basic_entries t \<or>
     basic_file (r\<lparr>r_cluster := AdvancedMode\<rparr>) \<in> basic_entries t \<and>
       (\<exists>cond. buildCondition (r_host r) (r_path r) (r_annots r) = Inr cond \<and>
          \<lparr>af_cond = cond, af_cluster = r_cluster r\<rparr> \<in> advanced_entries t)"

lemma routed_table_serves: "routed t rs r \<Longrightarrow> table_serves t r"
  by (auto simp: routed_def table_serves_def split: if_splits)

lemma table_serves_cluster: "table_serves t r \<Longrightarrow> r_cluster r \<in> table_clusters t"
  by (force simp: table_serves_def basic_entries_def advanced_entries_def table_clusters_def basic_file_def)

lemma cluster_name_not_marker: "cluster_name ing p \<noteq> AdvancedMode"
proof (cases "ib_service (hp_backend p)")
  case (Some b)
  then have "CHR ''/'' \<in> set (cluster_name ing p)"
    by (simp add: cluster_name_def ClusterName_def NamespacedName_def)
  moreover have "CHR ''/'' \<notin> set AdvancedMode" by (simp add: AdvancedMode_def)
  ultimately show ?thesis by metis
qed (simp add: cluster_name_def ClusterName_def AdvancedMode_def)

lemma rule_of_view:
  assumes "route_view m (h, p, a) = Some r"
  shows "\<exists>rs. rules_find m h p = Some rs \<and> r \<in> set rs \<and> cond_of (r_annots r) = a"
  using assms by (auto simp: route_view_def rules_at_def find_Some_iff split: option.splits)

lemma view_rule:
  assumes "route_view m k = Some r"
  shows "\<exists>h p rs. rules_find m h p = Some rs \<and> r \<in> set rs"
proof (cases k)
  case (fields h p a b)
  then show ?thesis using rule_of_view [of m h p "(a, b)" r] assms by blast
qed

lemma updateBfeClusterConf_tables: "sd_tables s' = sd_tables s \<Longrightarrow> sd_consistent s' = sd_consistent s"
  by (simp add: sd_tables_def sd_consistent_def)

text \<open>
  \<^verbatim>\<open>DeleteIngress\<close> drops the error of \<^verbatim>\<open>updateRouteTable\<close>: after one, the route table would be as it
  was, next to the clusters of the smaller cache.
\<close>

lemma delete_drops_error:
  assumes "ContainsIngress (sd_rules E) (NamespacedName ns n) (routeRuleCache s)"
    and "fst (updateRouteTable E (ch_table ch) (ch_table_now ch)
           (sd_delete_rules E (ch_delete ch) (NamespacedName ns n) s)) = Some e"
  shows "routeTableFile (sd_DeleteIngress E ch ns n s) = routeTableFile s"
proof -
  have "snd (updateRouteTable E (ch_table ch) (ch_table_now ch)
      (sd_delete_rules E (ch_delete ch) (NamespacedName ns n) s)) =
    sd_delete_rules E (ch_delete ch) (NamespacedName ns n) s"
    using assms(2) updateRouteTable_error by (metis prod.collapse)
  then show ?thesis using assms(1) by (simp add: sd_DeleteIngress_def sd_delete_rules_def Let_def)
qed

context server_rules
begin

definition sd_live :: "((string list \<times> string list) multiset \<Rightarrow> bool) \<Rightarrow> (string \<Rightarrow> bool) \<Rightarrow> 'm server_data \<Rightarrow> bool" where
  "sd_live okb oka s \<longleftrightarrow> sd_wf s \<and> servable okb oka (ruleMap (routeRuleCache s)) \<and> sd_consistent s \<and>
     (\<forall>k r. sd_view_of s k = Some r \<longrightarrow> r_cluster r \<noteq> AdvancedMode \<and> table_serves (routeTableFile s) r)"

lemma wf_map_of: "sd_wf s \<Longrightarrow> wf_rule_map (ruleMap (routeRuleCache s))"
  by (simp add: wf_cache_def)

lemma new_live:
  assumes "checks_entries conv okb oka"
  shows "sd_live okb oka (NewServerDataConfig E v)"
proof -
  have "places [] = {}" by (simp add: places_def rules_find_def)
  then have "servable okb oka []" using checks_entriesD(1) [OF assms] by (simp add: servable_def rules_find_def)
  moreover have "ruleMap (routeRuleCache (NewServerDataConfig E v)) = []"
    by (simp add: NewServerDataConfig_def NewRouteRuleCache_def)
  moreover have "sd_consistent (NewServerDataConfig E v)"
    by (simp add: sd_consistent_def table_clusters_def NewServerDataConfig_def newRouteTableConfFile_def)
  moreover have "route_view [] k = None" for k
    by (cases k) (simp add: route_view_def rules_at_def rules_find_def)
  ultimately show ?thesis using new_wf by (simp add: sd_live_def)
qed

text \<open>Rules may go without a change of the files.\<close>

lemma live_fewer:
  assumes law: "checks_entries conv okb oka" and live: "sd_live okb oka s" and wf: "sd_wf s'"
    and same: "sd_tables s' = sd_tables s"
    and le: "\<And>k r. sd_view_of s' k = Some r \<Longrightarrow> sd_view_of s k = Some r"
  shows "sd_live okb oka s'"
proof -
  have "servable okb oka (ruleMap (routeRuleCache s'))"
    by (rule servable_mono [OF law wf_map_of wf_map_of [OF wf] le]) (use live in \<open>auto simp: sd_live_def\<close>)
  moreover have "routeTableFile s' = routeTableFile s" using same by (simp add: sd_tables_def)
  ultimately show ?thesis
    using live wf le updateBfeClusterConf_tables [OF same] unfolding sd_live_def by metis
qed

text \<open>A rebuilt table serves the whole cache.\<close>

lemma rebuilt_live:
  assumes law: "checks_entries (sd_convert E) okb oka" and wf: "sd_wf s"
    and ok: "updateRouteTable E w now s = (None, s')"
    and names: "\<And>k r. sd_view_of s k = Some r \<Longrightarrow> r_cluster r \<noteq> AdvancedMode"
  shows "sd_live okb oka (updateBfeClusterConf E w' now' s')"
proof -
  have c: "routeRuleCache s' = routeRuleCache s"
    using updateRouteTable_cache(1) [of E w now s] ok by simp
  have "table_serves (routeTableFile s') r" if view: "sd_view_of s k = Some r" for k r
  proof -
    obtain h p rs where "rules_find (ruleMap (routeRuleCache s)) h p = Some rs" "r \<in> set rs"
      using view_rule [OF view] by blast
    from table_routes [OF ok wf_map_of [OF wf] this] show ?thesis by (rule routed_table_serves)
  qed
  then show ?thesis
    using wf accepted_servable [OF law wf_map_of [OF wf] ok] tables_consistent [OF ok wf_map_of [OF wf]] names
    by (simp add: sd_live_def c)
qed

lemma update_live:
  assumes law: "checks_entries (sd_convert E) okb oka" and live: "sd_live okb oka s"
    and u: "sd_UpdateIngress E ch ing s = Some (err, s')"
  shows "sd_live okb oka s'"
proof (cases err)
  case (Some e)
  have wf: "sd_wf s" using live by (simp add: sd_live_def)
  note failed = update_error [OF u [unfolded Some] wf]
  show ?thesis by (rule live_fewer [OF law live update_wf [OF u wf]]) (use failed in blast)+
next
  case None
  have wf: "sd_wf s" using live by (simp add: sd_live_def)
  from u [unfolded None] show ?thesis
  proof (cases rule: sd_UpdateIngress_cases)
    case none
    then show ?thesis using live by simp
  next
    case (ok s2 s3)
    have wf2: "sd_wf s2" using updateCache_entries [OF ok(3) cleared_wf [OF wf]] by blast
    have c: "routeRuleCache s' = routeRuleCache s2"
      using updateRouteTable_cache(1) [of E "ch_table ch" "ch_table_now ch" s2] ok(4,5) by simp
    have v: "spec_puts (rules_for (sd_next_addr s) ing) (without (ingress_name ing) (sd_view_of s)) =
        (None, sd_view_of s')"
      using update_ok_view [OF u [unfolded None] wf ok(1)] by blast
    have "r_cluster r \<noteq> AdvancedMode" if "sd_view_of s2 k = Some r" for k r
    proof -
      have "snd (spec_puts (rules_for (sd_next_addr s) ing) (without (ingress_name ing) (sd_view_of s))) k = Some r"
        using that by (simp only: v snd_conv c)
      from spec_puts_source [OF this] show ?thesis
      proof
        assume "without (ingress_name ing) (sd_view_of s) k = Some r"
        then show ?thesis using live unfolding sd_live_def without_Some by blast
      next
        assume "r \<in> set (rules_for (sd_next_addr s) ing)"
        from rules_for_cluster [OF this] show ?thesis using cluster_name_not_marker by metis
      qed
    qed
    from rebuilt_live [OF law wf2 ok(4) this] show ?thesis by (simp only: ok(5))
  qed simp_all
qed

text \<open>In a configuration with the invariant there is no such error.\<close>

lemma live_table_accepted:
  assumes "checks_entries (sd_convert E) okb oka" and "sd_live okb oka s"
  shows "fst (updateRouteTable E w now s) = None"
proof (rule servable_accepted [OF assms(1)])
  show wf: "wf_rule_map (ruleMap (routeRuleCache s))" using assms(2) wf_map_of by (simp add: sd_live_def)
  show "servable okb oka (ruleMap (routeRuleCache s))" using assms(2) by (simp add: sd_live_def)
  show "\<forall>h p. \<forall>r \<in> set (rules_at (ruleMap (routeRuleCache s)) h p). r_cluster r \<noteq> AdvancedMode"
    using assms(2) rule_in_view [OF wf] unfolding sd_live_def by blast
qed

lemma delete_live:
  assumes law: "checks_entries (sd_convert E) okb oka" and live: "sd_live okb oka s"
  shows "sd_live okb oka (sd_DeleteIngress E ch ns n s)"
proof (cases "ContainsIngress (sd_rules E) (NamespacedName ns n) (routeRuleCache s)")
  case True
  let ?s = "sd_delete_rules E (ch_delete ch) (NamespacedName ns n) s"
  have wf: "sd_wf s" using live by (simp add: sd_live_def)
  have smaller: "sd_live okb oka ?s"
    by (rule live_fewer [OF law live delete_wf [OF wf]])
      (simp_all add: delete_view [OF wf] without_Some del: split_paired_All)
  obtain s2 where s2: "updateRouteTable E (ch_table ch) (ch_table_now ch) ?s = (None, s2)"
    using live_table_accepted [OF law smaller] by (metis prod.collapse)
  have "sd_live okb oka (updateBfeClusterConf E (ch_conf ch) (ch_conf_now ch) s2)"
    by (rule rebuilt_live [OF law delete_wf [OF wf] s2]) (use smaller in \<open>auto simp: sd_live_def\<close>)
  then show ?thesis using True s2 by (simp add: sd_DeleteIngress_def Let_def)
qed (use live in \<open>simp add: sd_DeleteIngress_def\<close>)

end

subsection \<open>Reachable configurations\<close>

context builder_maps
begin

lemma step_live:
  assumes law: "checks_entries (sd_convert (cb_sd E)) okb oka" and "cb_step E c c'"
    and live: "sd.sd_live okb oka (serverDataConf c)"
  shows "sd.sd_live okb oka (serverDataConf c')"
  using assms(2)
proof cases
  case (update_ingress ch ing services eps secs err)
  from update_ingress(1) show ?thesis
    by (cases rule: cb_UpdateIngress_cases)
      (simp_all add: sd.update_live [OF law live] sd.delete_live [OF law sd.update_live [OF law live]])
next
  case (delete_ingress io ch ns n es)
  then have "serverDataConf c' = sd_DeleteIngress (cb_sd E) (cc_sd ch) ns n (serverDataConf c)"
    by (auto simp: cb_DeleteIngress_def Let_def split: prod.splits)
  then show ?thesis using sd.delete_live [OF law live] by simp
next
  case (update_service ch svc ep)
  then have "serverDataConf c' = serverDataConf c" by (auto simp: cb_UpdateService_def split: option.splits)
  then show ?thesis using live by simp
next
  case (delete_service ch ns n)
  then show ?thesis using live by (simp add: cb_DeleteService_def)
next
  case (update_secret ch sec err)
  then have "serverDataConf c' = serverDataConf c" by (auto simp: cb_UpdateSecret_def split: prod.splits)
  then show ?thesis using live by simp
next
  case (delete_secret io ch ns n es)
  then have "serverDataConf c' = serverDataConf c" by (auto simp: cb_DeleteSecret_def split: prod.splits)
  then show ?thesis using live by simp
next
  case (tick mj sch io h out)
  have "sd_view (serverDataConf c') = sd_view (serverDataConf c)"
    using cbr.reload_view [OF tick] by (simp add: cb_view_def)
  then show ?thesis using live by (simp add: sd_view_def sd.sd_live_def sd_consistent_def)
qed

lemma reachable_live:
  assumes "checks_entries (sd_convert (cb_sd E)) okb oka" and "reachable E c"
  shows "sd.sd_live okb oka (serverDataConf c)"
  using assms(2)
proof (induction rule: reachable.induct)
  case start
  show ?case using sd.new_live [OF assms(1)] by (simp add: NewConfigBuilder_def)
qed (rule step_live [OF assms(1)])

lemma reachable_routes:
  assumes "checks_entries (sd_convert (cb_sd E)) okb oka" and "reachable E c"
    and "rules_find (ruleMap (routeRuleCache (serverDataConf c))) h p = Some rs" and "r \<in> set rs"
  shows "table_serves (routeTableFile (serverDataConf c)) r \<and> r_cluster r \<in> conf_clusters (bfeClusterConf (serverDataConf c))"
proof -
  have live: "sd.sd_live okb oka (serverDataConf c)" by (rule reachable_live [OF assms(1,2)])
  then have "wf_rule_map (ruleMap (routeRuleCache (serverDataConf c)))" using sd.wf_map_of by (simp add: sd.sd_live_def)
  from rule_in_view [OF this, of r h p] have v: "sd_view_of (serverDataConf c) (h, p, cond_of (r_annots r)) = Some r"
    using assms(3,4) by (simp add: rules_at_def)
  then have "table_serves (routeTableFile (serverDataConf c)) r" and "r_cluster r \<noteq> AdvancedMode"
    using live unfolding sd.sd_live_def by blast+
  then show ?thesis using table_serves_cluster live unfolding sd.sd_live_def sd_consistent_def by blast
qed

end

end
