(* ===== verification/Table_Props.thy ===== *)
theory Table_Props
  imports Table_Runs Controller_Props
begin

text \<open>
  The properties of the route table that hold in every reachable configuration, with witnesses in
  which two ingresses share their paths and a check refuses tables that name a place twice.
\<close>

subsection \<open>Two ingresses on the same paths\<close>

definition ex_convert :: "route_table_file \<Rightarrow> error option" where
  "ex_convert t =
     (if list_all (\<lambda>(_, bs). distinct (map (\<lambda>b. (bf_hostname b, bf_path b)) bs)) (rt_basic t) \<and>
         list_all (\<lambda>(_, fs). list_all (\<lambda>f. af_cond f \<noteq> []) fs) (rt_product t)
      then None else Some Path_Not_Set)"

lemma distinct_count: "distinct xs \<longleftrightarrow> (\<forall>x. count (mset xs) x \<le> 1)"
  unfolding distinct_count_atmost_1 by (auto simp: le_Suc_eq count_eq_zero_iff)

lemma ex_convert_checks: "checks_entries ex_convert (\<lambda>A. \<forall>x. count A x \<le> 1) (\<lambda>cond. cond \<noteq> [])"
proof -
  have "count A x \<le> 1" if "A \<subseteq># B" "\<forall>x. count B x \<le> 1" for A B :: "(string list \<times> string list) multiset" and x
    using mset_subset_eq_count [OF that(1), of x] that(2) by (meson le_trans)
  then show ?thesis
    unfolding checks_entries_def ex_convert_def Let_def
    by (auto simp: distinct_count list_all_iff simp del: count_mset)
qed

definition ex_checked_env :: "((string \<times> http_rule) list, (string \<times> string) list) cb_env" where
  "ex_checked_env = \<lparr>cb_sd = ex_sd_env\<lparr>sd_convert := ex_convert\<rparr>, cb_cl = ex_cl_env, cb_tls = ex_tls_env\<rparr>"

lemma ex_checked_env_ok:
  "multimap (sd_rules (cb_sd ex_checked_env)) set" "multimap (cl_strs (cb_cl ex_checked_env)) set"
  "multimap (tls_strs (cb_tls ex_checked_env)) set"
  "checks_entries (sd_convert (cb_sd ex_checked_env)) (\<lambda>A. \<forall>x. count A x \<le> 1) (\<lambda>cond. cond \<noteq> [])"
  using ex_multimap ex_cl_multimap ex_tls_multimap ex_convert_checks
  by (simp_all add: ex_checked_env_def)

definition ex_other :: ingress where
  "ex_other = ex_ingress ''j'' ex_cookie 6"

definition ex_first :: "((string \<times> http_rule) list, (string \<times> string) list) builder" where
  "ex_first = snd (the (cb_UpdateIngress ex_checked_env ex_cb_choice ex_good (fst ex_backends) (snd ex_backends) []
     (NewConfigBuilder ex_checked_env)))"

definition ex_shared :: "((string \<times> http_rule) list, (string \<times> string) list) builder" where
  "ex_shared = snd (the (cb_UpdateIngress ex_checked_env ex_cb_choice ex_other (fst ex_backends) (snd ex_backends) [] ex_first))"

definition ex_unshared :: "((string \<times> http_rule) list, (string \<times> string) list) builder" where
  "ex_unshared = snd (cb_DeleteIngress ex_checked_env ex_io ex_cb_choice ''d'' ''i'' ex_shared)"

lemma ex_first_update: "cb_UpdateIngress ex_checked_env ex_cb_choice ex_good (fst ex_backends) (snd ex_backends) []
    (NewConfigBuilder ex_checked_env) = Some (None, ex_first)"
  unfolding ex_first_def by code_simp

lemma ex_shared_update: "cb_UpdateIngress ex_checked_env ex_cb_choice ex_other (fst ex_backends) (snd ex_backends) []
    ex_first = Some (None, ex_shared)"
  unfolding ex_shared_def ex_first_def by code_simp

lemma ex_shared_reachable: "reachable ex_checked_env ex_shared"
proof (rule reachable.step [OF reachable.step [OF reachable.start]])
  show "cb_step ex_checked_env (NewConfigBuilder ex_checked_env) ex_first"
    by (rule cb_step.update_ingress [OF ex_first_update ex_good_named])
  show "cb_step ex_checked_env ex_first ex_shared"
    by (rule cb_step.update_ingress [OF ex_shared_update])
      (simp add: kube_named_def ex_other_def ex_ingress_def NamespacedName_def)
qed

lemma ex_unshared_reachable: "reachable ex_checked_env ex_unshared"
  unfolding ex_unshared_def
  by (rule reachable.step [OF ex_shared_reachable cb_step.delete_ingress [OF prod.collapse [symmetric]]])

subsection \<open>The route table of every reachable configuration\<close>

text \<open>
  C10: in every reachable configuration, whatever was updated, refused and deleted before, every rule
  of the cache is routed, by an entry of its own or by the marker of the advanced mode together with
  an entry under its condition, and its cluster is configured, provided that BFE checks the entries
  of a route table one by one.
\<close>

theorem cached_rules_are_routed:
  assumes "multimap (sd_rules (cb_sd E)) R1" and "multimap (cl_strs (cb_cl E)) R2"
    and "multimap (tls_strs (cb_tls E)) R2" and "checks_entries (sd_convert (cb_sd E)) okb oka" and "reachable E c"
    and "rules_find (ruleMap (routeRuleCache (serverDataConf c))) h p = Some rs" and "r \<in> set rs"
  shows "table_serves (routeTableFile (serverDataConf c)) r \<and>
    r_cluster r \<in> conf_clusters (bfeClusterConf (serverDataConf c))"
  by (rule builder_maps.reachable_routes [OF builder_mapsI [OF assms(1-3)] assms(4-7)])

lemma ex_shared_rules:
  "\<exists>r q. rules_find (ruleMap (routeRuleCache (serverDataConf ex_shared))) ''a.b'' ''/x'' = Some [r, q] \<and>
     r_cluster r = ''d/i_s_80'' \<and> r_cluster q = ''d/j_s_80''"
proof -
  have "map_option (map r_cluster) (rules_find (ruleMap (routeRuleCache (serverDataConf ex_shared))) ''a.b'' ''/x'') =
      Some [''d/i_s_80'', ''d/j_s_80'']"
    unfolding ex_shared_def ex_first_def by code_simp
  then show ?thesis by auto
qed

theorem cached_rules_are_routed_witness:
  "\<exists>r q. rules_find (ruleMap (routeRuleCache (serverDataConf ex_shared))) ''a.b'' ''/x'' = Some [r, q] \<and>
     table_serves (routeTableFile (serverDataConf ex_shared)) r \<and>
     table_serves (routeTableFile (serverDataConf ex_shared)) q \<and>
     ''d/j_s_80'' \<in> conf_clusters (bfeClusterConf (serverDataConf ex_shared))"
  using cached_rules_are_routed [OF ex_checked_env_ok ex_shared_reachable] ex_shared_rules
  by (metis list.set_intros)

text \<open>
  C11: provided that BFE checks the entries of a route table one by one (\<open>checks_entries\<close>), in every
  reachable configuration every cluster the route table names is a cluster of the cluster configuration,
  but for the marker of the advanced mode, although the two files are built from two iterations over
  the cache; and a table built anew from the cache is accepted, so the error that the deletion of an
  ingress drops does not arise.
\<close>

theorem route_table_names_clusters:
  assumes "multimap (sd_rules (cb_sd E)) R1" and "multimap (cl_strs (cb_cl E)) R2"
    and "multimap (tls_strs (cb_tls E)) R2" and "checks_entries (sd_convert (cb_sd E)) okb oka" and "reachable E c"
  shows "table_clusters (routeTableFile (serverDataConf c)) \<subseteq>
      insert AdvancedMode (conf_clusters (bfeClusterConf (serverDataConf c))) \<and>
    fst (updateRouteTable (cb_sd E) w now (serverDataConf c)) = None"
proof -
  note M = builder_mapsI [OF assms(1-3)]
  note S = server_rulesI [OF assms(1)]
  have live: "server_rules.sd_live R1 okb oka (serverDataConf c)"
    by (rule builder_maps.reachable_live [OF M assms(4,5)])
  then show ?thesis
    using server_rules.live_table_accepted [OF S assms(4) live]
    unfolding server_rules.sd_live_def [OF S] sd_consistent_def by blast
qed

theorem route_table_names_clusters_witness:
  "table_clusters (routeTableFile (serverDataConf ex_unshared)) \<subseteq>
      insert AdvancedMode (conf_clusters (bfeClusterConf (serverDataConf ex_unshared))) \<and>
    fst (updateRouteTable (cb_sd ex_checked_env) any_order ''t9'' (serverDataConf ex_unshared)) = None"
  by (rule route_table_names_clusters [OF ex_checked_env_ok ex_unshared_reachable])

end
