(* ===== verification/Lifecycle.thy ===== *)
theory Lifecycle
  imports Startup
begin

text \<open>
  The end of the controller (\<^verbatim>\<open>start.go\<close>, \<^verbatim>\<open>main.go\<close>). Two goroutines of the program take part: the one
  \<^verbatim>\<open>startBFE\<close> starts, which waits for BFE and signals the own process, and the main one, which is blocked
  in \<^verbatim>\<open>mgr.Start\<close> and returns through \<^verbatim>\<open>Start\<close> and \<^verbatim>\<open>main\<close>. BFE, the operating system, the signal handler
  and the manager of controller-runtime are not part of the program: they are a parameter, with a
  state and steps of their own.
\<close>

subsection \<open>The outside\<close>

text \<open>
  What the outside does on its own; whether \<^verbatim>\<open>cmd.Wait\<close> returns; the errors of \<^verbatim>\<open>os.FindProcess\<close> and of
  \<^verbatim>\<open>p.Signal\<close>, and the state after the call; what \<^verbatim>\<open>mgr.Start\<close> returned, if it did; whether the process
  was ended from outside.
\<close>

record 's outside =
  ot_step :: "'s \<Rightarrow> 's \<Rightarrow> bool"
  ot_waited :: "'s \<Rightarrow> bool"
  ot_find :: "'s \<Rightarrow> string option"
  ot_signal :: "'s \<Rightarrow> string option \<times> 's"
  ot_manager :: "'s \<Rightarrow> string option option"
  ot_killed :: "'s \<Rightarrow> bool"

subsection \<open>The goroutine that waits for BFE\<close>

text \<open>\<^verbatim>\<open>raise\<close> returns an error that its caller ignores.\<close>

definition raise :: "'s outside \<Rightarrow> 's \<Rightarrow> string option \<times> 's" where
  "raise W s =
     (case ot_find W s of
        Some e \<Rightarrow> (Some e, s)
      | None \<Rightarrow> ot_signal W s)"

text \<open>Before \<^verbatim>\<open>cmd.Wait\<close> returns, before \<^verbatim>\<open>raise\<close>, and after it. (What \<^verbatim>\<open>cmd.Wait\<close> returns is only logged.)\<close>

datatype waiter = Waiting | Waited | Ended

fun bfe_waiter :: "'s outside \<Rightarrow> waiter \<Rightarrow> 's \<Rightarrow> (waiter \<times> 's) option" where
  "bfe_waiter W Waiting s = (if ot_waited W s then Some (Waited, s) else None)"
| "bfe_waiter W Waited s = Some (Ended, snd (raise W s))"
| "bfe_waiter W Ended s = None"

subsection \<open>The main goroutine\<close>

text \<open>The end of \<^verbatim>\<open>Start\<close>.\<close>

definition start_result :: "string option \<Rightarrow> error option" where
  "start_result r = map_option (\<lambda>e. Setup_Failed (''fail to run manager: '' @ e)) r"

text \<open>Blocked in \<^verbatim>\<open>mgr.Start\<close>, back in \<^verbatim>\<open>main\<close>, and after the return of \<^verbatim>\<open>main\<close>, which only logs the error.\<close>

datatype caller = Serving | Returned "error option" | Exited

fun main_end :: "'s outside \<Rightarrow> caller \<Rightarrow> 's \<Rightarrow> caller option" where
  "main_end W Serving s = map_option (\<lambda>r. Returned (start_result r)) (ot_manager W s)"
| "main_end W (Returned e) s = Some Exited"
| "main_end W Exited s = None"

subsection \<open>The process\<close>

record 's process =
  pr_waiter :: waiter
  pr_main :: caller
  pr_outside :: 's

text \<open>The process when the manager has just been started.\<close>

definition started :: "'s \<Rightarrow> 's process" where
  "started s = \<lparr>pr_waiter = Waiting, pr_main = Serving, pr_outside = s\<rparr>"

definition ended :: "'s outside \<Rightarrow> 's process \<Rightarrow> bool" where
  "ended W p \<longleftrightarrow> pr_main p = Exited \<or> ot_killed W (pr_outside p)"

text \<open>The goroutines and the outside take turns, in any order.\<close>

inductive life_step :: "'s outside \<Rightarrow> 's process \<Rightarrow> 's process \<Rightarrow> bool" for W where
  outside: "\<not> ended W p \<Longrightarrow> ot_step W (pr_outside p) s \<Longrightarrow> life_step W p (p\<lparr>pr_outside := s\<rparr>)"
| waiter: "\<not> ended W p \<Longrightarrow> bfe_waiter W (pr_waiter p) (pr_outside p) = Some (w, s) \<Longrightarrow>
    life_step W p (p\<lparr>pr_waiter := w, pr_outside := s\<rparr>)"
| main: "\<not> ended W p \<Longrightarrow> main_end W (pr_main p) (pr_outside p) = Some m \<Longrightarrow> life_step W p (p\<lparr>pr_main := m\<rparr>)"

inductive_cases life_stepE: "life_step W p q"

subsection \<open>What is assumed of the outside\<close>

text \<open>
  A finite outside that heeds signals: it takes finitely many steps between two calls (\<open>left\<close> of them at
  most, and a signal adds at most \<open>d\<close>); BFE stays down once it is; a signal that was sent without an
  error has arrived (\<open>told\<close>); and after one has arrived, the handler of \<^verbatim>\<open>ctrl.SetupSignalHandler\<close> and the
  manager can go on until \<^verbatim>\<open>mgr.Start\<close> has returned or the process was ended.
\<close>

definition heeds_signals :: "'s outside \<Rightarrow> ('s \<Rightarrow> bool) \<Rightarrow> ('s \<Rightarrow> nat) \<Rightarrow> nat \<Rightarrow> bool" where
  "heeds_signals W told left d \<longleftrightarrow>
     (\<forall>s s'. ot_step W s s' \<longrightarrow> left s' < left s \<and> (ot_waited W s \<longrightarrow> ot_waited W s') \<and> (told s \<longrightarrow> told s')) \<and>
     (\<forall>s. left (snd (ot_signal W s)) \<le> left s + d \<and> (ot_waited W s \<longrightarrow> ot_waited W (snd (ot_signal W s)))) \<and>
     (\<forall>s. fst (ot_signal W s) = None \<longrightarrow> told (snd (ot_signal W s))) \<and>
     (\<forall>s. told s \<longrightarrow> ot_manager W s = None \<longrightarrow> \<not> ot_killed W s \<longrightarrow> (\<exists>s'. ot_step W s s'))"

lemma heedsD:
  assumes "heeds_signals W told left d"
  shows "ot_step W s s' \<Longrightarrow> left s' < left s" "ot_step W s s' \<Longrightarrow> ot_waited W s \<Longrightarrow> ot_waited W s'"
    "ot_step W s s' \<Longrightarrow> told s \<Longrightarrow> told s'"
    "told s \<Longrightarrow> ot_manager W s = None \<Longrightarrow> \<not> ot_killed W s \<Longrightarrow> \<exists>s'. ot_step W s s'"
    "left (snd (raise W s)) \<le> left s + d" "ot_waited W s \<Longrightarrow> ot_waited W (snd (raise W s))"
    "fst (raise W s) = None \<Longrightarrow> told (snd (raise W s))"
  using assms unfolding heeds_signals_def raise_def by (auto split: option.split)

subsection \<open>Every run ends\<close>

text \<open>What is left to do: every step takes something from it.\<close>

definition life_size :: "('s \<Rightarrow> nat) \<Rightarrow> nat \<Rightarrow> 's process \<Rightarrow> nat" where
  "life_size left d p =
     left (pr_outside p) + (case pr_waiter p of Waiting \<Rightarrow> d + 2 | Waited \<Rightarrow> d + 1 | Ended \<Rightarrow> 0) +
     (case pr_main p of Serving \<Rightarrow> 2 | Returned _ \<Rightarrow> 1 | Exited \<Rightarrow> 0)"

lemma bfe_waiter_Some:
  "bfe_waiter W w s = Some (w', s') \<longleftrightarrow>
     (w = Waiting \<and> w' = Waited \<and> s' = s \<and> ot_waited W s) \<or> (w = Waited \<and> w' = Ended \<and> s' = snd (raise W s))"
  by (cases w) auto

lemma main_end_Some:
  "main_end W m s = Some m' \<longleftrightarrow>
     (m = Serving \<and> (\<exists>r. ot_manager W s = Some r \<and> m' = Returned (start_result r))) \<or>
     (\<exists>e. m = Returned e \<and> m' = Exited)"
  by (cases m) auto

lemma life_step_size:
  assumes "heeds_signals W told left d" and "life_step W p q"
  shows "life_size left d q < life_size left d p"
  using assms(2)
proof cases
  case (outside s)
  then show ?thesis using heedsD(1) [OF assms(1)] by (simp add: life_size_def)
next
  case (waiter w s)
  then show ?thesis
    using heedsD(5) [OF assms(1), of "pr_outside p"] by (auto simp: bfe_waiter_Some life_size_def)
next
  case (main m)
  then show ?thesis by (auto simp: main_end_Some life_size_def)
qed

lemma life_steps_size:
  assumes "heeds_signals W told left d"
  shows "(life_step W ^^ n) p q \<Longrightarrow> n + life_size left d q \<le> life_size left d p"
proof (induction n arbitrary: q)
  case (Suc n)
  then obtain r where r: "(life_step W ^^ n) p r" "life_step W r q" by auto
  show ?case using Suc.IH [OF r(1)] life_step_size [OF assms r(2)] by simp
qed simp

subsection \<open>Where a run ends\<close>

text \<open>A goroutine that is done has signalled; BFE stays down.\<close>

definition signalled :: "('s \<Rightarrow> bool) \<Rightarrow> 's process \<Rightarrow> bool" where
  "signalled told p \<longleftrightarrow> pr_waiter p = Ended \<longrightarrow> told (pr_outside p)"

lemma signalled_step:
  assumes "heeds_signals W told left d" and "\<forall>s. fst (raise W s) = None" and "life_step W p q" and "signalled told p"
  shows "signalled told q"
  using assms(3)
proof cases
  case (outside s)
  then show ?thesis using assms(4) heedsD(3) [OF assms(1)] by (simp add: signalled_def)
next
  case (waiter w s)
  then show ?thesis using heedsD(7) [OF assms(1)] assms(2) by (auto simp: bfe_waiter_Some signalled_def)
next
  case (main m)
  then show ?thesis using assms(4) by (simp add: signalled_def)
qed

lemma down_step:
  assumes "heeds_signals W told left d" and "life_step W p q" and "ot_waited W (pr_outside p)"
  shows "ot_waited W (pr_outside q)"
  using assms(2)
proof cases
  case (outside s)
  then show ?thesis using assms(3) heedsD(2) [OF assms(1)] by simp
next
  case (waiter w s)
  then show ?thesis using assms(3) heedsD(6) [OF assms(1)] by (auto simp: bfe_waiter_Some)
next
  case (main m)
  then show ?thesis using assms(3) by simp
qed

text \<open>A process that cannot go on has ended, once BFE is down and the signal was sent.\<close>

lemma stuck_ended:
  assumes "heeds_signals W told left d" and "signalled told p" and "ot_waited W (pr_outside p)"
    and "\<nexists>q. life_step W p q"
  shows "ended W p"
proof (rule ccontr)
  assume live: "\<not> ended W p"
  have "bfe_waiter W (pr_waiter p) (pr_outside p) = None"
    using life_step.waiter [OF live] assms(4) by (cases "bfe_waiter W (pr_waiter p) (pr_outside p)") auto
  then have "pr_waiter p = Ended" using assms(3) by (cases "pr_waiter p") auto
  then have told: "told (pr_outside p)" using assms(2) by (simp add: signalled_def)
  have "main_end W (pr_main p) (pr_outside p) = None"
    using life_step.main [OF live] assms(4) by (cases "main_end W (pr_main p) (pr_outside p)") auto
  then have "ot_manager W (pr_outside p) = None" using live by (cases "pr_main p") (auto simp: ended_def)
  then obtain s where "ot_step W (pr_outside p) s"
    using heedsD(4) [OF assms(1) told] live by (auto simp: ended_def)
  then show False using life_step.outside [OF live] assms(4) by blast
qed

end
