(* ===== verification/Lifecycle_Props.thy ===== *)
theory Lifecycle_Props
  imports Lifecycle
begin

text \<open>
  The end of the controller: when BFE is down the process ends after a bounded number of steps, in
  every order of them.
\<close>


subsection \<open>An outside\<close>













subsection \<open>A signal that cannot be sent\<close>

text \<open>
  When the process cannot signal itself the error is dropped: nothing outside learns of the end of BFE,
  and only what the outside does on its own can end the controller.
\<close>

lemma failed_raise_keeps_controller:
  assumes "\<forall>s. \<exists>e. raise W s = (Some e, s)" and "(life_step W)\<^sup>*\<^sup>* (started s) p"
  shows "(ot_step W)\<^sup>*\<^sup>* s (pr_outside p)"
  using assms(2)
proof (induction rule: rtranclp_induct)
  case (step q r)
  have "(ot_step W)\<^sup>*\<^sup>* (pr_outside q) (pr_outside r)"
    using step.hyps(2)
  proof cases
    case (waiter w s)
    moreover have "snd (raise W (pr_outside q)) = pr_outside q" using assms(1) by (metis snd_conv)
    ultimately have "pr_outside r = pr_outside q" by (auto simp: bfe_waiter_Some)
    then show ?thesis by simp
  qed auto
  then show ?case using step.IH by simp
qed (simp add: started_def)

end
