(* ===== verification/Condition_Props.thy ===== *)
theory Condition_Props
  imports Route_Props
begin

text \<open>
  The conditions of advanced rules as texts: the regular expression a wildcard host becomes and the
  hosts it accepts, and that the condition of a rule tells its host, its path and its annotations.
\<close>

subsection \<open>Regular expressions of the package regexp\<close>

text \<open>
  The part of the syntax the program uses, with the flag \<^verbatim>\<open>(?i)\<close> on ASCII text: \<open>rests\<close> gives what
  can be left of a text after a match at its start. An expression that starts with \<^verbatim>\<open>^\<close> and does not end
  with \<^verbatim>\<open>$\<close> accepts a text when there is such a rest.
\<close>

datatype rx = Empty | Lit char | But char | Plus rx | Seq rx rx

fun rests :: "rx \<Rightarrow> string \<Rightarrow> string list" where
  "rests Empty s = [s]"
| "rests (Lit c) s = (case s of [] \<Rightarrow> [] | x # xs \<Rightarrow> if ascii_lower x = ascii_lower c then [xs] else [])"
| "rests (But c) s = (case s of [] \<Rightarrow> [] | x # xs \<Rightarrow> if ascii_lower x = ascii_lower c then [] else [xs])"
| "rests (Plus r) s =
     concat (map (\<lambda>t. if length t < length s then t # rests (Plus r) t else [t]) (rests r s))"
| "rests (Seq r q) s = concat (map (rests q) (rests r s))"

declare rests.simps(4) [simp del]

definition accepts :: "rx \<Rightarrow> string \<Rightarrow> bool" where
  "accepts r s \<longleftrightarrow> rests r s \<noteq> []"

definition rx_meta :: string where
  "rx_meta = CHR 0x5C # ''.+*?()|[]{}^$''"

definition rx_char :: "char \<Rightarrow> string" where
  "rx_char c = (if c \<in> set rx_meta then [CHR 0x5C, c] else [c])"

fun rx_text :: "rx \<Rightarrow> string" where
  "rx_text Empty = []"
| "rx_text (Lit c) = rx_char c"
| "rx_text (But c) = ''[^'' @ rx_char c @ '']''"
| "rx_text (Plus r) = rx_text r @ ''+''"
| "rx_text (Seq r q) = rx_text r @ rx_text q"

definition lits :: "string \<Rightarrow> rx" where
  "lits s = foldr (\<lambda>c. Seq (Lit c)) s Empty"

text \<open>The expression of a wildcard host: a label that is not empty, then the domain.\<close>

definition wildcard_rx :: "string \<Rightarrow> rx" where
  "wildcard_rx dn = Seq (Plus (But (CHR ''.''))) (lits dn)"

definition fold_prefix :: "string \<Rightarrow> string \<Rightarrow> bool" where
  "fold_prefix p s \<longleftrightarrow> length p \<le> length s \<and> equal_fold (take (length p) s) p"

lemma fold_prefix_simps [simp]:
  "fold_prefix [] s"
  "fold_prefix (c # p) (x # s) \<longleftrightarrow> ascii_lower x = ascii_lower c \<and> fold_prefix p s"
  "\<not> fold_prefix (c # p) []"
  by (auto simp: fold_prefix_def equal_fold_def)

lemma fold_prefix_self [simp]: "fold_prefix p (p @ s)"
  by (simp add: fold_prefix_def equal_fold_def)

lemma rests_lits: "rests (lits p) s = (if fold_prefix p s then [drop (length p) s] else [])"
proof (induction p arbitrary: s)
  case (Cons c p)
  then show ?case by (cases s) (simp_all add: lits_def)
qed (simp add: lits_def)

lemma ascii_lower_dot [simp]: "ascii_lower x = CHR ''.'' \<longleftrightarrow> x = CHR ''.''" "ascii_lower (CHR ''.'') = CHR ''.''"
proof -
  have "ascii_lower x \<noteq> CHR ''.''" if "65 \<le> (of_char x :: nat)" "(of_char x :: nat) \<le> 90"
  proof
    assume "ascii_lower x = CHR ''.''"
    then have "(of_char (char_of (of_char x + 32 :: nat)) :: nat) = of_char (CHR ''.'')"
      using that by (simp add: ascii_lower_def Let_def)
    then show False using that by simp
  qed
  moreover have "ascii_lower x = x" if "\<not> (65 \<le> (of_char x :: nat) \<and> (of_char x :: nat) \<le> 90)"
    unfolding ascii_lower_def Let_def using that by (rule if_not_P)
  moreover have "\<not> (65 \<le> (of_char (CHR ''.'') :: nat) \<and> (of_char (CHR ''.'') :: nat) \<le> 90)" by simp
  ultimately show "ascii_lower x = CHR ''.'' \<longleftrightarrow> x = CHR ''.''" by metis
  show "ascii_lower (CHR ''.'') = CHR ''.''" by code_simp
qed

lemma rests_label:
  "set (rests (Plus (But (CHR ''.''))) s) = {v. \<exists>u. s = u @ v \<and> u \<noteq> [] \<and> CHR ''.'' \<notin> set u}"
proof (induction s)
  case (Cons x xs)
  have step: "(\<exists>u. x # xs = u @ v \<and> u \<noteq> [] \<and> CHR ''.'' \<notin> set u) \<longleftrightarrow>
      x \<noteq> CHR ''.'' \<and> (v = xs \<or> (\<exists>u. xs = u @ v \<and> u \<noteq> [] \<and> CHR ''.'' \<notin> set u))" for v
  proof
    assume "\<exists>u. x # xs = u @ v \<and> u \<noteq> [] \<and> CHR ''.'' \<notin> set u"
    then obtain u where u: "x # xs = u @ v" "u \<noteq> []" "CHR ''.'' \<notin> set u" by blast
    then obtain u' where u': "u = x # u'" "xs = u' @ v" by (cases u) auto
    show "x \<noteq> CHR ''.'' \<and> (v = xs \<or> (\<exists>u. xs = u @ v \<and> u \<noteq> [] \<and> CHR ''.'' \<notin> set u))"
    proof (cases "u' = []")
      case True
      then show ?thesis using u(3) u' by simp
    next
      case False
      then show ?thesis using u(3) u' by (metis list.set_intros)
    qed
  next
    assume r: "x \<noteq> CHR ''.'' \<and> (v = xs \<or> (\<exists>u. xs = u @ v \<and> u \<noteq> [] \<and> CHR ''.'' \<notin> set u))"
    then consider "v = xs" | u where "xs = u @ v" "u \<noteq> []" "CHR ''.'' \<notin> set u" by blast
    then show "\<exists>u. x # xs = u @ v \<and> u \<noteq> [] \<and> CHR ''.'' \<notin> set u"
    proof cases
      case 1
      then have "x # xs = [x] @ v \<and> [x] \<noteq> [] \<and> CHR ''.'' \<notin> set [x]" using r by simp
      then show ?thesis by blast
    next
      case (2 u)
      then have "x # xs = (x # u) @ v \<and> x # u \<noteq> [] \<and> CHR ''.'' \<notin> set (x # u)" using r by simp
      then show ?thesis by blast
    qed
  qed
  have "set (rests (Plus (But (CHR ''.''))) (x # xs)) =
      (if x = CHR ''.'' then {} else insert xs (set (rests (Plus (But (CHR ''.''))) xs)))"
    by (simp add: rests.simps(4) [of _ "x # xs"])
  then show ?case unfolding Cons.IH set_eq_iff mem_Collect_eq step by simp
qed (simp add: rests.simps(4))

lemma accepts_wildcard:
  "accepts (wildcard_rx dn) h \<longleftrightarrow> (\<exists>u v. h = u @ v \<and> u \<noteq> [] \<and> CHR ''.'' \<notin> set u \<and> fold_prefix dn v)"
proof -
  have "accepts (wildcard_rx dn) h \<longleftrightarrow> (\<exists>v \<in> set (rests (Plus (But (CHR ''.''))) h). fold_prefix dn v)"
    by (auto simp: accepts_def wildcard_rx_def rests_lits)
  then show ?thesis unfolding rests_label by blast
qed

subsection \<open>Wildcard hosts\<close>

definition dns_name :: "string \<Rightarrow> bool" where
  "dns_name dn \<longleftrightarrow> dn \<noteq> [] \<and> hd dn \<noteq> CHR ''.'' \<and> set dn \<subseteq> set ''abcdefghijklmnopqrstuvwxyz0123456789-.''"

lemma rx_text_lits:
  "set dn \<inter> (set rx_meta - {CHR ''.''}) = {} \<Longrightarrow> rx_text (lits dn) = replace_all (CHR ''.'') (backslash @ ''.'') dn"
  by (induction dn) (auto simp: lits_def rx_char_def rx_meta_def backslash_def)

lemma hostPrimitive_wildcard:
  assumes "dns_name dn"
  shows "hostPrimitive (''*.'' @ dn) =
    ''req_host_regmatch('' @ quoted (''(?i)^'' @ rx_text (wildcard_rx dn)) @ '')''"
proof -
  have "set ''abcdefghijklmnopqrstuvwxyz0123456789-.'' \<inter> (set rx_meta - {CHR ''.''}) = {}"
    by (simp add: rx_meta_def)
  then have "set dn \<inter> (set rx_meta - {CHR ''.''}) = {}" using assms unfolding dns_name_def by blast
  then show ?thesis
    by (simp add: hostPrimitive_def has_prefix_def wildcard_rx_def rx_text_lits quoted_def rx_char_def rx_meta_def
        backslash_def)
qed

text \<open>
  C14: the condition of a wildcard host is a search for a regular expression, and this accepts a host
  exactly when it starts with characters other than a dot followed at once by the domain. The dot
  between the label and the domain is lost: of a subdomain with one label nothing is accepted unless
  the label itself contains the start of the domain, and a host that merely ends with the domain is.
\<close>

theorem wildcard_condition_loses_dot:
  assumes "dns_name dn"
  shows "hostPrimitive (''*.'' @ dn) = ''req_host_regmatch('' @ quoted (''(?i)^'' @ rx_text (wildcard_rx dn)) @ '')'' \<and>
    (accepts (wildcard_rx dn) h \<longleftrightarrow>
      (\<exists>u v. h = u @ v \<and> u \<noteq> [] \<and> CHR ''.'' \<notin> set u \<and> fold_prefix dn v)) \<and>
    (CHR ''.'' \<notin> set x \<longrightarrow> (\<forall>c \<in> set x. ascii_lower c \<noteq> ascii_lower (hd dn)) \<longrightarrow>
      \<not> accepts (wildcard_rx dn) (x @ ''.'' @ dn)) \<and>
    (CHR ''.'' \<notin> set x \<longrightarrow> x \<noteq> [] \<longrightarrow> accepts (wildcard_rx dn) (x @ dn))"
proof (intro conjI impI)
  show "hostPrimitive (''*.'' @ dn) =
      ''req_host_regmatch('' @ quoted (''(?i)^'' @ rx_text (wildcard_rx dn)) @ '')''"
    by (rule hostPrimitive_wildcard [OF assms])
  show "accepts (wildcard_rx dn) h \<longleftrightarrow>
      (\<exists>u v. h = u @ v \<and> u \<noteq> [] \<and> CHR ''.'' \<notin> set u \<and> fold_prefix dn v)"
    by (rule accepts_wildcard)
  show "accepts (wildcard_rx dn) (x @ dn)" if "CHR ''.'' \<notin> set x" "x \<noteq> []"
    unfolding accepts_wildcard using that fold_prefix_self [of dn "[]"] by (metis append_Nil2)
  show "\<not> accepts (wildcard_rx dn) (x @ ''.'' @ dn)"
    if x: "CHR ''.'' \<notin> set x" "\<forall>c \<in> set x. ascii_lower c \<noteq> ascii_lower (hd dn)"
  proof
    assume "accepts (wildcard_rx dn) (x @ ''.'' @ dn)"
    then obtain u v where uv: "x @ ''.'' @ dn = u @ v" "u \<noteq> []" "CHR ''.'' \<notin> set u" "fold_prefix dn v"
      unfolding accepts_wildcard by blast
    obtain w where w: "x = u @ w" "v = w @ ''.'' @ dn"
      using uv(1,3) by (auto simp: append_eq_append_conv2 Cons_eq_append_conv)
    obtain d ds where d: "dn = d # ds" "d \<noteq> CHR ''.''" using assms by (cases dn) (auto simp: dns_name_def)
    show False
    proof (cases w)
      case Nil
      then have "CHR ''.'' = ascii_lower d" using uv(4) w(2) d(1) by simp
      then show False using d(2) by (metis ascii_lower_dot(1))
    next
      case (Cons c w')
      then have "ascii_lower c = ascii_lower d" using uv(4) w(2) d(1) by simp
      then show False using x(2) w(1) Cons d(1) by simp
    qed
  qed
qed

theorem wildcard_condition_loses_dot_witness:
  "\<not> accepts (wildcard_rx ''foo.com'') ''bar.foo.com'' \<and> accepts (wildcard_rx ''foo.com'') ''barfoo.com''"
  using wildcard_condition_loses_dot [of "''foo.com''" "[]" "''bar''"] by (simp add: dns_name_def ascii_lower_def)

subsection \<open>Conditions tell their rules\<close>

lemma quote_unique: "c \<notin> set x \<Longrightarrow> c \<notin> set x' \<Longrightarrow> x @ c # y = x' @ c # y' \<longleftrightarrow> x = x' \<and> y = y'"
proof (induction x arbitrary: x')
  case Nil
  then show ?case by (cases x') auto
next
  case (Cons a x)
  then show ?case by (cases x') auto
qed

lemma escape_injective:
  "replace_all (CHR ''.'') (backslash @ ''.'') a = replace_all (CHR ''.'') (backslash @ ''.'') b \<longleftrightarrow> a = b"
proof (induction a arbitrary: b)
  case Nil
  then show ?case by (cases b) (auto simp: backslash_def)
next
  case (Cons x xs)
  have head: "replace_all (CHR ''.'') (backslash @ ''.'') s \<noteq> CHR ''.'' # t" for s t
    by (cases s) (auto simp: backslash_def)
  show ?case
  proof (cases b)
    case (Cons y ys)
    then show ?thesis using Cons.IH head [of xs] head [of ys] head [symmetric] by (auto simp: backslash_def)
  qed (auto simp: backslash_def)
qed

text \<open>The call of a primitive: its name up to the parenthesis, and its first argument.\<close>

definition host_call :: "string \<Rightarrow> string \<times> string" where
  "host_call host =
     (if has_prefix host ''*.''
      then (''req_host_regmatch('', ''(?i)^['' @ ''^'' @ backslash @ ''.]+'' @ replace_all (CHR ''.'') (backslash @ ''.'') (drop 2 host))
      else (''req_host_in('', host))"

definition path_call :: "string \<Rightarrow> string \<times> string" where
  "path_call path =
     (if last path = CHR ''*'' then (''req_path_element_prefix_in('', butlast path) else (''req_path_in('', path))"

abbreviation quote_free :: "string \<Rightarrow> bool" where
  "quote_free s \<equiv> CHR 0x22 \<notin> set s"

lemma quote_free_escaped: "quote_free s \<Longrightarrow> quote_free (replace_all (CHR ''.'') (backslash @ ''.'') s)"
  by (induction s) (auto simp: backslash_def)

lemma host_call_quotes: "quote_free host \<Longrightarrow> quote_free (fst (host_call host)) \<and> quote_free (snd (host_call host))"
  using quote_free_escaped [of "drop 2 host"] set_drop_subset [of 2 host]
  by (auto simp: host_call_def backslash_def)

lemma path_call_quotes: "quote_free path \<Longrightarrow> quote_free (fst (path_call path)) \<and> quote_free (snd (path_call path))"
  by (auto simp: path_call_def dest: in_set_butlastD)

lemma host_call_inject: "host_call h = host_call h' \<longleftrightarrow> h = h'"
proof
  assume eq: "host_call h = host_call h'"
  show "h = h'"
  proof (cases "has_prefix h ''*.''")
    case True
    then have "has_prefix h' ''*.''" and "drop 2 h = drop 2 h'"
      using eq by (auto simp: host_call_def escape_injective split: if_splits)
    then show ?thesis using True by (auto simp: has_prefix_iff)
  next
    case False
    then show ?thesis using eq by (auto simp: host_call_def split: if_splits)
  qed
qed simp

lemma path_call_inject:
  assumes "p \<noteq> []" and "p' \<noteq> []"
  shows "path_call p = path_call p' \<longleftrightarrow> p = p'"
proof
  assume eq: "path_call p = path_call p'"
  have "p = butlast p @ [last p]" "p' = butlast p' @ [last p']" using assms by simp_all
  then show "p = p'" using eq by (simp add: path_call_def split: if_splits)
qed simp

definition any_host :: "string \<Rightarrow> bool" where
  "any_host h \<longleftrightarrow> h = [] \<or> h = ''*''"

definition condition_rest :: "string \<Rightarrow> string \<Rightarrow> string" where
  "condition_rest path expr =
     fst (path_call path) @ CHR 0x22 # snd (path_call path) @ CHR 0x22 #
       '', false)'' @ (if expr = [] then [] else ''&&'' @ expr)"

lemma buildCondition_calls:
  assumes "buildCondition h p a = Inr c" and "p \<noteq> []" and "p \<noteq> ''*''"
  obtains expr where "GetRouteExpression a = Inr expr"
    and "c = (if any_host h then condition_rest p expr
      else fst (host_call h) @ CHR 0x22 # snd (host_call h) @ CHR 0x22 # '')&&'' @ condition_rest p expr)"
proof -
  obtain expr where e: "GetRouteExpression a = Inr expr"
    using assms(1) by (auto simp: buildCondition_def Let_def split: sum.splits)
  have p: "pathPrimitive p = fst (path_call p) @ CHR 0x22 # snd (path_call p) @ CHR 0x22 # '', false)''"
    using assms(2,3) by (simp add: pathPrimitive_def path_call_def quoted_def)
  have h: "hostPrimitive h = (if any_host h then []
      else fst (host_call h) @ CHR 0x22 # snd (host_call h) @ CHR 0x22 # '')'')"
    by (auto simp: hostPrimitive_def host_call_def quoted_def any_host_def)
  have "c = (if any_host h then condition_rest p expr
      else fst (host_call h) @ CHR 0x22 # snd (host_call h) @ CHR 0x22 # '')&&'' @ condition_rest p expr)"
    using assms(1) by (auto simp: buildCondition_def Let_def e h p condition_rest_def)
  with e show thesis by (rule that)
qed

lemma condition_rest_inject:
  assumes "quote_free p" and "quote_free p'" and "p \<noteq> []" and "p' \<noteq> []"
  shows "condition_rest p e = condition_rest p' e' \<longleftrightarrow> p = p' \<and> e = e'"
proof -
  note q = path_call_quotes [OF assms(1)] path_call_quotes [OF assms(2)]
  have "condition_rest p e = condition_rest p' e' \<longleftrightarrow> path_call p = path_call p' \<and> e = e'"
    using q by (auto simp: condition_rest_def quote_unique prod_eq_iff)
  then show ?thesis using path_call_inject [OF assms(3,4)] by simp
qed

text \<open>
  C15: the condition of a rule tells its host, its path and the expression of its annotations: as long
  as no quote occurs in the hosts and paths, two rules get the same condition exactly when these
  agree, whatever the annotations hold.
\<close>

theorem condition_tells_rule:
  assumes "buildCondition h p a = Inr c" and "buildCondition h' p' a' = Inr c'"
    and "quote_free h" and "quote_free h'" and "h \<noteq> []" and "h' \<noteq> []"
    and "quote_free p" and "quote_free p'" and "p \<noteq> []" and "p' \<noteq> []" and "p \<noteq> ''*''" and "p' \<noteq> ''*''"
  shows "c = c' \<longleftrightarrow> h = h' \<and> p = p' \<and> GetRouteExpression a = GetRouteExpression a'"
proof -
  obtain e where e: "GetRouteExpression a = Inr e"
    and c: "c = (if any_host h then condition_rest p e
      else fst (host_call h) @ CHR 0x22 # snd (host_call h) @ CHR 0x22 # '')&&'' @ condition_rest p e)"
    using buildCondition_calls [OF assms(1,9,11)] .
  obtain e' where e': "GetRouteExpression a' = Inr e'"
    and c': "c' = (if any_host h' then condition_rest p' e'
      else fst (host_call h') @ CHR 0x22 # snd (host_call h') @ CHR 0x22 # '')&&'' @ condition_rest p' e')"
    using buildCondition_calls [OF assms(2,10,12)] .
  note q = host_call_quotes [OF assms(3)] host_call_quotes [OF assms(4)]
    path_call_quotes [OF assms(7)] path_call_quotes [OF assms(8)]
  note rest = condition_rest_inject [OF assms(7-10), of e e']
  have names: "fst (host_call x) \<noteq> fst (path_call y)" for x y by (simp add: host_call_def path_call_def)
  have differ: "condition_rest y z \<noteq> fst (host_call x) @ CHR 0x22 # t"
    if "quote_free x" "quote_free y" for x y z t
    using names [of x y] host_call_quotes [OF that(1)] path_call_quotes [OF that(2)]
    by (auto simp: condition_rest_def quote_unique)
  have hosts: "any_host h \<Longrightarrow> any_host h' \<Longrightarrow> h = h'" using assms(5,6) by (simp add: any_host_def)
  show ?thesis
  proof (cases "any_host h = any_host h'")
    case True
    then show ?thesis
      using hosts rest q host_call_inject [of h h'] unfolding c c' e e'
      by (auto simp: quote_unique prod_eq_iff)
  next
    case False
    then have "h \<noteq> h'" by auto
    moreover have "c \<noteq> c'"
      using False differ [OF assms(4,7)] differ [OF assms(3,8), symmetric] unfolding c c' by auto
    ultimately show ?thesis by simp
  qed
qed

definition ex_condition :: string where
  "ex_condition =
     (case buildCondition ''a.b'' ''/x*'' (Some [(CookieAnnotation, ''k: v'')]) of Inl _ \<Rightarrow> [] | Inr c \<Rightarrow> c)"

lemma ex_conditions:
  "buildCondition ''a.b'' ''/x*'' (Some [(CookieAnnotation, ''k: v'')]) = Inr ex_condition"
  "buildCondition ''a.b'' ''/x*'' (Some [(CookieAnnotation, ''k:v'')]) = Inr ex_condition"
  unfolding ex_condition_def by code_simp+

theorem condition_tells_rule_witness:
  "GetRouteExpression (Some [(CookieAnnotation, ''k: v'')]) = GetRouteExpression (Some [(CookieAnnotation, ''k:v'')])"
  using condition_tells_rule [OF ex_conditions] by simp

text \<open>
  Annotations are not escaped: the value of a cookie can end the primitive it is put in and add one
  of its own, here for another host.
\<close>

lemma annotation_adds_primitives:
  "GetRouteExpression (Some [(CookieAnnotation, ''k: v'' @ [CHR 0x22] @ '', false)||req_host_in('' @ [CHR 0x22] @ ''c.d'')]) =
     Inr (''req_cookie_value_in('' @ quoted ''k'' @ '', '' @ quoted ''v'' @ '', false)||req_host_in('' @
       quoted ''c.d'' @ '', false)'')"
  by code_simp

end
