(* ===== verification/Route_Order_Props.thy ===== *)
theory Route_Order_Props
  imports Condition_Props
begin

text \<open>
  Properties of the order in which rules are tried, of the patterns rules are stored under and
  of the index from ingresses to rules.
\<close>

subsection \<open>The order of the documentation\<close>

text \<open>
  What decides between two rules, the first component first: a host without wildcard, a longer
  host, an exact path, a longer path, conditions (cookie and header, cookie, header, none), age.
  The smaller value goes first.
\<close>

definition precedence :: "http_rule \<Rightarrow> bool \<times> int \<times> bool \<times> int \<times> int \<times> int" where
  "precedence r =
     (take 2 (r_host r) = ''*.'', - int (length (r_host r)),
      r_path r \<noteq> [] \<and> last (r_path r) = CHR ''*'', - int (length (r_path r)),
      - (2 * of_bool (ann_find (r_annots r) ''bfe.ingress.kubernetes.io/router.cookie'' \<noteq> None) +
         of_bool (ann_find (r_annots r) ''bfe.ingress.kubernetes.io/router.header'' \<noteq> None)),
      r_time r)"

definition conditioned :: "http_rule \<Rightarrow> bool" where
  "conditioned r \<longleftrightarrow> ann_find (r_annots r) ''bfe.ingress.kubernetes.io/router.cookie'' \<noteq> None \<or>
     ann_find (r_annots r) ''bfe.ingress.kubernetes.io/router.header'' \<noteq> None"

lemma wildcardHost_take: "wildcardHost h \<longleftrightarrow> take 2 h = ''*.''"
  by (auto simp: wildcardHost_def has_prefix_def numeral_2_eq_2)

lemma wildcardPath_last: "wildcardPath p \<longleftrightarrow> p \<noteq> [] \<and> last p = CHR ''*''"
proof (cases p rule: rev_cases)
  case (snoc q x)
  then show ?thesis by (simp add: wildcardPath_def has_suffix_def)
qed (simp add: wildcardPath_def)

lemma Priority_level:
  "Priority a = 10 + 10 * (2 * of_bool (ann_find a ''bfe.ingress.kubernetes.io/router.cookie'' \<noteq> None) +
     of_bool (ann_find a ''bfe.ingress.kubernetes.io/router.header'' \<noteq> None))"
  by (simp add: Priority_def priority_levels CookieAnnotation_def HeaderAnnotation_def BfeAnnotationPrefix_def)


lemma of_bool_same: "(of_bool a :: int) = of_bool b \<longleftrightarrow> a = b"
  by (cases a; cases b) simp_all


lemma precedence_same: "precedence r1 = precedence r2 \<longleftrightarrow> rule_rank r1 = rule_rank r2"
  unfolding precedence_def rule_rank_def wildcardHost_take wildcardPath_last Priority_level
    prod.inject of_bool_same
  by auto

lemma is_basic_group_iff:
  assumes "rs \<noteq> []"
  shows "is_basic_group rs \<longleftrightarrow> \<not> (2 \<le> length rs \<or> conditioned (hd rs))"
proof -
  have "length rs = 1 \<longleftrightarrow> \<not> 2 \<le> length rs" using assms by (cases rs; cases "tl rs") auto
  then show ?thesis
    unfolding is_basic_group_def conditioned_def PriorityBasic_def Priority_level
    by (auto simp del: One_nat_def)
qed




text \<open>Two wildcard hosts of one length, and a longer exact host, on one path and with a cookie condition.\<close>

definition ex_wild :: "nat \<Rightarrow> string \<Rightarrow> int \<Rightarrow> http_rule" where
  "ex_wild n host created = \<lparr>r_addr = n, r_ingress = ''d/i'', r_host = host, r_path = ''/x*'',
     r_annots = ex_cookie, r_cluster = ''d/i_s_80'', r_time = created\<rparr>"

definition ex_tied :: "((string \<times> http_rule) list) route_cache" where
  "ex_tied = snd (put_rule list_multimap (ex_wild 2 ''xab.cd'' 7)
     (snd (put_rule list_multimap (ex_wild 1 ''*.b.cd'' 5)
       (snd (put_rule list_multimap (ex_wild 0 ''*.ab.c'' 5) (NewRouteRuleCache list_multimap))))))"

lemma ex_tied_wf: "wf_rule_map (ruleMap ex_tied)"
proof -
  have "wf_cache set ex_tied"
    unfolding ex_tied_def by (intro lrm.put_rule_wf lrm.new_cache_wf)
  then show ?thesis by (simp add: wf_cache_def)
qed

lemma ex_tied_rules:
  "rules_find (ruleMap ex_tied) ''*.ab.c'' ''/x*'' = Some [ex_wild 0 ''*.ab.c'' 5]"
  "rules_find (ruleMap ex_tied) ''*.b.cd'' ''/x*'' = Some [ex_wild 1 ''*.b.cd'' 5]"
  "rules_find (ruleMap ex_tied) ''xab.cd'' ''/x*'' = Some [ex_wild 2 ''xab.cd'' 7]"
  unfolding ex_tied_def ex_wild_def ex_cookie_def by code_simp+

lemma ex_wild_conditioned: "conditioned (ex_wild n h t)"
  by (simp add: conditioned_def ex_wild_def ex_cookie_def ann_find_def CookieAnnotation_def BfeAnnotationPrefix_def)


subsection \<open>Map iteration\<close>

lemma shuffle_one: "i < length xs \<Longrightarrow> shuffle [i] xs = xs ! i # take i xs @ drop (Suc i) xs"
  by (cases xs) (simp_all add: Let_def)

text \<open>Every entry of the rule map can be the first one an iteration visits.\<close>

lemma visit_first:
  assumes "rules_find m h p = Some rs"
  shows "\<exists>w gs. visit w m = rs # gs"
proof -
  obtain ps where ps: "mget m h = Some ps" "mget ps p = Some rs"
    using assms by (auto simp: rules_find_def split: option.splits)
  obtain i where i: "i < length m" "m ! i = (h, ps)" using mget_in_set [OF ps(1)] by (metis in_set_conv_nth)
  obtain j where j: "j < length ps" "ps ! j = (p, rs)" using mget_in_set [OF ps(2)] by (metis in_set_conv_nth)
  have "visit \<lparr>ord_top = [i], ord_key = (\<lambda>_. [j])\<rparr> m =
      rs # map snd (take j ps @ drop (Suc j) ps) @
        concat (map (\<lambda>(host, paths). map snd (shuffle [j] paths)) (take i m @ drop (Suc i) m))"
    by (simp add: visit_def shuffle_one i j)
  then show ?thesis by blast
qed

lemma first_of_rank:
  assumes "visit w (ruleMap c) = rs # gs" and "\<not> is_basic_group rs" and "r \<in> set rs"
  shows "hd (filter (\<lambda>x. rule_rank x = rule_rank r) (snd (get_rules w c))) \<in> set rs"
proof -
  have "filter (\<lambda>x. rule_rank x = rule_rank r) (snd (get_rules w c)) =
      filter (\<lambda>x. rule_rank x = rule_rank r) (advanced_of rs @ concat (map advanced_of gs))"
    by (simp only: get_rules_snd assms(1) sort_key_stable list.map concat.simps)
  moreover have "advanced_of rs = rs" using assms(2,3) by (auto simp: advanced_of_def)
  moreover have "filter (\<lambda>x. rule_rank x = rule_rank r) rs \<noteq> []" using assms(3) by (auto simp: filter_empty_conv)
  ultimately show ?thesis
    using hd_in_set [of "filter (\<lambda>x. rule_rank x = rule_rank r) rs"] by simp
qed

text \<open>
  C16: the order of the advanced rules is the same for every iteration order of the maps exactly when no
  two of them, of different hosts or paths, are tied: alike in the kind and length of the host, the
  kind and length of the path, the kind of condition and the age. (Hosts such as \<open>*.ab.c\<close> and \<open>*.b.cd\<close>
  can be tied, and through the lost dot both their conditions accept the host \<open>xab.cd\<close>.)
\<close>

theorem order_independent_iff_no_ties:
  assumes "wf_rule_map (ruleMap c)"
  shows "(\<forall>w w'. snd (get_rules w c) = snd (get_rules w' c)) \<longleftrightarrow>
    (\<forall>r1 \<in> set (snd (get_rules any_order c)). \<forall>r2 \<in> set (snd (get_rules any_order c)).
       precedence r1 = precedence r2 \<longrightarrow> r_host r1 = r_host r2 \<and> r_path r1 = r_path r2)"
    (is "?same \<longleftrightarrow> ?untied")
proof
  let ?A = "\<lambda>r. \<exists>h p rs. rules_find (ruleMap c) h p = Some rs \<and> \<not> is_basic_group rs \<and> r \<in> set rs"
  assume same: ?same
  show ?untied
  proof (intro ballI impI)
    fix r1 r2
    assume "r1 \<in> set (snd (get_rules any_order c))" "r2 \<in> set (snd (get_rules any_order c))"
    then obtain h1 p1 rs1 h2 p2 rs2 where
      1: "rules_find (ruleMap c) h1 p1 = Some rs1" "\<not> is_basic_group rs1" "r1 \<in> set rs1" and
      2: "rules_find (ruleMap c) h2 p2 = Some rs2" "\<not> is_basic_group rs2" "r2 \<in> set rs2"
      unfolding set_advanced [OF assms] by blast
    assume "precedence r1 = precedence r2"
    then have tie: "rule_rank r1 = rule_rank r2" by (simp add: precedence_same)
    obtain w1 gs1 where w1: "visit w1 (ruleMap c) = rs1 # gs1" using visit_first [OF 1(1)] by blast
    obtain w2 gs2 where w2: "visit w2 (ruleMap c) = rs2 # gs2" using visit_first [OF 2(1)] by blast
    have "snd (get_rules w1 c) = snd (get_rules w2 c)" using same by blast
    then obtain r where "r \<in> set rs1" "r \<in> set rs2"
      using first_of_rank [OF w1 1(2,3)] first_of_rank [OF w2 2(2,3)] tie by auto
    then have "h1 = h2 \<and> p1 = p2"
      using group_okD [OF assms, of r h1 p1] group_okD [OF assms, of r h2 p2] 1(1) 2(1) by (simp add: rules_at_def)
    moreover have "r_host r1 = h1 \<and> r_path r1 = p1" "r_host r2 = h2 \<and> r_path r2 = p2"
      using group_okD [OF assms, of r1 h1 p1] group_okD [OF assms, of r2 h2 p2] 1 2 by (simp_all add: rules_at_def)
    ultimately show "r_host r1 = r_host r2 \<and> r_path r1 = r_path r2" by simp
  qed
next
  assume untied: ?untied
  let ?P = "\<lambda>r. r \<in> set (snd (get_rules any_order c))"
  have all: "filter ?P (snd (get_rules w c)) = snd (get_rules w c)" for w
    using set_advanced [OF assms] by (simp add: filter_id_conv)
  show ?same
  proof (intro allI)
    fix w w'
    have "filter ?P (snd (get_rules w c)) = filter ?P (snd (get_rules w' c))"
      by (rule advanced_order_free [OF assms]) (use untied precedence_same in blast)
    then show "snd (get_rules w c) = snd (get_rules w' c)" unfolding all .
  qed
qed

theorem order_independent_iff_no_ties_witness:
  "(\<exists>w w'. snd (get_rules w ex_tied) \<noteq> snd (get_rules w' ex_tied)) \<and>
    accepts (wildcard_rx ''ab.c'') ''xab.cd'' \<and> accepts (wildcard_rx ''b.cd'') ''xab.cd''"
proof (intro conjI)
  have "ex_wild 0 ''*.ab.c'' 5 \<in> set (snd (get_rules any_order ex_tied))"
    "ex_wild 1 ''*.b.cd'' 5 \<in> set (snd (get_rules any_order ex_tied))"
    unfolding set_advanced [OF ex_tied_wf]
    using ex_tied_rules ex_wild_conditioned by (fastforce simp: is_basic_group_iff)+
  moreover have "precedence (ex_wild 0 ''*.ab.c'' 5) = precedence (ex_wild 1 ''*.b.cd'' 5)"
    by (simp add: precedence_def ex_wild_def)
  moreover have "r_host (ex_wild 0 ''*.ab.c'' 5) \<noteq> r_host (ex_wild 1 ''*.b.cd'' 5)"
    by (simp add: ex_wild_def)
  ultimately show "\<exists>w w'. snd (get_rules w ex_tied) \<noteq> snd (get_rules w' ex_tied)"
    using order_independent_iff_no_ties [OF ex_tied_wf] by blast
qed code_simp+

subsection \<open>Patterns\<close>

lemma checkPath_None: "checkPath p = None \<longleftrightarrow> p \<noteq> [] \<and> CHR ''*'' \<notin> set p"
  by (simp add: checkPath_def)

lemma put_rule_elsewhere:
  "(h, p) \<noteq> (r_host rule, r_path rule) \<Longrightarrow>
     rules_at (ruleMap (snd (put_rule M rule c))) h p = rules_at (ruleMap c) h p"
  by (cases rule: put_rule_cases [of rule c M]) auto

lemma put_rule_time:
  assumes "fst (put_rule M rule c) = None"
  shows "\<exists>r. route_view (ruleMap (snd (put_rule M rule c))) (rule_key rule) = Some r \<and> r_time r = r_time rule"
  using assms unfolding put_rule_conflict put_rule_view
  by (auto simp: spec_put_apply spec_conflict_def split: option.splits if_splits)

lemma starred_pattern:
  assumes "CHR ''*'' \<notin> set x" and "CHR ''*'' \<notin> set y"
  shows "(if a then x @ ''*'' else x) = (if b then y @ ''*'' else y) \<longleftrightarrow> x = y \<and> (a \<longleftrightarrow> b)"
proof -
  have "x \<noteq> y @ ''*''" "y \<noteq> x @ ''*''" using assms by auto
  then show ?thesis by auto
qed

text \<open>
  C35: adding a path of an ingress without error files a rule under the host, where no host means
  every host, and under the path, with a star at its end exactly when it is matched as a prefix (or by
  the implementation, or without a type); entries of other hosts, of other paths, and of the same path
  with the other kind of match stay as they are.
\<close>

theorem rule_stored_under_pattern:
  assumes "addRule E ing h p s = Some (None, s')"
    and "host = (if h = [] then ''*'' else h)"
    and "starred \<longleftrightarrow> hp_type p \<in> {None, Some ''Prefix'', Some ''ImplementationSpecific''}"
    and "CHR ''*'' \<notin> set x" and "(h', x, b) \<noteq> (host, hp_path p, starred)"
  shows "(\<exists>r. route_view (ruleMap (routeRuleCache s'))
        (host, if starred then hp_path p @ ''*'' else hp_path p, cond_of (ing_annots ing)) = Some r \<and>
      r_time r = ing_created ing) \<and>
    rules_at (ruleMap (routeRuleCache s')) h' (if b then x @ ''*'' else x) =
      rules_at (ruleMap (routeRuleCache s)) h' (if b then x @ ''*'' else x)"
proof -
  let ?rule = "rule_for ing (sd_next_addr s, h, p)"
  have valid: "path_valid (h, p)" by (rule addRule_None_valid [OF assms(1)])
  have put: "fst (put_rule (sd_rules E) ?rule (routeRuleCache s)) = None"
    "routeRuleCache s' = snd (put_rule (sd_rules E) ?rule (routeRuleCache s))"
    using assms(1) unfolding addRule_valid [OF valid] by (auto split: prod.splits)
  have pat: "rule_path p = (if starred then hp_path p @ ''*'' else hp_path p)"
    unfolding assms(3) by (auto simp: rule_path_def PathTypePrefix_def PathTypeImplementationSpecific_def)
  have host: "rule_host h = host" by (simp add: rule_host_def assms(2))
  have star: "CHR ''*'' \<notin> set (hp_path p)" using valid by (simp add: path_valid_def checkPath_None)
  have "(h', if b then x @ ''*'' else x) \<noteq> (r_host ?rule, r_path ?rule)"
    using starred_pattern [OF assms(4) star] assms(5) by (auto simp: pat host)
  from put_rule_elsewhere [OF this]
  have other: "rules_at (ruleMap (routeRuleCache s')) h' (if b then x @ ''*'' else x) =
      rules_at (ruleMap (routeRuleCache s)) h' (if b then x @ ''*'' else x)" by (simp only: put(2))
  show ?thesis
    using put_rule_time [OF put(1)] other by (simp add: put(2) rule_key_def pat host)
qed

definition ex_added :: "((string \<times> http_rule) list) server_data" where
  "ex_added = snd (the (addRule ex_sd_env (ex_ingress ''i'' None 5) ''a.b'' (ex_path ''/z'' ''s'') ex_state))"

lemma ex_add: "addRule ex_sd_env (ex_ingress ''i'' None 5) ''a.b'' (ex_path ''/z'' ''s'') ex_state = Some (None, ex_added)"
  unfolding ex_added_def ex_state_def by code_simp

theorem rule_stored_under_pattern_witness:
  "(\<exists>r. route_view (ruleMap (routeRuleCache ex_added)) (''a.b'', ''/z'', cond_of None) = Some r \<and> r_time r = 5) \<and>
    rules_at (ruleMap (routeRuleCache ex_added)) ''a.b'' ''/z*'' = rules_at (ruleMap (routeRuleCache ex_state)) ''a.b'' ''/z*''"
  using rule_stored_under_pattern [OF ex_add refl refl, of "''/z''" "''a.b''" True]
  by (simp add: ex_path_def ex_ingress_def)

text \<open>
  A host is accepted exactly when it has no star, or is a star and a dot followed by a name
  without stars.
\<close>

lemma legal_hosts:
  "checkHost host = None \<longleftrightarrow>
     CHR ''*'' \<notin> set host \<or> (\<exists>d. host = ''*.'' @ d \<and> CHR ''*'' \<notin> set d)"
proof -
  have zero: "count_list xs x = 0 \<longleftrightarrow> x \<notin> set xs" for xs :: string and x
    by (simp add: count_list_0_iff)
  show ?thesis
  proof (cases "has_prefix host ''*.''")
    case True
    then obtain d where d: "host = ''*.'' @ d" by (metis append_take_drop_id has_prefix_def)
    then have "count_list host (CHR ''*'') = Suc (count_list d (CHR ''*''))" by simp
    then show ?thesis using True zero [of d "CHR ''*''"] by (auto simp: checkHost_def d)
  next
    case False
    then have "\<not> (\<exists>d. host = ''*.'' @ d)" by (auto simp: has_prefix_def)
    moreover have "checkHost host = None \<longleftrightarrow> count_list host (CHR ''*'') = 0"
      using False by (auto simp: checkHost_def)
    ultimately show ?thesis using zero by simp
  qed
qed

text \<open>
  The condition of an ingress is refused exactly when its cookie or its header annotation
  is neither empty nor a name and a value around a colon, with a value of at least one byte; the
  condition is empty exactly when both annotations are.
\<close>

lemma route_expression_errors:
  "((\<exists>e. GetRouteExpression a = Inl e) \<longleftrightarrow>
      \<not> pair_ok (ann_get a CookieAnnotation) \<or> \<not> pair_ok (ann_get a HeaderAnnotation)) \<and>
   (GetRouteExpression a = Inr [] \<longleftrightarrow>
      ann_get a CookieAnnotation = [] \<and> ann_get a HeaderAnnotation = [])"
proof -
  note c = cookiePrimitive_error [of "ann_get a CookieAnnotation"]
  note h = headerPrimitive_error [of "ann_get a HeaderAnnotation"]
  note e = primitive_empty(1) [of "ann_get a CookieAnnotation"]
    primitive_empty(2) [of "ann_get a HeaderAnnotation"]
  show ?thesis
    using c h e
    by (cases "cookiePrimitive (ann_get a CookieAnnotation)";
        cases "headerPrimitive (ann_get a HeaderAnnotation)")
      (auto simp: GetRouteExpression_def)
qed

subsection \<open>The index from ingresses to rules\<close>

text \<open>
  C36: when an older rule takes the place of a rule of another ingress, the index keeps the rule
  that is gone: its ingress still counts as contained. (The code removes the old rule from the
  entry of the new rule's ingress.)
\<close>

theorem overwritten_rule_stays_indexed:
  assumes "multimap M R" and "wf_cache R c" and "route_view (ruleMap c) (rule_key rule) = Some r"
    and "r_time rule < r_time r" and "r_ingress r \<noteq> r_ingress rule"
  shows "(r_ingress r, r) \<in> R (ingress2Rule (snd (put_rule M rule c))) \<and>
    ContainsIngress M (r_ingress r) (snd (put_rule M rule c)) \<and>
    route_view (ruleMap (snd (put_rule M rule c))) (rule_key rule) = Some rule"
proof -
  let ?rs = "rules_at (ruleMap c) (r_host rule) (r_path rule)"
  obtain i where i: "find_same (r_annots rule) 0 ?rs = Some (i, r)"
    using assms(3) by (auto simp: route_view_key)
  have "r \<in> set ?rs" using find_same_Some [OF i] by auto
  then have idx: "(r_ingress r, r) \<in> R (ingress2Rule c)" using assms(2) by (simp add: wf_cache_def)
  have "ingress2Rule (snd (put_rule M rule c)) =
      mm_put M (mm_remove M (ingress2Rule c) (r_ingress rule) r) (r_ingress rule) rule"
    by (cases rule: put_rule_cases [of rule c M]) (use i assms(4) in auto)
  then have kept: "(r_ingress r, r) \<in> R (ingress2Rule (snd (put_rule M rule c)))"
    using idx assms(5) by (simp add: multimap.put_pairs [OF assms(1)] multimap.remove_pairs [OF assms(1)])
  then have "ContainsIngress M (r_ingress r) (snd (put_rule M rule c))"
    by (auto simp: ContainsIngress_def multimap.contains_key [OF assms(1)])
  moreover have "route_view (ruleMap (snd (put_rule M rule c))) (rule_key rule) = Some rule"
    using assms(3,4) by (simp add: put_rule_view spec_put_apply)
  ultimately show ?thesis using kept by blast
qed

definition ex_older :: http_rule where
  "ex_older = (ex_rule 9 ''/x'')\<lparr>r_ingress := ''d/o'', r_time := 1\<rparr>"

theorem overwritten_rule_stays_indexed_witness:
  "(''d/i'', ex_rule 0 ''/x'') \<in>
      set (ingress2Rule (snd (put_rule list_multimap ex_older (routeRuleCache ex_state)))) \<and>
   ContainsIngress list_multimap ''d/i'' (snd (put_rule list_multimap ex_older (routeRuleCache ex_state))) \<and>
   route_view (ruleMap (snd (put_rule list_multimap ex_older (routeRuleCache ex_state)))) (rule_key ex_older) =
      Some ex_older"
proof -
  have "route_view (ruleMap (routeRuleCache ex_state)) (rule_key ex_older) = Some (ex_rule 0 ''/x'')"
    using ex_state_rules
    by (simp add: route_view_def rule_key_def rules_at_def ex_older_def ex_rule_def)
  from overwritten_rule_stays_indexed [OF lmm.multimap_axioms ex_state_wf this]
  show ?thesis by (simp add: ex_older_def ex_rule_def)
qed

text \<open>
  The host \<open>*\<close>, which stands for every host, is not a wildcard host for the order: its rules are
  tried before those of \<open>*.d\<close>, although it is the less specific of the two.
\<close>

lemma any_host_before_wildcard:
  "r_host r1 = ''*'' \<Longrightarrow> r_host r2 = ''*.'' @ d \<Longrightarrow> rule_before r1 r2 \<and> \<not> rule_before r2 r1"
  by (simp add: rule_before_def comparePriority_def wildcardHost_def has_prefix_def Let_def)

end
