(* ===== verification/Spec2Isabelle.thy ===== *)
theory Spec2Isabelle
  imports Disk_Props Table_Props Lifecycle_Props Route_Order_Props Annotation_Props Condition_Props
begin

text \<open>
  The BFE ingress controller (\<^verbatim>\<open>internal/\<close> and \<^verbatim>\<open>cmd/ingress-controller\<close>), a Kubernetes controller in
  Go that turns Ingress, Service, Endpoints and Secret objects into configuration files of the BFE
  proxy and asks BFE to load them.

  \<^bold>\<open>The program and its parts.\<close> Reconcilers (\<^verbatim>\<open>controllers/ingress\<close>) are called with the name of an
  object that changed, read it and what it refers to from the API server, and call the configuration
  builder (\<^verbatim>\<open>bfeConfig/configBuilder.go\<close>). The builder holds three configurations behind one lock:
  server data (hosts, routes, cluster parameters), clusters (backends and weights) and TLS
  (certificates). A goroutine started by \<^verbatim>\<open>InitReload\<close> writes what changed and calls BFE at every tick.

  \<^bold>\<open>Theories, in the order of the code.\<close>
  \<^item> \<open>Go_Prelude\<close>, \<open>Go_Strings\<close>, \<open>Go_Json\<close>: Go maps as association lists, the order of a \<^verbatim>\<open>range\<close>
    over a map as an argument (\<open>schedule\<close>), loops with an early return (\<open>each_go\<close>), integers of 32 and 64
    bits, and the parts of \<^verbatim>\<open>strings\<close>, \<^verbatim>\<open>strconv\<close> and \<^verbatim>\<open>encoding/json\<close> the program uses, on byte strings.
  \<^item> \<open>Ctl_Error\<close>: the errors as one datatype. A Go \<^verbatim>\<open>error\<close> is an option, a call that may panic returns an
    option whose \<open>None\<close> is the panic, a call that yields a value or an error returns a sum.
  \<^item> \<open>Annotations\<close> (\<^verbatim>\<open>bfeConfig/annotations\<close>), \<open>Kube_Types\<close> (the API types), \<open>Util_Name\<close> and \<open>Util_IO\<close>
    (\<^verbatim>\<open>bfeConfig/util\<close>). An operation on the outside extends a trace of effects; its answers are a parameter
    (\<open>io_env\<close>) that may depend on the trace.
  \<^item> \<open>Multimap\<close>: the third-party set multimap as the interface \<open>multimap\<close>, interpreted on lists of pairs.
  \<^item> \<open>Route_Rule_Cache\<close>, \<open>Route_Rule_Order\<close> (\<^verbatim>\<open>routeRuleCache.go\<close>), \<open>Server_Data_Config\<close>
    (\<^verbatim>\<open>serverDataConfig.go\<close>), \<open>Cluster_Config\<close> (\<^verbatim>\<open>clusterConfig.go\<close>), \<open>TLS_Config\<close> (\<^verbatim>\<open>TLSConfig.go\<close>): one
    record per Go struct, one definition per method. Methods that two structs share get the prefix
    \<open>sd_\<close>, \<open>cl_\<close> or \<open>tls_\<close>. \<open>Config_Reload\<close>: the three \<^verbatim>\<open>Reload\<close> methods; \<open>Config_Builder\<close>
    (\<^verbatim>\<open>configBuilder.go\<close>): the builder (prefix \<open>cb_\<close>) and the reload loop.
  \<^item> \<open>Ctl_Options\<close> (\<^verbatim>\<open>option\<close>, \<^verbatim>\<open>flags.go\<close>), \<open>Event_Filter\<close> (\<^verbatim>\<open>controllers/filter\<close>),
    \<open>Ingress_Controller\<close> (\<^verbatim>\<open>netv1\<close>, and the service and secret reconcilers), \<open>Beta_Ingress\<close> (the old
    API types) with \<open>Netv1beta1_Ingress\<close> and \<open>Extv1beta1_Ingress\<close> (the two packages, each translated on
    its own, with their conversions to \<^verbatim>\<open>v1\<close>).
  \<^item> \<open>Registration\<close> (\<^verbatim>\<open>setupWithManager\<close> and \<^verbatim>\<open>Add*Controller\<close>: what is watched, with which filter, by
    which reconciler, and the address of the builder each reconciler holds), \<open>Startup\<close>
    (\<^verbatim>\<open>start.go\<close>, \<^verbatim>\<open>main.go\<close>: the steps of \<^verbatim>\<open>Start\<close> and its early returns),
    \<open>Controller_Loop\<close> (the requests the registered controllers make of an event, and runs over sequences
    of events and ticks), \<open>Lifecycle\<close> (the goroutine that waits for BFE and signals the process, and the
    return of \<^verbatim>\<open>Start\<close> and \<^verbatim>\<open>main\<close>; BFE, the operating system, the signal handler and the manager are
    a parameter with steps of its own).

  \<^bold>\<open>What is proved.\<close> The theories \<open>*_Spec\<close> (with \<open>Route_Store\<close>, \<open>Cluster_Invariants\<close>, \<open>Cluster_Owner\<close>)
  hold the specifications, invariants and interfaces, the theories \<open>*_Props\<close> and this one the properties,
  numbered C1 to C40, each with a witness on a small cluster where it has hypotheses.
  \<^item> Rules: the cache refines a table from host, path and condition to the oldest rule; an update replaces
    the rules of its ingress; in every reachable configuration the route table routes every cached rule and
    names configured clusters only (\<open>Table_Runs\<close>), if BFE checks the entries of a table one by one. The
    order of the advanced rules is that of the documentation (\<open>precedence\<close>), and depends on map iteration
    exactly when rules of different hosts or paths are tied in it.
  \<^item> Conditions (\<open>Condition_Props\<close>): the condition of an advanced rule tells its host, its path and its
    annotations when no quotes occur in them; the regular expression of a wildcard host, over ASCII text,
    with the hosts it accepts.
  \<^item> Clusters: which clusters, weights and backends an ingress gets, what the deletion of an ingress or
    service removes, and that the clusters of other ingresses are left alone.
  \<^item> Certificates: only checked certificates that an ingress names are served; the others go with their files.
  \<^item> Reload: the contract \<open>reloadable\<close> (and \<open>live_reload\<close>), that a success has written every changed file
    of a configuration, and no other, before BFE is told of that configuration by its name, that a failure is retried,
    and that the loop converges when the outside recovers.
  \<^item> Composition: \<open>Builder_Spec\<close> has a step relation with a rule per operation of the builder and shows the
    invariants in every reachable state; \<open>Controller_Spec\<close> and \<open>Loop_Spec\<close> show that the reconcilers and
    whole runs of the controller stay within it. A request that fails leaves nothing of its ingress.
  \<^item> Files: \<open>Version_Spec\<close> relates the versions in a configuration to the readings of the clock,
    \<open>Disk_Spec\<close> gives the effects of a trace on a disk, \<open>Disk_Files\<close> tracks the files of each
    configuration through its handlers, and \<open>Disk_Runs\<close> and \<open>Loop_Disk\<close> lift this to the builder and to
    runs of the controller: a file whose version BFE confirmed holds the current text.
  \<^item> Start and end: only what \<^verbatim>\<open>Start\<close> registered is handled (\<open>Startup_Spec\<close>). If the process can signal
    itself and the outside heeds signals, once BFE is down every run of the process comes to its end within
    a bound (\<open>Lifecycle_Props\<close>).
  \<^item> Behaviour that is not meant, stated as it is: stale routes after a refused update, the index that keeps an
    overwritten rule, the nil map after a deleted service, the lost weights of a balanced cluster, the
    panics of the old API versions, versions compared as text, the dot that wildcard hosts lose in a
    condition, annotations put into a condition without escaping, clusters taken over by a service that
    their ingress no longer names, services that are dropped because a port without a name is looked up
    under the name of its target, or get one endpoint only, tied wildcard hosts that are tried in the order
    of map iteration, class changes and deleted services that are ignored.

  \<^bold>\<open>Interfaces.\<close> \<open>multimap\<close>, \<open>rule_multimap\<close>, \<open>route_store\<close>, \<open>server_rules\<close>, \<open>cluster_maps\<close>,
  \<open>tls_certs\<close>, \<open>builder_maps\<close>, \<open>reloadable\<close>, \<open>dumped_config\<close>, \<open>tracked_config\<close>
  (which extends it with where the files are) and \<open>live_reload\<close>; each is interpreted on the
  model's definitions. Properties over an arbitrary multimap take its laws as a hypothesis and reach
  the lemmas of a locale through its introduction rule.

  \<^bold>\<open>Bounds.\<close> No definition takes fuel: loops are structural or have a termination proof by the length of the
  rest of a string. The end of a process takes at most \<open>left + d + 4\<close> steps, where \<open>left\<close> bounds the steps
  the outside has left and \<open>d\<close> those a signal adds. Nesting of JSON values is limited to 10000, as in Go. A sum of weights wraps around
  at 64 bits, a port number at 32.

  \<^bold>\<open>Parameters.\<close> The multimap package, BFE's checks of the route table, of the cluster table and of key
  pairs, the JSON encoding of BFE's types, the file system, the HTTP server of BFE, the API server, the
  clock, the order of map iteration, the text of JSON errors, and what the manager of controller-runtime
  and the operating system answer. The theorem on files assumes a clock whose readings differ, distinct
  configuration paths, and a failed write that leaves a file as it was or with the new text; a path is the
  string it is written as. That deleting an ingress never meets a refused route table assumes that BFE
  checks the entries of a table one by one (\<open>checks_entries\<close>). That the controller ends with BFE assumes
  that the operating system and controller-runtime heed signals as documented (\<open>heeds_signals\<close>) and that
  \<^verbatim>\<open>raise\<close> succeeds.

  \<^bold>\<open>Not modelled.\<close> Logging; the queue of controller-runtime (a run is any sequence of events, so requests
  may be merged, reordered and repeated); the parsing of the command line by the package \<^verbatim>\<open>flag\<close>; the
  end-to-end tests, images, charts and documents. The annotation map an ingress
  shares with its cached rules is copied: writing the status changes no annotation a rule is read for
  (\<open>status_write_keeps_routing\<close>).
\<close>

section \<open>Properties that span the components\<close>

subsection \<open>Reachable configurations\<close>

text \<open>
  In every reachable configuration each service a cluster has a weight for is a sub-cluster of
  that cluster, and every cluster filed under an ingress is in the cluster table.
\<close>

lemma weights_name_subclusters:
  assumes "multimap (sd_rules (cb_sd E)) R1" and "multimap (cl_strs (cb_cl E)) R2"
    and "multimap (tls_strs (cb_tls E)) R2" and "reachable E c"
  shows "(\<forall>n ws s. mget (gslb (clusterConf c)) n = Some ws \<longrightarrow> mget ws s \<noteq> None \<longrightarrow>
      (\<exists>subs. mget (table (clusterConf c)) n = Some subs \<and> mget subs s \<noteq> None)) \<and>
    (\<forall>i n. (i, n) \<in> R2 (ingress2Cluster (clusterConf c)) \<longrightarrow> mget (table (clusterConf c)) n \<noteq> None)"
  using builder_maps.reachable_ok [OF builder_mapsI [OF assms(1-3)] assms(4)]
    builder_mapsI [OF assms(1-3)]
  unfolding builder_maps.cb_ok_def [OF builder_mapsI [OF assms(1-3)]] weights_ok_def
    cluster_maps.owned_def [OF cluster_mapsI [OF assms(2)]]
  by blast

lemma ex_synced_weights: "mget (gslb (clusterConf ex_synced)) ''d/i_s_80'' = Some [(''d/s'', 10)]"
  unfolding ex_synced_def by code_simp

lemma weights_name_subclusters_witness:
  "\<exists>subs. mget (table (clusterConf ex_synced)) ''d/i_s_80'' = Some subs \<and> mget subs ''d/s'' \<noteq> None"
  using weights_name_subclusters [OF ex_env_multimaps ex_synced_reachable] ex_synced_weights by fastforce

text \<open>
  C6: in every reachable configuration the certificates BFE is told of are the default one and
  those of checked secrets that some ingress names.
\<close>

theorem served_certificates_are_checked:
  assumes "multimap (sd_rules (cb_sd E)) R1" and "multimap (cl_strs (cb_cl E)) R2"
    and "multimap (tls_strs (cb_tls E)) R2" and "reachable E c"
  shows "(mget (cert_table (tlsConf c)) n \<noteq> None \<longleftrightarrow> n = DefaultCNName \<or> mget (certs (tlsConf c)) n \<noteq> None) \<and>
    (\<forall>p. mget (certs (tlsConf c)) n = Some p \<longrightarrow>
      tls_key_pair (cb_tls E) (cert_pem p) (key_pem p) = None \<and>
      (\<exists>i. (i, n) \<in> R2 (ingress2secret (tlsConf c))))"
proof -
  have ok: "tls_ok (cb_tls E) R2 (tlsConf c)"
    using builder_maps.reachable_ok [OF builder_mapsI [OF assms(1-3)] assms(4)]
    unfolding builder_maps.cb_ok_def [OF builder_mapsI [OF assms(1-3)]] by blast
  show ?thesis using tls_okD(1) [OF ok, of n] tls_okD(4) [OF ok] by force
qed

theorem served_certificates_are_checked_witness:
  "mget (cert_table (tlsConf ex_secured)) ''d/c'' \<noteq> None \<and> tls_key_pair (cb_tls ex_env) ''P'' ''P'' = None \<and>
    (\<exists>i. (i, ''d/c'') \<in> set (ingress2secret (tlsConf ex_secured)))"
  using served_certificates_are_checked [OF ex_env_multimaps ex_secured_reachable, of "''d/c''"] ex_secured_cert
  by fastforce

subsection \<open>Reload\<close>

definition ex_trace :: trace where
  "ex_trace = snd (fst (cb_reload ex_marshal [] ex_io ex_synced []))"

definition ex_confirmed :: "((string \<times> http_rule) list, (string \<times> string) list) builder" where
  "ex_confirmed = snd (cb_reload ex_marshal [] ex_io ex_synced [])"

lemma ex_reload: "cb_reload ex_marshal [] ex_io ex_synced [] = ((None, ex_trace), ex_confirmed)"
  unfolding ex_trace_def ex_confirmed_def ex_synced_def by code_simp

lemma ex_pending: "cb_pending ex_synced"
  unfolding ex_synced_def by code_simp

definition ex_down :: io_env where
  "ex_down = ex_io\<lparr>io_get := (\<lambda>h u. Inl (Foreign ''refused''))\<rparr>"

lemma ex_reload_down:
  "cb_reload ex_marshal [] ex_down ex_synced [] =
     ((Some (Foreign ''refused''), snd (fst (cb_reload ex_marshal [] ex_down ex_synced []))), ex_synced)"
  unfolding ex_synced_def by code_simp

text \<open>
  C21: a reload fails, at whichever step of whichever configuration, exactly when something is left
  pending, so that the next tick tries again; the configuration is as it was; and after a reload
  without error a further one, in whatever environment, does nothing until the next change.
\<close>

theorem reload_outcome:
  assumes "cb_reload mj sch io c h = ((r, h'), c')"
  shows "(r = None \<longleftrightarrow> \<not> cb_pending c') \<and> cb_view c' = cb_view c \<and>
    (r = None \<longrightarrow> cb_reload mj' sch' io' c' h'' = ((None, h''), c'))"
proof (intro conjI impI)
  show p: "r = None \<longleftrightarrow> \<not> cb_pending c'" by (rule cbr.reload_error_iff [OF assms])
  show "cb_view c' = cb_view c" by (rule cbr.reload_view [OF assms])
  show "cb_reload mj' sch' io' c' h'' = ((None, h''), c')" if "r = None"
    by (rule cbr.reload_idle) (use p that in simp)
qed

theorem reload_outcome_witness:
  "cb_pending ex_synced \<and> \<not> cb_pending ex_confirmed \<and> cb_view ex_confirmed = cb_view ex_synced \<and>
    cb_reload ex_marshal [] ex_down ex_confirmed [] = ((None, []), ex_confirmed)"
  using reload_outcome [OF ex_reload, of ex_marshal "[]" ex_down "[]"]
    reload_outcome [OF ex_reload_down, of ex_marshal "[]" ex_down "[]"]
  by simp

text \<open>
  C20: a reload without error treats the server data, the clusters and the certificates in this order. Of
  each that has changed it writes every changed file, with the text of the current configuration, and no
  other file, and then asks BFE once to load that configuration, under its name; of one without a
  change it does nothing.
\<close>

theorem reload_writes_then_tells:
  assumes "cb_reload mj sch io c h = ((None, h'), c')"
  shows "\<exists>es1 es2 es3. h' = h @ es1 @ es2 @ es3 \<and>
    told io ''server_data_conf'' (sd_files (mj_sd mj) (serverDataConf c)) es1 \<and>
    told io ''gslb_data_conf'' (cl_files (mj_cl mj) (clusterConf c)) es2 \<and>
    told io ''tls_conf'' (tls_files (mj_tls mj) (tlsConf c)) es3"
  using reload_told [OF assms]
  by (simp only: ConfigNameServerData_def ConfigNameclusterConf_def ConfigNameTLSConf_def)

lemma ex_changed:
  "(RouteRuleData, Inr ''R'') \<in> set (sd_files (mj_sd ex_marshal) (serverDataConf ex_synced))"
  "cl_files (mj_cl ex_marshal) (clusterConf ex_synced) \<noteq> []"
  unfolding ex_synced_def by code_simp+

theorem reload_writes_then_tells_witness:
  "\<exists>ws1 ws2 es. ex_trace =
      ws1 @ [Http_Get (io_reload_url ex_io @ ''server_data_conf'')] @
      ws2 @ [Http_Get (io_reload_url ex_io @ ''gslb_data_conf'')] @ es \<and>
    (\<exists>e \<in> set ws1. written ex_io (RouteRuleData, Inr ''R'') e)"
proof -
  obtain es1 es2 es3 where es: "ex_trace = es1 @ es2 @ es3"
    "told ex_io ''server_data_conf'' (sd_files (mj_sd ex_marshal) (serverDataConf ex_synced)) es1"
    "told ex_io ''gslb_data_conf'' (cl_files (mj_cl ex_marshal) (clusterConf ex_synced)) es2"
    using reload_writes_then_tells [OF ex_reload] by auto
  obtain ws1 where 1: "es1 = ws1 @ [Http_Get (io_reload_url ex_io @ ''server_data_conf'')]"
    "\<exists>e \<in> set ws1. written ex_io (RouteRuleData, Inr ''R'') e"
    using es(2) ex_changed(1) by (auto simp: told_def split: if_splits)
  obtain ws2 where 2: "es2 = ws2 @ [Http_Get (io_reload_url ex_io @ ''gslb_data_conf'')]"
    using es(3) ex_changed(2) by (auto simp: told_def)
  have "ex_trace = ws1 @ [Http_Get (io_reload_url ex_io @ ''server_data_conf'')] @
      ws2 @ [Http_Get (io_reload_url ex_io @ ''gslb_data_conf'')] @ es3"
    using es(1) 1(1) 2 by simp
  then show ?thesis using 1(2) by blast
qed

text \<open>
  C19: the reload loop converges: if one of the ticks before the context is done finds the files
  writable and BFE accepting, and the configuration can be encoded, then nothing is pending at
  the end, whatever the other ticks find.
\<close>

theorem reload_loop_converges:
  assumes "(sch, io) \<in> set (ticks_of es)" and "cb_good mj sch io c" and "InitReload mj es c h = (h', c')"
  shows "\<not> cb_pending c' \<and> cb_view c' = cb_view c"
  using cbl.ticks_converge [OF assms(1,2)] cbr.ticks_view assms(3)
  unfolding InitReload_ticks by blast

lemma ex_good_env: "cb_good ex_marshal [] ex_io c"
  by (simp add: cb_good_def writable_def bfe_accepts_def encodes_def ex_marshal_def ex_io_def)

theorem reload_loop_converges_witness:
  "\<not> cb_pending (snd (InitReload ex_marshal [Tick [] ex_down, Tick [] ex_io, Ctx_Done] ex_synced [])) \<and>
    cb_view (snd (InitReload ex_marshal [Tick [] ex_down, Tick [] ex_io, Ctx_Done] ex_synced [])) = cb_view ex_synced"
  by (rule reload_loop_converges [OF _ ex_good_env surjective_pairing]) simp

text \<open>
  An update of an ingress with rules that succeeds is pending as soon as the clock it read
  differs from the version BFE last confirmed.
\<close>

lemma update_is_pending:
  assumes "cb_UpdateIngress E ch ing services eps secs c = Some (None, c')" and "ing_rules ing \<noteq> []"
    and "ch_table_now (cc_sd ch) \<noteq> routeTableVersion (serverDataConf c)"
  shows "rt_version (routeTableFile (serverDataConf c')) \<noteq> routeTableVersion (serverDataConf c')"
proof -
  obtain s1 where u: "sd_UpdateIngress (cb_sd E) (cc_sd ch) ing (serverDataConf c) = Some (None, s1)"
    and s1: "serverDataConf c' = s1"
    using assms(1) by (auto simp: cb_UpdateIngress_def split: option.splits prod.splits)
  have "rt_version (routeTableFile s1) \<noteq> routeTableVersion s1"
    using u
  proof (cases rule: sd_UpdateIngress_cases)
    case (ok s2 s3)
    have "sd_tables s2 = sd_tables (serverDataConf c)"
      using updateCache_frame [OF ok(3)] by (simp add: sd_cleared_def sd_delete_rules_def sd_tables_def)
    then show ?thesis using ok(4,5) assms(3)
      by (auto simp: updateRouteTable_def updateBfeClusterConf_def newRouteTableConfFile_def sd_tables_def Let_def
          split: prod.splits sum.splits option.splits)
  qed (use assms(2) in simp_all)
  then show ?thesis by (simp add: s1)
qed

text \<open>
  C2: a path of an ingress that was reconciled without error reaches BFE. Provided that the reconcile read
  a clock that shows another version than the last confirmed one, the next reload that finds the files
  writable and BFE accepting leaves nothing pending: it writes the route table and then asks BFE to load
  the server data, and the table stays on disk. In that table the rule of the path's host, pattern and
  condition is routed, to a cluster of the cluster table: it is the rule of a path of the ingress, with
  the cluster of that path, or a rule of the same age that another ingress had there before.
\<close>

theorem synced_ingress_reaches_bfe:
  assumes "multimap (sd_rules (cb_sd E)) R1" and "multimap (cl_strs (cb_cl E)) R2"
    and "multimap (tls_strs (cb_tls E)) R2" and "reachable E c" and "kube_named ing"
    and "ReconcileV1Ingress E opts io k ch ing c = Some (es, None, c', ing')"
    and "ch_table_now (cc_sd (rc_update ch)) \<noteq> routeTableVersion (serverDataConf c)"
    and "cb_good mj sch io' c'" and "(host, p) \<in> set (paths_of ing)"
  shows "\<exists>es' c'' rs r t ws rest. cb_reload mj sch io' c' h = ((None, h @ es'), c'') \<and> \<not> cb_pending c'' \<and>
    mj_route (mj_sd mj) (routeTableFile (serverDataConf c')) = Inr t \<and>
    es' = ws @ Http_Get (io_reload_url io' @ ''server_data_conf'') # rest \<and>
    Write_File (io_config_path io' @ ''server_data_conf/route_rule.data'') t \<in> set ws \<and>
    (\<forall>d d'. disk_run io' h es' d d' \<longrightarrow> d' (io_config_path io' @ ''server_data_conf/route_rule.data'') = Some t) \<and>
    rules_find (ruleMap (routeRuleCache (serverDataConf c'))) (rule_host host) (rule_path p) = Some rs \<and>
    r \<in> set rs \<and> routed (routeTableFile (serverDataConf c')) rs r \<and>
    cond_of (r_annots r) = cond_of (ing_annots ing) \<and> r_time r = ing_created ing \<and>
    mget (table (clusterConf c')) (r_cluster r) \<noteq> None \<and>
    ((r_ingress r = ingress_name ing \<and> (\<exists>x \<in> set (paths_of ing). rule_host (fst x) = rule_host host \<and>
        rule_path (snd x) = rule_path p \<and> r_cluster r = cluster_name ing (snd x))) \<or>
     (r_ingress r \<noteq> ingress_name ing \<and> route_view (ruleMap (routeRuleCache (serverDataConf c)))
        (rule_host host, rule_path p, cond_of (ing_annots ing)) = Some r))"
  using assms(6)
proof (cases rule: ReconcileV1Ingress_cases)
  case (synced services eps secs)
  note M = builder_mapsI [OF assms(1-3)]
  have path: "(host, p) \<in> set (paths_of ing')" using assms(9) same_paths [OF synced(8)] by simp
  then have rules: "ing_rules ing' \<noteq> []" by (auto simp: paths_of_def)
  have named: "kube_named ing'" using assms(5) kube_named_cong [OF synced(6,7)] by simp
  obtain r where view: "route_view (ruleMap (routeRuleCache (serverDataConf c')))
      (rule_host host, rule_path p, cond_of (ing_annots ing')) = Some r"
    and served: "r_time r = ing_created ing" "mget (table (clusterConf c')) (r_cluster r) \<noteq> None"
    using builder_maps.cb_update_serves [OF M synced(3) assms(4) named path] synced(10) by auto
  have source: "(r_ingress r = ingress_name ing \<and> (\<exists>x \<in> set (paths_of ing). rule_host (fst x) = rule_host host \<and>
        rule_path (snd x) = rule_path p \<and> r_cluster r = cluster_name ing (snd x))) \<or>
     (r_ingress r \<noteq> ingress_name ing \<and> route_view (ruleMap (routeRuleCache (serverDataConf c)))
        (rule_host host, rule_path p, cond_of (ing_annots ing)) = Some r)"
    using builder_maps.cb_update_source [OF M synced(3) assms(4) rules view] same_paths [OF synced(8)] synced(6,7,9)
    by (auto simp: ingress_name_def cluster_name_def)
  from rule_of_view [OF view] obtain rs where
    rs: "rules_find (ruleMap (routeRuleCache (serverDataConf c'))) (rule_host host) (rule_path p) = Some rs"
    and r: "r \<in> set rs" "cond_of (r_annots r) = cond_of (ing_annots ing)" using synced(9) by auto
  have wf: "wf_cache R1 (routeRuleCache (serverDataConf c))"
    using builder_maps.reachable_ok [OF M assms(4)] unfolding builder_maps.cb_ok_def [OF M] by blast
  have certs: "certs_named (tlsConf c')"
    by (rule reachable_named [OF reachable.step [OF assms(4) cb_step.update_ingress [OF synced(3) named]]])
  have "routed (routeTableFile (serverDataConf c')) rs r"
    using synced(3)
  proof (cases rule: cb_UpdateIngress_cases)
    case (updated s1 k1 t1)
    show ?thesis
      using server_rules.update_routes [OF server_rulesI [OF assms(1)] updated(2) wf rules _ r(1)] rs
      by (simp add: updated(5))
  qed simp_all
  moreover obtain es' c'' where reload: "cb_reload mj sch io' c' h = ((None, h @ es'), c'')"
    using cb_reload_good [OF assms(8)] cbr.reload_extends by blast
  moreover have idle: "\<not> cb_pending c''" by (rule cbr.reload_ok [OF reload])
  note due = update_is_pending [OF synced(3) rules assms(7)]
  have changed: "(RouteRuleData, mj_route (mj_sd mj) (routeTableFile (serverDataConf c'))) \<in>
      set (sd_files (mj_sd mj) (serverDataConf c'))" using due by (auto simp: sd_files_def)
  obtain ws rest t where ws: "es' = ws @ Http_Get (io_reload_url io' @ ''server_data_conf'') # rest"
    "Write_File (io_config_path io' @ ''server_data_conf/route_rule.data'') t \<in> set ws"
    "mj_route (mj_sd mj) (routeTableFile (serverDataConf c')) = Inr t"
    using told_first [OF reload changed] by (auto simp: ConfigNameServerData_def RouteRuleData_def)
  moreover have "d' (io_config_path io' @ ''server_data_conf/route_rule.data'') = Some t"
    if "disk_run io' h es' d d'" for d d'
  proof -
    have "(False, RouteRuleData, mj_route (mj_sd mj) (routeTableFile (serverDataConf c'))) \<in>
        set (sd_tracked (mj_sd mj) (serverDataConf c'))"
      using due by (auto simp: sd_tracked_def)
    from builder_reload_stores [OF reload that certs this] show ?thesis
      by (simp add: holds_def ws(3) RouteRuleData_def)
  qed
  ultimately show ?thesis using rs r served source idle by blast
qed simp

lemma ex_clock: "ch_table_now (cc_sd (rc_update ex_rec_choice)) \<noteq> routeTableVersion (serverDataConf ex_start)"
  by code_simp

lemma ex_good_path: "(''a.b'', ex_path ''/x'' ''s'') \<in> set (paths_of ex_good)"
  by (simp add: paths_of_def ex_good_def ex_ingress_def)

theorem synced_ingress_reaches_bfe_witness:
  "\<not> cb_pending ex_confirmed \<and>
    Http_Get (io_reload_url ex_io @ ''server_data_conf'') \<in> set ex_trace \<and>
    (\<exists>d. disk_run ex_io [] ex_trace Map.empty d \<and>
      d (io_config_path ex_io @ ''server_data_conf/route_rule.data'') = Some ''R'') \<and>
    (\<exists>rs r. r \<in> set rs \<and> routed (routeTableFile (serverDataConf ex_synced)) rs r)"
proof -
  obtain d where d: "disk_run ex_io [] ex_trace Map.empty d" using disk_run_exists by blast
  obtain es' c'' rs r t ws rest where r: "cb_reload ex_marshal [] ex_io ex_synced [] = ((None, [] @ es'), c'')"
    "\<not> cb_pending c''" "mj_route (mj_sd ex_marshal) (routeTableFile (serverDataConf ex_synced)) = Inr t"
    "es' = ws @ Http_Get (io_reload_url ex_io @ ''server_data_conf'') # rest"
    "r \<in> set rs" "routed (routeTableFile (serverDataConf ex_synced)) rs r"
    "\<forall>d d'. disk_run ex_io [] es' d d' \<longrightarrow>
       d' (io_config_path ex_io @ ''server_data_conf/route_rule.data'') = Some t"
    using synced_ingress_reaches_bfe [OF ex_env_multimaps ex_start_reachable ex_good_named ex_sync ex_clock
        ex_good_env ex_good_path, of "[]"] by blast
  have "es' = ex_trace" "c'' = ex_confirmed" using r(1) ex_reload by simp_all
  moreover have "Http_Get (io_reload_url ex_io @ ''server_data_conf'') \<in> set es'" unfolding r(4) by simp
  ultimately show ?thesis using r(2,3,5-7) d by (auto simp: ex_marshal_def)
qed

end
